(* ===== verification/Prelude.thy ===== *)
theory Prelude
  imports Main "HOL-Library.Finite_Map" "HOL-Library.Char_ord" "HOL-Library.List_Lexorder"
begin

text \<open>
  The vocabulary every component of the development shares.

  \<^item> Go maps with string keys are finite maps (\<^typ>\<open>(string, 'v) fmap\<close>): extensional, so that
    restoring an entry gives back the same map, and enumerable in key order, so that the places
    where the code sorts the keys of a map compute. A nil map reads as the empty one; the few
    places where the code tells nil from empty carry an option.
  \<^item> Instants and durations are integers, in nanoseconds. Instants count from Go's zero time, so
    that \<open>time.Time{}\<close> is \<open>0\<close> and \<open>IsZero\<close> is equality with it.
  \<^item> A fallible operation returns \<open>error + 'a\<close>, the error on the left.
  \<^item> Strings are lists of characters, and a character is a byte.
\<close>

named_theorems go_simps \<open>unfolding rules of the small Go library functions\<close>

type_synonym gotime = int
type_synonym duration = int
type_synonym strmap = "(string, string) fmap"


section \<open>Lists\<close>

lemma distinct_snoc [simp]: "distinct (xs @ [x]) \<longleftrightarrow> distinct xs \<and> x \<notin> set xs"
  by auto

lemma filter_snoc [simp]: "filter P (xs @ [x]) = filter P xs @ (if P x then [x] else [])"
  by simp

lemma set_takeWhileI: "x \<in> set (takeWhile P xs) \<Longrightarrow> P x"
  by (induction xs) (auto split: if_splits)

text \<open>The first element that satisfies a predicate, as the loops that return on a hit compute it.\<close>

fun find_index :: "('a \<Rightarrow> bool) \<Rightarrow> 'a list \<Rightarrow> nat option" where
  "find_index P [] = None"
| "find_index P (x # xs) = (if P x then Some 0 else map_option Suc (find_index P xs))"

lemma find_index_None [simp]: "find_index P xs = None \<longleftrightarrow> (\<forall>x \<in> set xs. \<not> P x)"
  by (induction xs) auto

lemma find_index_SomeD:
  "find_index P xs = Some i \<Longrightarrow> i < length xs \<and> P (xs ! i) \<and> (\<forall>j < i. \<not> P (xs ! j))"
proof (induction xs arbitrary: i)
  case (Cons x xs)
  show ?case
  proof (cases "P x")
    case False
    with Cons.prems obtain k where k: "find_index P xs = Some k" "i = Suc k"
      by auto
    from Cons.IH [OF k(1)] False k(2) show ?thesis
      by (auto simp: less_Suc_eq_0_disj)
  qed (use Cons.prems in auto)
qed simp


section \<open>Finite maps\<close>

lemma fmupd_restore [simp]: "fmlookup m k = Some v \<Longrightarrow> fmupd k v (fmupd k w m) = m"
  by (rule fmap_ext) auto

lemma fmupd_same [simp]: "fmlookup m k = Some v \<Longrightarrow> fmupd k v m = m"
  by (rule fmap_ext) auto

lemma fmdrop_fmupd_absent [simp]: "fmlookup m k = None \<Longrightarrow> fmdrop k (fmupd k v m) = m"
  by (rule fmap_ext) auto

text \<open>The keys of a map in ascending order: what collecting the keys and sorting them gives.\<close>

definition sorted_keys :: "('k :: linorder, 'v) fmap \<Rightarrow> 'k list" where
  "sorted_keys m = sorted_list_of_fset (fmdom m)"

lemma set_sorted_keys [simp]: "set (sorted_keys m) = fset (fmdom m)"
  by (simp add: sorted_keys_def)

lemma distinct_sorted_keys [simp]: "distinct (sorted_keys m)"
  by (simp add: sorted_keys_def sorted_list_of_fset.rep_eq)

lemma sorted_sorted_keys [simp]: "sorted (sorted_keys m)"
  by (simp add: sorted_keys_def sorted_list_of_fset.rep_eq)

lemma sorted_keys_of_list [simp]: "sorted_keys (fmap_of_list xs) = sort (remdups (map fst xs))"
proof -
  have "fset (fmdom (fmap_of_list xs)) = set (map fst xs)"
    by (metis fmdom_fmap_of_list fset_of_list.rep_eq)
  then have "sorted_keys (fmap_of_list xs) = sorted_list_of_set (set (map fst xs))"
    by (simp only: sorted_keys_def sorted_list_of_fset.rep_eq)
  then show ?thesis
    by (simp only: sorted_list_of_set_sort_remdups)
qed

lemma sorted_keys_empty [simp]: "sorted_keys fmempty = []"
  by (simp add: sorted_keys_def sorted_list_of_fset.rep_eq)

text \<open>Entries in key order.\<close>

definition fm_items :: "('k :: linorder, 'v) fmap \<Rightarrow> ('k \<times> 'v) list" where
  "fm_items m = map (\<lambda>k. (k, the (fmlookup m k))) (sorted_keys m)"

lemma set_fm_items: "(k, v) \<in> set (fm_items m) \<longleftrightarrow> fmlookup m k = Some v"
  by (force simp: fm_items_def fmlookup_dom_iff)

lemma distinct_fst_fm_items [simp]: "distinct (map fst (fm_items m))"
  by (simp add: fm_items_def comp_def)

lemma distinct_fm_items [simp]: "distinct (fm_items m)"
  using distinct_fst_fm_items [of m] unfolding distinct_map by blast

lemma fm_items_inj: "fm_items m = fm_items n \<Longrightarrow> m = n"
  by (rule fmap_ext) (metis set_fm_items option.exhaust)

text \<open>Reading a missing key of a string map gives the empty string.\<close>

definition str_at :: "strmap \<Rightarrow> string \<Rightarrow> string" where
  "str_at m k = (case fmlookup m k of None \<Rightarrow> [] | Some v \<Rightarrow> v)"

text \<open>Copying the entries of one map over another.\<close>

definition merge_maps :: "strmap \<Rightarrow> strmap \<Rightarrow> strmap" where
  "merge_maps a b = a ++\<^sub>f b"


section \<open>Time\<close>

definition max_duration :: duration where
  "max_duration = 2 ^ 63 - 1"

definition min_duration :: duration where
  "min_duration = - (2 ^ 63)"

text \<open>\<open>Time.Sub\<close> saturates at the range of a 64-bit duration.\<close>

definition time_sub :: "gotime \<Rightarrow> gotime \<Rightarrow> duration" where
  "time_sub t u = max min_duration (min max_duration (t - u))"

text \<open>\<open>Time.Truncate\<close> rounds down to a multiple of \<open>d\<close> since the zero time.\<close>

definition time_truncate :: "gotime \<Rightarrow> duration \<Rightarrow> gotime" where
  "time_truncate t d = (if d \<le> 0 then t else t - t mod d)"

definition nanosecond :: duration where "nanosecond = 1"
definition millisecond :: duration where "millisecond = 1000000"
definition second :: duration where "second = 1000000000"
definition minute :: duration where "minute = 60 * second"
definition hour :: duration where "hour = 60 * minute"

lemmas duration_defs [go_simps] =
  nanosecond_def millisecond_def second_def minute_def hour_def

text \<open>
  \<open>Time.Unix\<close>: seconds since 1970. The zero time of Go is 62135596800 seconds earlier.
\<close>

definition unix_seconds :: "gotime \<Rightarrow> int" where
  "unix_seconds t = t div second - 62135596800"

lemma time_sub_nonneg [simp]: "u \<le> t \<Longrightarrow> 0 \<le> time_sub t u"
  by (simp add: time_sub_def max_duration_def)

lemma time_sub_self [simp]: "time_sub t t = 0"
  by (simp add: time_sub_def max_duration_def min_duration_def)

lemma time_sub_mono: "t \<le> t' \<Longrightarrow> time_sub t u \<le> time_sub t' u"
  by (simp add: time_sub_def)

lemma time_truncate_le: "time_truncate t d \<le> t"
  by (simp add: time_truncate_def)

lemma time_truncate_idem [simp]: "time_truncate (time_truncate t d) d = time_truncate t d"
  by (simp add: time_truncate_def minus_mod_eq_mult_div)


section \<open>Strings\<close>

definition has_prefix :: "string \<Rightarrow> string \<Rightarrow> bool" where
  "has_prefix s p \<longleftrightarrow> take (length p) s = p"

definition has_suffix :: "string \<Rightarrow> string \<Rightarrow> bool" where
  "has_suffix s p \<longleftrightarrow> length p \<le> length s \<and> drop (length s - length p) s = p"

definition trim_prefix :: "string \<Rightarrow> string \<Rightarrow> string" where
  "trim_prefix s p = (if has_prefix s p then drop (length p) s else s)"

definition trim_suffix :: "string \<Rightarrow> string \<Rightarrow> string" where
  "trim_suffix s p = (if has_suffix s p then take (length s - length p) s else s)"

lemma has_prefix_append [simp]: "has_prefix (p @ s) p"
  by (simp add: has_prefix_def)

lemma has_prefix_iff: "has_prefix s p \<longleftrightarrow> (\<exists>t. s = p @ t)"
  by (auto simp: has_prefix_def) (metis append_take_drop_id)

lemma trim_prefix_append [simp]: "trim_prefix (p @ s) p = s"
  by (simp add: trim_prefix_def)

fun join_sep :: "string \<Rightarrow> string list \<Rightarrow> string" where
  "join_sep sep [] = []"
| "join_sep sep [x] = x"
| "join_sep sep (x # y # xs) = x @ sep @ join_sep sep (y # xs)"

text \<open>Decimal text of an integer (\<open>strconv.FormatInt(_, 10)\<close>, \<open>%d\<close>).\<close>

definition digit_char :: "int \<Rightarrow> char" where
  "digit_char d = char_of (48 + d)"

definition digit_value :: "char \<Rightarrow> int" where
  "digit_value c = of_char c - 48"

function show_pos :: "int \<Rightarrow> string" where
  "show_pos n = (if n < 10 then [digit_char n] else show_pos (n div 10) @ [digit_char (n mod 10)])"
  by pat_completeness auto
termination
  by (relation "measure nat") auto

declare show_pos.simps [simp del]

definition show_int :: "int \<Rightarrow> string" where
  "show_int i = (if i < 0 then ''-'' @ show_pos (- i) else show_pos i)"

definition show_bool :: "bool \<Rightarrow> string" where
  "show_bool b = (if b then ''true'' else ''false'')"

text \<open>
  Go's \<open>%q\<close>: the string in double quotes, with quotes, backslashes and control characters escaped.
  Bytes from 0x80 up are kept, as Go keeps printable UTF-8.
\<close>

definition hex_char :: "int \<Rightarrow> char" where
  "hex_char d = (if d < 10 then digit_char d else char_of (87 + d))"

definition quote_char :: "char \<Rightarrow> string" where
  "quote_char c =
     (let n = (of_char c :: int); esc = (\<lambda>x. [CHR 0x5C, x])
      in if c = CHR 0x22 \<or> c = CHR 0x5C then esc c
         else if n = 7 then esc CHR ''a'' else if n = 8 then esc CHR ''b'' else if n = 9 then esc CHR ''t''
         else if n = 10 then esc CHR ''n'' else if n = 11 then esc CHR ''v'' else if n = 12 then esc CHR ''f''
         else if n = 13 then esc CHR ''r''
         else if n < 32 \<or> n = 127 then esc CHR ''x'' @ [hex_char (n div 16), hex_char (n mod 16)]
         else [c])"

definition quote_q :: "string \<Rightarrow> string" where
  "quote_q s = CHR 0x22 # concat (map quote_char s) @ [CHR 0x22]"

text \<open>
  \<open>strings.NewReplacer(pairs...).Replace\<close>: scan left to right; at each position the first pair, in
  argument order, whose old string is a prefix of the rest is replaced. The code never passes an
  empty old string.
\<close>

definition first_match :: "(string \<times> string) list \<Rightarrow> string \<Rightarrow> (string \<times> string) option" where
  "first_match ps s = find (\<lambda>(old, new). old \<noteq> [] \<and> has_prefix s old) ps"

lemma first_match_SomeD:
  "first_match ps s = Some (old, new) \<Longrightarrow> old \<noteq> [] \<and> has_prefix s old \<and> (old, new) \<in> set ps"
  by (auto simp: first_match_def find_Some_iff) (metis nth_mem)

function replace_all :: "(string \<times> string) list \<Rightarrow> string \<Rightarrow> string" where
  "replace_all ps [] = []"
| "replace_all ps (c # cs) =
     (case first_match ps (c # cs) of
        None \<Rightarrow> c # replace_all ps cs
      | Some (old, new) \<Rightarrow> new @ replace_all ps (drop (length old) (c # cs)))"
  by pat_completeness auto
termination
proof (relation "measure (\<lambda>(ps, s). length s)")
  fix ps c cs and x :: "string \<times> string" and old new
  assume "first_match ps (c # cs) = Some x" "(old, new) = x"
  then have "old \<noteq> []" by (auto dest: first_match_SomeD)
  then show "((ps, drop (length old) (c # cs)), ps, c # cs) \<in> measure (\<lambda>(ps, s). length s)"
    by (cases old) auto
qed auto

text \<open>\<open>strings.ToLower\<close> and \<open>strings.TrimSpace\<close> on ASCII text.\<close>

definition to_lower_char :: "char \<Rightarrow> char" where
  "to_lower_char c = (let n = of_char c :: nat in if 65 \<le> n \<and> n \<le> 90 then char_of (n + 32) else c)"

definition to_lower :: "string \<Rightarrow> string" where
  "to_lower = map to_lower_char"

definition is_space :: "char \<Rightarrow> bool" where
  "is_space c \<longleftrightarrow> (let n = of_char c :: nat in n = 32 \<or> (9 \<le> n \<and> n \<le> 13))"

definition trim_space :: "string \<Rightarrow> string" where
  "trim_space s = rev (dropWhile is_space (rev (dropWhile is_space s)))"

text \<open>Character classes of the regular expressions in the sources.\<close>

definition in_range :: "char \<Rightarrow> char \<Rightarrow> char \<Rightarrow> bool" where
  "in_range lo hi c \<longleftrightarrow> of_char lo \<le> (of_char c :: nat) \<and> (of_char c :: nat) \<le> of_char hi"

lemma in_range_code [code]:
  "in_range lo hi c \<longleftrightarrow> (of_char lo :: int) \<le> of_char c \<and> (of_char c :: int) \<le> of_char hi"
proof -
  have "(of_char x :: int) = int (of_char x)" for x by (simp add: of_nat_of_char)
  then show ?thesis by (simp add: in_range_def)
qed

definition is_upper :: "char \<Rightarrow> bool" where "is_upper = in_range CHR ''A'' CHR ''Z''"
definition is_lower :: "char \<Rightarrow> bool" where "is_lower = in_range CHR ''a'' CHR ''z''"
definition is_digit :: "char \<Rightarrow> bool" where "is_digit = in_range CHR ''0'' CHR ''9''"
definition is_alpha :: "char \<Rightarrow> bool" where "is_alpha c \<longleftrightarrow> is_upper c \<or> is_lower c"
definition is_alnum :: "char \<Rightarrow> bool" where "is_alnum c \<longleftrightarrow> is_alpha c \<or> is_digit c"

lemmas char_class_defs [go_simps] =
  in_range_def is_upper_def is_lower_def is_digit_def is_alpha_def is_alnum_def


section \<open>Calendar\<close>

text \<open>
  Civil date and time of day in UTC, as \<open>Time.Hour\<close>, \<open>Time.Minute\<close>, \<open>Time.Weekday\<close> and
  \<open>Time.Format(time.RFC3339)\<close> use them. The zero time is Monday, 1 January of year 1.
\<close>

definition day_number :: "gotime \<Rightarrow> int" where
  "day_number t = t div (24 * hour)"

definition minute_of_day :: "gotime \<Rightarrow> int" where
  "minute_of_day t = t mod (24 * hour) div minute"

text \<open>Sunday is 0, as in package \<open>time\<close>.\<close>

definition weekday :: "gotime \<Rightarrow> int" where
  "weekday t = (day_number t + 1) mod 7"

definition leap_year :: "int \<Rightarrow> bool" where
  "leap_year y \<longleftrightarrow> y mod 4 = 0 \<and> (y mod 100 \<noteq> 0 \<or> y mod 400 = 0)"

definition month_lengths :: "int \<Rightarrow> int list" where
  "month_lengths y = [31, if leap_year y then 29 else 28, 31, 30, 31, 30, 31, 31, 30, 31, 30, 31]"

text \<open>The month and day in it of a day counted from the start of a month.\<close>

fun month_day :: "int \<Rightarrow> int list \<Rightarrow> int \<Rightarrow> int \<times> int" where
  "month_day m [] n = (m, n + 1)"
| "month_day m (l # ls) n = (if n < l then (m, n + 1) else month_day (m + 1) ls (n - l))"

text \<open>Year, month and day of a day number: cycles of 400, 100 and 4 years, then single years.\<close>

definition civil_date :: "int \<Rightarrow> int \<times> int \<times> int" where
  "civil_date days =
     (let n400 = days div 146097; d400 = days mod 146097; n100 = min 3 (d400 div 36524); d100 = d400 - 36524 * n100;
          n4 = d100 div 1461; d4 = d100 mod 1461; n1 = min 3 (d4 div 365);
          y = 400 * n400 + 100 * n100 + 4 * n4 + n1 + 1
      in (y, month_day 1 (month_lengths y) (d4 - 365 * n1)))"

definition pad_int :: "nat \<Rightarrow> int \<Rightarrow> string" where
  "pad_int w i = replicate (w - length (show_int i)) CHR ''0'' @ show_int i"

definition rfc3339 :: "gotime \<Rightarrow> string" where
  "rfc3339 t =
     (let (y, m, d) = civil_date (day_number t); s = t mod (24 * hour) div second
      in pad_int 4 y @ ''-'' @ pad_int 2 m @ ''-'' @ pad_int 2 d @ ''T'' @
         pad_int 2 (s div 3600) @ '':'' @ pad_int 2 (s mod 3600 div 60) @ '':'' @ pad_int 2 (s mod 60) @ ''Z'')"


text \<open>\<open>Duration.String\<close>.\<close>

definition frac_text :: "int \<Rightarrow> nat \<Rightarrow> string" where
  "frac_text v prec =
     (let f = v mod 10 ^ prec
      in if f = 0 then [] else ''.'' @ rev (dropWhile (\<lambda>c. c = CHR ''0'') (rev (pad_int prec f))))"

definition show_duration :: "duration \<Rightarrow> string" where
  "show_duration d =
     (let u = \<bar>d\<bar>; s = u div second
      in if d = 0 then ''0s''
         else (if d < 0 then ''-'' else [])
            @ (if u < 1000 then show_int u @ ''ns''
               else if u < millisecond then show_int (u div 1000) @ frac_text u 3 @ [CHR 0xC2, CHR 0xB5] @ ''s''
               else if u < second then show_int (u div millisecond) @ frac_text u 6 @ ''ms''
               else (if 3600 \<le> s then show_int (s div 3600) @ ''h'' else [])
                  @ (if 60 \<le> s then show_int (s mod 3600 div 60) @ ''m'' else [])
                  @ show_int (s mod 60) @ frac_text u 9 @ ''s''))"


section \<open>Results\<close>

text \<open>Sequencing of fallible steps: the early return on an error.\<close>

definition bind_res :: "'e + 'a \<Rightarrow> ('a \<Rightarrow> 'e + 'b) \<Rightarrow> 'e + 'b" where
  "bind_res r f = (case r of Inl e \<Rightarrow> Inl e | Inr a \<Rightarrow> f a)"

lemma bind_res_simps [simp]:
  "bind_res (Inl e) f = Inl e"
  "bind_res (Inr a) f = f a"
  by (simp_all add: bind_res_def)

lemma bind_res_InrD: "bind_res r f = Inr b \<Longrightarrow> \<exists>a. r = Inr a \<and> f a = Inr b"
  by (cases r) auto

end
