(* ===== verification/Go_Hash.thy ===== *)
theory Go_Hash
  imports Prelude "HOL-Library.Word"
begin

unbundle bit_operations_syntax

text \<open>
  The two hash functions of Go's standard library that the sources use, on byte strings:
  SHA-256 (\<open>crypto/sha256\<close>), from which every stable identifier is derived, and 32-bit FNV-1a
  (\<open>hash/fnv\<close>), which picks a worker shard and a first poll offset. Both are executable and kept
  at their machine width. \<open>hex.EncodeToString\<close> is here too.
\<close>

type_synonym u8 = "8 word"
type_synonym u32 = "32 word"

definition byte_of :: "char \<Rightarrow> int" where
  "byte_of c = of_char c"


section \<open>FNV-1a, 32 bit\<close>

definition fnv32a_step :: "u32 \<Rightarrow> char \<Rightarrow> u32" where
  "fnv32a_step h c = (h XOR word_of_int (byte_of c)) * 16777619"

definition fnv32a :: "string \<Rightarrow> u32" where
  "fnv32a s = foldl fnv32a_step 2166136261 s"


section \<open>SHA-256\<close>

definition rotr32 :: "nat \<Rightarrow> u32 \<Rightarrow> u32" where
  "rotr32 n x = drop_bit n x OR push_bit (32 - n) x"

definition sha_ch :: "u32 \<Rightarrow> u32 \<Rightarrow> u32 \<Rightarrow> u32" where
  "sha_ch x y z = (x AND y) XOR (NOT x AND z)"

definition sha_maj :: "u32 \<Rightarrow> u32 \<Rightarrow> u32 \<Rightarrow> u32" where
  "sha_maj x y z = (x AND y) XOR (x AND z) XOR (y AND z)"

definition big_sigma0 :: "u32 \<Rightarrow> u32" where
  "big_sigma0 x = rotr32 2 x XOR rotr32 13 x XOR rotr32 22 x"

definition big_sigma1 :: "u32 \<Rightarrow> u32" where
  "big_sigma1 x = rotr32 6 x XOR rotr32 11 x XOR rotr32 25 x"

definition small_sigma0 :: "u32 \<Rightarrow> u32" where
  "small_sigma0 x = rotr32 7 x XOR rotr32 18 x XOR drop_bit 3 x"

definition small_sigma1 :: "u32 \<Rightarrow> u32" where
  "small_sigma1 x = rotr32 17 x XOR rotr32 19 x XOR drop_bit 10 x"

text \<open>
  The round constants and the initial state, as FIPS 180-4 defines them: the first 32 bits of the
  fractional parts of the cube roots of the first 64 primes, and of the square roots of the first
  eight. \<open>int_root k n\<close> finds the integer \<open>k\<close>-th root bit by bit, from bit 35 down.
\<close>

definition int_root :: "nat \<Rightarrow> int \<Rightarrow> int" where
  "int_root k n = fold (\<lambda>b r. if (r + 2 ^ b) ^ k \<le> n then r + 2 ^ b else r) (rev [0..<36]) 0"

definition sha_primes :: "int list" where
  "sha_primes =
    [2, 3, 5, 7, 11, 13, 17, 19, 23, 29, 31, 37, 41, 43, 47, 53,
     59, 61, 67, 71, 73, 79, 83, 89, 97, 101, 103, 107, 109, 113, 127, 131,
     137, 139, 149, 151, 157, 163, 167, 173, 179, 181, 191, 193, 197, 199, 211, 223,
     227, 229, 233, 239, 241, 251, 257, 263, 269, 271, 277, 281, 283, 293, 307, 311]"

definition sha_k :: "u32 list" where
  "sha_k = map (\<lambda>p. word_of_int (int_root 3 (p * 2 ^ 96))) sha_primes"

type_synonym sha_state = "u32 list"

definition sha_init :: sha_state where
  "sha_init = map (\<lambda>p. word_of_int (int_root 2 (p * 2 ^ 64))) (take 8 sha_primes)"

text \<open>The message schedule: the latest sixteen words, newest first, extended one word at a time.\<close>

fun sha_schedule :: "nat \<Rightarrow> u32 list \<Rightarrow> u32 list" where
  "sha_schedule 0 ws = ws"
| "sha_schedule (Suc n) ws =
     sha_schedule n ((small_sigma1 (ws ! 1) + ws ! 6 + small_sigma0 (ws ! 14) + ws ! 15) # ws)"

fun sha_round :: "sha_state \<Rightarrow> u32 \<times> u32 \<Rightarrow> sha_state" where
  "sha_round [a, b, c, d, e, f, g, h] (k, w) =
     (let t1 = h + big_sigma1 e + sha_ch e f g + k + w; t2 = big_sigma0 a + sha_maj a b c
      in [t1 + t2, a, b, c, d + t1, e, f, g])"
| "sha_round st _ = st"

definition sha_block :: "sha_state \<Rightarrow> u32 list \<Rightarrow> sha_state" where
  "sha_block st ws =
     map2 (+) st (foldl sha_round st (zip sha_k (rev (sha_schedule 48 (rev ws)))))"

fun be_words :: "int list \<Rightarrow> u32 list" where
  "be_words (a # b # c # d # xs) =
     word_of_int (((a * 256 + b) * 256 + c) * 256 + d) # be_words xs"
| "be_words _ = []"

fun be_bytes :: "nat \<Rightarrow> int \<Rightarrow> int list" where
  "be_bytes 0 n = []"
| "be_bytes (Suc k) n = be_bytes k (n div 256) @ [n mod 256]"

text \<open>Padding: the byte 0x80, zeros up to 56 modulo 64, and the bit length in eight bytes.\<close>

definition sha_pad :: "int list \<Rightarrow> int list" where
  "sha_pad bs = bs @ 128 # replicate (nat ((55 - int (length bs)) mod 64)) 0 @ be_bytes 8 (8 * int (length bs))"

fun sha_blocks :: "nat \<Rightarrow> sha_state \<Rightarrow> u32 list \<Rightarrow> sha_state" where
  "sha_blocks 0 st ws = st"
| "sha_blocks (Suc n) st ws = sha_blocks n (sha_block st (take 16 ws)) (drop 16 ws)"

definition sha256 :: "string \<Rightarrow> int list" where
  "sha256 s =
     (let ws = be_words (sha_pad (map byte_of s))
      in concat (map (\<lambda>w. be_bytes 4 (uint w)) (sha_blocks (length ws div 16) sha_init ws)))"


section \<open>Hexadecimal text\<close>

definition hex_digit :: "int \<Rightarrow> char" where
  "hex_digit d = (if d < 10 then char_of (48 + d) else char_of (87 + d))"

definition hex_encode :: "int list \<Rightarrow> string" where
  "hex_encode bs = concat (map (\<lambda>b. [hex_digit (b div 16), hex_digit (b mod 16)]) bs)"


section \<open>The size of a digest\<close>

lemma length_be_bytes [simp]: "length (be_bytes k n) = k"
  by (induction k n rule: be_bytes.induct) auto

lemma set_be_bytes: "x \<in> set (be_bytes k n) \<Longrightarrow> x < 256"
  by (induction k n rule: be_bytes.induct) auto

lemma length_sha_round [simp]: "length (sha_round st kw) = length st"
  by (induction st kw rule: sha_round.induct) (auto simp: Let_def)

lemma length_foldl_sha_round [simp]: "length (foldl sha_round st kws) = length st"
  by (induction kws arbitrary: st) auto

lemma length_sha_block [simp]: "length (sha_block st ws) = length st"
  by (simp add: sha_block_def)

lemma length_sha_blocks [simp]: "length (sha_blocks n st ws) = length st"
  by (induction n st ws rule: sha_blocks.induct) auto

lemma length_concat_map_const: "(\<And>x. length (f x) = k) \<Longrightarrow> length (concat (map f xs)) = k * length xs"
  by (induction xs) auto

lemma length_sha256 [simp]: "length (sha256 s) = 32"
  by (simp add: sha256_def Let_def length_concat_map_const [of _ 4] sha_init_def sha_primes_def)

lemma length_hex_encode [simp]: "length (hex_encode bs) = 2 * length bs"
  by (simp add: hex_encode_def length_concat_map_const [of _ 2])

end
