(* ===== verification/Go_Float.thy ===== *)
theory Go_Float
  imports Prelude Complex_Main
begin

text \<open>
  Go's \<open>float64\<close> and its text. A value is NaN, an infinity or a rational (the two zeros are
  identified: the sources never divide by a float and never print a sign of zero on purpose).
  Arithmetic is exact on rationals and then rounded to the nearest double, ties to even, with
  overflow to infinity and gradual underflow, as IEEE 754 and the Go specification say. Comparisons
  with NaN are false. \<open>format_f\<close> is \<open>strconv.FormatFloat(_, 'f', -1, 64)\<close>, the shortest decimal
  text that reads back as the same double, and \<open>format_g6\<close> is \<open>strconv.FormatFloat(_, 'g', 6, 64)\<close>.
\<close>

datatype f64 = F_NaN | F_NInf | F_PInf | F_Fin rat


section \<open>Rounding\<close>

function num_digits :: "int \<Rightarrow> int \<Rightarrow> int" where
  "num_digits b n = (if n \<le> 0 \<or> b < 2 then 0 else 1 + num_digits b (n div b))"
  by pat_completeness auto
termination
  by (relation "measure (\<lambda>(b, n). nat n)") (auto simp: int_div_less_self)

declare num_digits.simps [simp del]

definition pow_int :: "int \<Rightarrow> int \<Rightarrow> rat" where
  "pow_int b e = (if 0 \<le> e then of_int (b ^ nat e) else 1 / of_int (b ^ nat (- e)))"

text \<open>The number of base \<open>b\<close> digits before the point: \<open>b ^ (e - 1) \<le> x < b ^ e\<close> for \<open>x > 0\<close>.\<close>

definition lead_exp :: "int \<Rightarrow> rat \<Rightarrow> int" where
  "lead_exp b x =
     (let (p, q) = quotient_of x; k = num_digits b p - num_digits b q
      in if pow_int b k \<le> x then k + 1 else k)"

definition round_half_even :: "rat \<Rightarrow> int" where
  "round_half_even x =
     (let f = \<lfloor>x\<rfloor>; r = x - of_int f
      in if r < 1 / 2 then f else if 1 / 2 < r then f + 1 else if even f then f else f + 1)"

definition f64_round :: "rat \<Rightarrow> f64" where
  "f64_round x =
     (if x = 0 then F_Fin 0
      else let e = max (lead_exp 2 \<bar>x\<bar> - 53) (- 1074);
               y = of_int (round_half_even (\<bar>x\<bar> / pow_int 2 e)) * pow_int 2 e
           in if 1024 < lead_exp 2 y then (if x < 0 then F_NInf else F_PInf)
              else F_Fin (if x < 0 then - y else y))"

definition f64_of_int :: "int \<Rightarrow> f64" where
  "f64_of_int i = f64_round (of_int i)"


section \<open>Comparison and arithmetic\<close>

fun f64_lt :: "f64 \<Rightarrow> f64 \<Rightarrow> bool" where
  "f64_lt F_NaN _ = False"
| "f64_lt _ F_NaN = False"
| "f64_lt F_NInf y = (y \<noteq> F_NInf)"
| "f64_lt _ F_NInf = False"
| "f64_lt F_PInf _ = False"
| "f64_lt _ F_PInf = True"
| "f64_lt (F_Fin a) (F_Fin b) = (a < b)"

definition f64_eq :: "f64 \<Rightarrow> f64 \<Rightarrow> bool" where
  "f64_eq x y \<longleftrightarrow> x \<noteq> F_NaN \<and> x = y"

fun f64_add :: "f64 \<Rightarrow> f64 \<Rightarrow> f64" where
  "f64_add (F_Fin a) (F_Fin b) = f64_round (a + b)"
| "f64_add F_NaN _ = F_NaN"
| "f64_add _ F_NaN = F_NaN"
| "f64_add F_PInf F_NInf = F_NaN"
| "f64_add F_NInf F_PInf = F_NaN"
| "f64_add F_PInf _ = F_PInf"
| "f64_add F_NInf _ = F_NInf"
| "f64_add _ y = y"

fun f64_sign :: "f64 \<Rightarrow> int" where
  "f64_sign F_NaN = 0"
| "f64_sign F_NInf = - 1"
| "f64_sign F_PInf = 1"
| "f64_sign (F_Fin a) = (if a < 0 then - 1 else if a = 0 then 0 else 1)"

definition f64_inf :: "int \<Rightarrow> f64" where
  "f64_inf s = (if s = 0 then F_NaN else if s < 0 then F_NInf else F_PInf)"

fun f64_mul :: "f64 \<Rightarrow> f64 \<Rightarrow> f64" where
  "f64_mul (F_Fin a) (F_Fin b) = f64_round (a * b)"
| "f64_mul F_NaN _ = F_NaN"
| "f64_mul _ F_NaN = F_NaN"
| "f64_mul x y = f64_inf (f64_sign x * f64_sign y)"

text \<open>Division by a finite non-zero number, which is all the sources do.\<close>

fun f64_div_rat :: "f64 \<Rightarrow> rat \<Rightarrow> f64" where
  "f64_div_rat (F_Fin a) b = f64_round (a / b)"
| "f64_div_rat F_NaN b = F_NaN"
| "f64_div_rat x b = f64_inf (f64_sign x * f64_sign (F_Fin b))"

text \<open>The built-in \<open>max\<close> and \<open>min\<close>: NaN if any argument is NaN.\<close>

definition f64_max :: "f64 \<Rightarrow> f64 \<Rightarrow> f64" where
  "f64_max x y = (if x = F_NaN \<or> y = F_NaN then F_NaN else if f64_lt x y then y else x)"

definition f64_min :: "f64 \<Rightarrow> f64 \<Rightarrow> f64" where
  "f64_min x y = (if x = F_NaN \<or> y = F_NaN then F_NaN else if f64_lt y x then y else x)"

definition f64_finite :: "f64 \<Rightarrow> bool" where
  "f64_finite x \<longleftrightarrow> (case x of F_Fin _ \<Rightarrow> True | _ \<Rightarrow> False)"


section \<open>Decimal text\<close>

text \<open>\<open>n\<close> significant digits of \<open>x > 0\<close>: the scaled integer nearest to it, and its neighbours.\<close>

definition scaled :: "rat \<Rightarrow> int \<Rightarrow> rat" where
  "scaled x e = x / pow_int 10 e"

definition reads_back :: "rat \<Rightarrow> int \<Rightarrow> int \<Rightarrow> bool" where
  "reads_back x e m \<longleftrightarrow> f64_round (of_int m * pow_int 10 e) = F_Fin x"

definition digits_at :: "rat \<Rightarrow> int \<Rightarrow> int option" where
  "digits_at x e = find (reads_back x e) [round_half_even (scaled x e), \<lfloor>scaled x e\<rfloor>, \<lfloor>scaled x e\<rfloor> + 1]"

text \<open>Seventeen significant digits always read back, so seventeen attempts are enough.\<close>

fun shortest_from :: "nat \<Rightarrow> rat \<Rightarrow> int \<Rightarrow> int \<times> int" where
  "shortest_from 0 x e = (round_half_even (scaled x e), e)"
| "shortest_from (Suc k) x e =
     (case digits_at x e of Some m \<Rightarrow> (m, e) | None \<Rightarrow> shortest_from k x (e - 1))"

definition shortest :: "rat \<Rightarrow> int \<times> int" where
  "shortest x = shortest_from 16 x (lead_exp 10 x - 1)"

text \<open>Plain decimal text of \<open>m * 10 ^ e\<close>.\<close>

definition plain_decimal :: "int \<Rightarrow> int \<Rightarrow> string" where
  "plain_decimal m e =
     (if 0 \<le> e then show_int (m * 10 ^ nat e)
      else let d = 10 ^ nat (- e); frac = show_int (m mod d)
           in show_int (m div d) @ ''.'' @ replicate (nat (- e) - length frac) CHR ''0'' @ frac)"

fun strip_zeros :: "nat \<Rightarrow> int \<times> int \<Rightarrow> int \<times> int" where
  "strip_zeros 0 me = me"
| "strip_zeros (Suc k) (m, e) = (if m \<noteq> 0 \<and> m mod 10 = 0 then strip_zeros k (m div 10, e + 1) else (m, e))"

definition with_sign :: "(rat \<Rightarrow> string) \<Rightarrow> f64 \<Rightarrow> string" where
  "with_sign f x =
     (case x of F_NaN \<Rightarrow> ''NaN'' | F_PInf \<Rightarrow> ''+Inf'' | F_NInf \<Rightarrow> ''-Inf''
      | F_Fin r \<Rightarrow> if r = 0 then ''0'' else if r < 0 then ''-'' @ f (- r) else f r)"

definition format_f :: "f64 \<Rightarrow> string" where
  "format_f = with_sign (\<lambda>r. let (m, e) = shortest r in plain_decimal m e)"

definition exponent_text :: "int \<Rightarrow> string" where
  "exponent_text x =
     (let a = \<bar>x\<bar> in (if x < 0 then ''-'' else ''+'') @ (if a < 10 then ''0'' else []) @ show_int a)"

text \<open>Six significant digits without trailing zeros; exponent form below 1e-4 and from 1e6 on.\<close>

definition format_g6_pos :: "rat \<Rightarrow> string" where
  "format_g6_pos r =
     (let k = lead_exp 10 r; m = round_half_even (scaled r (k - 6));
          (m', e') = strip_zeros 7 (m, k - 6);
          ds = show_int m'; x = e' + int (length ds) - 1
      in if x < - 4 \<or> 6 \<le> x
         then take 1 ds @ (if length ds = 1 then [] else ''.'' @ drop 1 ds) @ ''e'' @ exponent_text x
         else plain_decimal m' e')"

definition format_g6 :: "f64 \<Rightarrow> string" where
  "format_g6 = with_sign format_g6_pos"


text \<open>The verb \<open>%v\<close>: shortest digits, exponent form below 1e-4 and from 1e21 on.\<close>

definition format_v :: "f64 \<Rightarrow> string" where
  "format_v = with_sign (\<lambda>r.
     let (m, e) = shortest r; ds = show_int m; x = e + int (length ds) - 1
     in if x < - 4 \<or> 21 \<le> x
        then take 1 ds @ (if length ds = 1 then [] else ''.'' @ drop 1 ds) @ ''e'' @ exponent_text x
        else plain_decimal m e)"


section \<open>Order properties\<close>

lemma f64_lt_irrefl [simp]: "\<not> f64_lt x x"
  by (cases x) auto

lemma f64_lt_trans: "f64_lt x y \<Longrightarrow> f64_lt y z \<Longrightarrow> f64_lt x z"
  by (cases x; cases y; cases z) auto

lemma f64_lt_asym: "f64_lt x y \<Longrightarrow> \<not> f64_lt y x"
  by (cases x; cases y) auto

lemma f64_lt_linear: "x \<noteq> F_NaN \<Longrightarrow> y \<noteq> F_NaN \<Longrightarrow> f64_lt x y \<or> x = y \<or> f64_lt y x"
  by (cases x; cases y) auto

lemma f64_lt_NaN [simp]: "\<not> f64_lt F_NaN x" "\<not> f64_lt x F_NaN"
  by (cases x; simp)+

lemma f64_max_gt_iff:
  assumes "x \<noteq> F_NaN" "y \<noteq> F_NaN"
  shows "f64_lt t (f64_max x y) \<longleftrightarrow> f64_lt t x \<or> f64_lt t y"
  using assms f64_lt_linear [of x y]
  by (auto simp: f64_max_def dest: f64_lt_trans)

lemma f64_max_not_NaN [simp]: "f64_max x y = F_NaN \<longleftrightarrow> x = F_NaN \<or> y = F_NaN"
  by (auto simp: f64_max_def)

lemma f64_min_lt_iff:
  assumes "x \<noteq> F_NaN" "y \<noteq> F_NaN"
  shows "f64_lt (f64_min x y) t \<longleftrightarrow> f64_lt x t \<or> f64_lt y t"
  using assms f64_lt_linear [of x y]
  by (auto simp: f64_min_def dest: f64_lt_trans)

lemma f64_min_not_NaN [simp]: "f64_min x y = F_NaN \<longleftrightarrow> x = F_NaN \<or> y = F_NaN"
  by (auto simp: f64_min_def)

end
