(* ===== verification/Domain.thy ===== *)
theory Domain
  imports Prelude Go_Hash Go_Float
begin

text \<open>
  Package \<open>internal/domain\<close>: the plain types shared by every component, the error taxonomy with its
  retry decision, and the derivation of identifiers. Record fields carry the source's names behind
  a short prefix per type. The string types with named constants (\<open>HealthState\<close>, \<open>AlertStatus\<close>,
  \<open>AutomationStatus\<close>, \<open>Category\<close>) are datatypes; \<open>Severity\<close> keeps a constructor for unknown text,
  because configuration files can hold any. The texts of validation problems are kept without the
  arguments the source formats into them. A nil \<open>error\<close> is the option \<open>None\<close>.
\<close>


section \<open>Error taxonomy (errors.go)\<close>

datatype category =
    CategoryTransient | CategoryPermanent | CategoryValidation | CategoryAuthentication
  | CategoryUnsupported | CategoryTimeout | CategoryDependency | CategoryScript

definition category_text :: "category \<Rightarrow> string" where
  "category_text c = (case c of
     CategoryTransient \<Rightarrow> ''transient'' | CategoryPermanent \<Rightarrow> ''permanent''
   | CategoryValidation \<Rightarrow> ''validation'' | CategoryAuthentication \<Rightarrow> ''authentication''
   | CategoryUnsupported \<Rightarrow> ''unsupported'' | CategoryTimeout \<Rightarrow> ''timeout''
   | CategoryDependency \<Rightarrow> ''dependency'' | CategoryScript \<Rightarrow> ''script'')"

definition Retryable :: "category \<Rightarrow> bool" where
  "Retryable c = (case c of
     CategoryTransient \<Rightarrow> True | CategoryTimeout \<Rightarrow> True | CategoryDependency \<Rightarrow> True | _ \<Rightarrow> False)"

text \<open>
  Go errors as far as the sources inspect them: \<open>*domain.Error\<close>, another package's error type that
  reports a category through a method (\<open>*runtime.Error\<close>), the two context errors, an error made by
  \<open>fmt.Errorf\<close> that wraps another one, a package-level sentinel that callers compare with, and plain
  text.
\<close>

datatype goerr =
    EDomain category string goerr
  | ECategorized category string
  | EDeadlineExceeded
  | ECanceled
  | EWrap string goerr
  | ESentinel string
  | EPlain string

definition Wrap :: "category \<Rightarrow> string \<Rightarrow> goerr option \<Rightarrow> goerr option" where
  "Wrap cat op err = (case err of None \<Rightarrow> None | Some e \<Rightarrow> Some (EDomain cat op e))"

definition Errorf :: "category \<Rightarrow> string \<Rightarrow> goerr" where
  "Errorf cat msg = EDomain cat [] (EPlain msg)"

fun err_text :: "goerr \<Rightarrow> string" where
  "err_text (EDomain c op e) =
     (if op = [] then category_text c @ '': '' @ err_text e
      else category_text c @ '': '' @ op @ '': '' @ err_text e)"
| "err_text (ECategorized c msg) = msg"
| "err_text EDeadlineExceeded = ''context deadline exceeded''"
| "err_text ECanceled = ''context canceled''"
| "err_text (EWrap msg e) = msg @ err_text e"
| "err_text (ESentinel msg) = msg"
| "err_text (EPlain msg) = msg"

text \<open>\<open>errors.As\<close> and \<open>errors.Is\<close> walk the chain of wrapped errors from the outside in.\<close>

fun as_domain :: "goerr \<Rightarrow> category option" where
  "as_domain (EDomain c op e) = Some c"
| "as_domain (EWrap msg e) = as_domain e"
| "as_domain _ = None"

fun as_categorized :: "goerr \<Rightarrow> category option" where
  "as_categorized (ECategorized c msg) = Some c"
| "as_categorized (EDomain c op e) = as_categorized e"
| "as_categorized (EWrap msg e) = as_categorized e"
| "as_categorized _ = None"

fun err_is :: "goerr \<Rightarrow> goerr \<Rightarrow> bool" where
  "err_is (EWrap msg e) t = (EWrap msg e = t \<or> err_is e t)"
| "err_is (EDomain c op e) t = (EDomain c op e = t \<or> err_is e t)"
| "err_is e t = (e = t)"

definition CategoryOf :: "goerr \<Rightarrow> category" where
  "CategoryOf err =
     (case as_domain err of Some c \<Rightarrow> c
      | None \<Rightarrow> (case as_categorized err of Some c \<Rightarrow> c
        | None \<Rightarrow>
            if err_is err EDeadlineExceeded then CategoryTimeout
            else if err_is err ECanceled then CategoryTransient
            else CategoryPermanent))"

definition IsRetryable :: "goerr \<Rightarrow> bool" where
  "IsRetryable err = Retryable (CategoryOf err)"


section \<open>Identifiers (ids.go)\<close>

definition id_preimage :: "string list \<Rightarrow> string" where
  "id_preimage parts = concat (map (\<lambda>p. p @ [CHR 0x00]) parts)"

definition StableID :: "string list \<Rightarrow> string" where
  "StableID parts = hex_encode (take 16 (sha256 (id_preimage parts)))"

definition LabelsKey :: "strmap \<Rightarrow> string" where
  "LabelsKey labels =
     (if fmdom labels = {||} then []
      else join_sep '','' (map (\<lambda>k. k @ ''='' @ str_at labels k) (sorted_keys labels)))"


section \<open>Observations (observation.go)\<close>

text \<open>
  The dynamic types of an observation's value that the type switches of the sources name; anything
  else (a JSON array or object) is \<open>VOther\<close>.
\<close>

datatype goval =
    VNil | VBool bool | VString string | VFloat64 f64 | VFloat32 f64
  | VInt int | VInt32 int | VInt64 int | VUint32 int | VUint64 int | VOther string

record observation =
  o_ObservationID :: string
  o_CorrelationID :: string
  o_DeviceID :: string
  o_Source :: string
  o_Metric :: string
  o_Value :: goval
  o_Labels :: strmap
  o_ObservedAt :: gotime
  o_ReceivedAt :: gotime
  o_Metadata :: strmap

definition NewObservationID :: "string \<Rightarrow> string \<Rightarrow> string \<Rightarrow> strmap \<Rightarrow> string" where
  "NewObservationID cycleID deviceID metric labels =
     StableID [''obs'', cycleID, deviceID, metric, LabelsKey labels]"

definition Float :: "observation \<Rightarrow> f64 option" where
  "Float o' = (case o_Value o' of
     VFloat64 v \<Rightarrow> Some v
   | VInt v \<Rightarrow> Some (f64_of_int v)
   | VInt64 v \<Rightarrow> Some (f64_of_int v)
   | VBool v \<Rightarrow> Some (if v then F_Fin 1 else F_Fin 0)
   | _ \<Rightarrow> None)"

definition Bool_of :: "observation \<Rightarrow> bool option" where
  "Bool_of o' = (case o_Value o' of VBool b \<Rightarrow> Some b | _ \<Rightarrow> None)"

record sample =
  smp_At :: gotime
  smp_Num :: f64
  smp_Bool :: "bool option"


section \<open>Devices (device.go)\<close>

definition deviceTypes :: "string list" where
  "deviceTypes = [''switch'', ''access_point'', ''router'', ''server'', ''workstation'', ''printer'',
                  ''ups'', ''generic'']"

definition DeviceType_Valid :: "string \<Rightarrow> bool" where
  "DeviceType_Valid t = (t \<in> set deviceTypes)"

record collection_spec =
  c_Protocol :: string
  c_Profile :: string
  c_Interval :: duration

record device =
  d_ID :: string
  d_Hostname :: string
  d_ManagementAddress :: string
  d_DeviceType :: string
  d_Vendor :: string
  d_Model :: string
  d_SerialNumber :: string
  d_Site :: string
  d_Tags :: "string list"
  d_Capabilities :: "string list"
  d_CredentialsRef :: string
  d_Enabled :: bool
  d_LastSeen :: gotime
  d_Collection :: collection_spec
  d_Attributes :: strmap

definition HasTag :: "device \<Rightarrow> string \<Rightarrow> bool" where
  "HasTag d tag = (tag \<in> set (d_Tags d))"

definition HasCapability :: "device \<Rightarrow> string \<Rightarrow> bool" where
  "HasCapability d c = (c \<in> set (d_Capabilities d))"

text \<open>Whether a string holds any of the given characters (\<open>strings.ContainsAny\<close>).\<close>

definition contains_any :: "string \<Rightarrow> string \<Rightarrow> bool" where
  "contains_any s chars = list_ex (\<lambda>c. c \<in> set chars) s"

definition device_problems :: "device \<Rightarrow> string list" where
  "device_problems d =
     (if d_ID d = [] then [''id is required'']
      else if contains_any (d_ID d) ([CHR '' '', CHR 0x09, CHR 0x0A] @ ''/.*>'')
        then [''id must not contain whitespace, '/', '.', '*' or '>' (it is used in NATS subjects and URLs)''] else [])
     @ (if d_Hostname d = [] then [''hostname is required''] else [])
     @ (if d_ManagementAddress d = [] then [''management_address is required''] else [])
     @ (if \<not> DeviceType_Valid (d_DeviceType d) then 
          [''device_type '' @ quote_q (d_DeviceType d) @ '' is not one of ['' @ join_sep '' '' deviceTypes @ '']''] else [])
     @ (if c_Protocol (d_Collection d) \<noteq> [] \<and> c_Protocol (d_Collection d) \<noteq> ''snmp''
           \<and> c_Protocol (d_Collection d) \<noteq> ''script''
        then [''collection.protocol '' @ quote_q (c_Protocol (d_Collection d)) @ '' is not supported''] else [])
     @ (if c_Interval (d_Collection d) < 0 then [''collection.interval must not be negative''] else [])"

definition Device_Validate :: "device \<Rightarrow> goerr option" where
  "Device_Validate d =
     (if device_problems d \<noteq> []
      then Some (Errorf CategoryValidation
        (''device '' @ quote_q (d_ID d) @ '': '' @ join_sep ''; '' (device_problems d))) else None)"


section \<open>Health states and transitions (state.go)\<close>

datatype health = StateNone | StateUp | StateSuspect | StateDown | StateRecovering

record state_record =
  r_Key :: string
  r_DeviceID :: string
  r_DefinitionID :: string
  r_Labels :: strmap
  r_State :: health
  r_Failures :: int
  r_Successes :: int
  r_Breached :: bool
  r_BadSince :: gotime
  r_GoodSince :: gotime
  r_LastObservedAt :: gotime
  r_LastSeenAt :: gotime
  r_LastObservationID :: string
  r_LastTransitionAt :: gotime
  r_LastValue :: string

record transition =
  t_TransitionID :: string
  t_Key :: string
  t_DeviceID :: string
  t_DefinitionID :: string
  t_Labels :: strmap
  t_From :: health
  t_To :: health
  t_At :: gotime
  t_ObservationID :: string
  t_CorrelationID :: string


section \<open>Events and alerts (event.go)\<close>

datatype severity = SeverityInfo | SeverityWarning | SeverityCritical | SeverityOther string

definition Rank :: "severity \<Rightarrow> int" where
  "Rank s = (case s of SeverityInfo \<Rightarrow> 1 | SeverityWarning \<Rightarrow> 2 | SeverityCritical \<Rightarrow> 3 | SeverityOther _ \<Rightarrow> 0)"

definition Severity_Valid :: "severity \<Rightarrow> bool" where
  "Severity_Valid s = (Rank s > 0)"

text \<open>The conversions \<open>domain.Severity(s)\<close> and \<open>string(s)\<close>.\<close>

definition severity_of :: "string \<Rightarrow> severity" where
  "severity_of s = (if s = ''info'' then SeverityInfo else if s = ''warning'' then SeverityWarning
     else if s = ''critical'' then SeverityCritical else SeverityOther s)"

definition severity_text :: "severity \<Rightarrow> string" where
  "severity_text s = (case s of SeverityInfo \<Rightarrow> ''info'' | SeverityWarning \<Rightarrow> ''warning'' | SeverityCritical \<Rightarrow> ''critical''
     | SeverityOther t \<Rightarrow> t)"

record event =
  e_EventID :: string
  e_CorrelationID :: string
  e_DeviceID :: string
  e_Type :: string
  e_Severity :: severity
  e_Message :: string
  e_Labels :: strmap
  e_OccurredAt :: gotime
  e_ObservationID :: string
  e_Source :: string
  e_AlertKey :: string
  e_Resolves :: bool

datatype alert_status = AlertFiring | AlertResolved

record alert =
  a_AlertKey :: string
  a_DeviceID :: string
  a_Source :: string
  a_Severity :: severity
  a_Status :: alert_status
  a_Summary :: string
  a_Labels :: strmap
  a_OpenEventID :: string
  a_OpenedAt :: gotime
  a_ResolvedAt :: gotime


section \<open>Automation requests and results (automation.go)\<close>

datatype automation_status =
    AutomationPending | AutomationAwaitingApproval | AutomationApproved | AutomationExecuting
  | AutomationSucceeded | AutomationFailed | AutomationDryRun | AutomationDenied | AutomationExpired

definition automation_status_text :: "automation_status \<Rightarrow> string" where
  "automation_status_text s = (case s of
     AutomationPending \<Rightarrow> ''pending'' | AutomationAwaitingApproval \<Rightarrow> ''awaiting_approval'' | AutomationApproved \<Rightarrow> ''approved''
   | AutomationExecuting \<Rightarrow> ''executing'' | AutomationSucceeded \<Rightarrow> ''succeeded'' | AutomationFailed \<Rightarrow> ''failed''
   | AutomationDryRun \<Rightarrow> ''dry_run'' | AutomationDenied \<Rightarrow> ''denied'' | AutomationExpired \<Rightarrow> ''expired'')"

definition Terminal :: "automation_status \<Rightarrow> bool" where
  "Terminal s = (case s of
     AutomationSucceeded \<Rightarrow> True | AutomationFailed \<Rightarrow> True | AutomationDryRun \<Rightarrow> True
   | AutomationDenied \<Rightarrow> True | AutomationExpired \<Rightarrow> True | _ \<Rightarrow> False)"

record automation_request =
  q_RequestID :: string
  q_CorrelationID :: string
  q_PolicyID :: string
  q_EventID :: string
  q_AlertKey :: string
  q_DeviceID :: string
  q_Action :: string
  q_Target :: string
  q_Params :: strmap
  q_Reason :: string
  q_Proposer :: string
  q_DryRun :: bool
  q_Status :: automation_status
  q_NotBefore :: gotime
  q_CreatedAt :: gotime
  q_ApprovedBy :: string

record automation_result =
  u_RequestID :: string
  u_CorrelationID :: string
  u_Status :: automation_status
  u_DryRun :: bool
  u_Message :: string
  u_Details :: strmap
  u_StartedAt :: gotime
  u_FinishedAt :: gotime


section \<open>Properties of errors\<close>

lemma Retryable_iff:
  "Retryable c \<longleftrightarrow> c \<in> {CategoryTransient, CategoryTimeout, CategoryDependency}"
  by (cases c) (auto simp: Retryable_def)

lemma CategoryOf_EDomain [simp]: "CategoryOf (EDomain c op e) = c"
  by (simp add: CategoryOf_def)

lemma CategoryOf_Errorf [simp]: "CategoryOf (Errorf c msg) = c"
  by (simp add: Errorf_def)

lemma CategoryOf_EPlain [simp]: "CategoryOf (EPlain m) = CategoryPermanent"
  by (simp add: CategoryOf_def)

lemma IsRetryable_Errorf [simp]: "IsRetryable (Errorf c msg) = Retryable c"
  by (simp add: IsRetryable_def)

lemma CategoryOf_EWrap [simp]: "CategoryOf (EWrap m e) = CategoryOf e"
  by (simp add: CategoryOf_def split: option.splits)


section \<open>Properties of identifiers\<close>

text \<open>Joining pieces that do not hold the separator loses nothing.\<close>

definition sep_free :: "char \<Rightarrow> string list \<Rightarrow> bool" where
  "sep_free c xs = list_all (\<lambda>x. c \<notin> set x) xs"

lemma sep_free_simps [simp]:
  "sep_free c []"
  "sep_free c (x # xs) \<longleftrightarrow> c \<notin> set x \<and> sep_free c xs"
  by (simp_all add: sep_free_def)

lemma append_sep_eq:
  assumes "c \<notin> set x" "c \<notin> set y" "x @ c # xs = y @ c # ys"
  shows "x = y \<and> xs = ys"
  using assms
proof (induction x arbitrary: y)
  case Nil
  then show ?case by (cases y) auto
next
  case (Cons a x)
  then show ?case by (cases y) auto
qed

lemma id_preimage_simps [simp]:
  "id_preimage [] = []"
  "id_preimage (p # ps) = p @ CHR 0x00 # id_preimage ps"
  by (simp_all add: id_preimage_def)

lemma id_preimage_inj:
  assumes "sep_free (CHR 0x00) ps" "sep_free (CHR 0x00) qs" "id_preimage ps = id_preimage qs"
  shows "ps = qs"
  using assms
proof (induction ps arbitrary: qs)
  case Nil
  then show ?case by (cases qs) auto
next
  case (Cons p ps)
  then obtain q qs' where q: "qs = q # qs'" by (cases qs) auto
  with Cons.prems have eq: "p = q \<and> id_preimage ps = id_preimage qs'"
    by (intro append_sep_eq) auto
  moreover have "ps = qs'"
    by (rule Cons.IH) (use Cons.prems q eq in simp_all)
  ultimately show ?case using q by simp
qed

lemma length_StableID [simp]: "length (StableID parts) = 32"
  by (simp add: StableID_def)

lemma StableID_nonempty [simp]: "StableID parts \<noteq> []"
  by (metis length_StableID list.size(3) zero_neq_numeral)

lemma join_sep_Cons: "join_sep sep (x # xs) = x @ (if xs = [] then [] else sep @ join_sep sep xs)"
  by (cases xs) auto

lemma join_sep_inj:
  assumes "sep_free c xs" "sep_free c ys" "xs \<noteq> []" "ys \<noteq> []" "join_sep [c] xs = join_sep [c] ys"
  shows "xs = ys"
  using assms
proof (induction xs arbitrary: ys)
  case (Cons x xs)
  then obtain y ys' where ys: "ys = y # ys'" by (cases ys) auto
  show ?case
  proof (cases "xs = [] \<or> ys' = []")
    case True
    with Cons.prems ys show ?thesis
      by (auto simp: join_sep_Cons split: if_splits)
  next
    case False
    with Cons.prems ys have eq: "x = y \<and> join_sep [c] xs = join_sep [c] ys'"
      by (intro append_sep_eq [of c]) (auto simp: join_sep_Cons)
    moreover have "xs = ys'"
      by (rule Cons.IH) (use Cons.prems ys False eq in simp_all)
    ultimately show ?thesis using ys by simp
  qed
qed simp

text \<open>Labels whose keys hold neither a comma nor an equals sign, and whose values hold no comma.\<close>

definition plain_labels :: "strmap \<Rightarrow> bool" where
  "plain_labels m =
     list_all (\<lambda>(k, v). CHR '','' \<notin> set k \<and> CHR ''='' \<notin> set k \<and> CHR '','' \<notin> set v) (fm_items m)"

definition label_pairs :: "strmap \<Rightarrow> string list" where
  "label_pairs m = map (\<lambda>(k, v). k @ ''='' @ v) (fm_items m)"

lemma LabelsKey_pairs: "LabelsKey m = join_sep '','' (label_pairs m)"
proof -
  have "map (\<lambda>k. k @ ''='' @ str_at m k) (sorted_keys m) = label_pairs m"
    by (auto simp: label_pairs_def fm_items_def str_at_def fmlookup_dom_iff)
  moreover have "fmdom m = {||} \<Longrightarrow> label_pairs m = []"
    by (simp add: label_pairs_def fm_items_def sorted_keys_def sorted_list_of_fset.rep_eq)
  ultimately show ?thesis by (simp add: LabelsKey_def)
qed

lemma label_pairs_Nil_iff: "label_pairs m = [] \<longleftrightarrow> m = fmempty"
proof
  assume "label_pairs m = []"
  then have "fm_items m = fm_items fmempty"
    by (simp add: label_pairs_def fm_items_def)
  then show "m = fmempty" by (rule fm_items_inj)
qed (simp add: label_pairs_def fm_items_def)

lemma LabelsKey_empty_iff: "LabelsKey m = [] \<longleftrightarrow> m = fmempty"
proof -
  have "join_sep '','' (label_pairs m) = [] \<longleftrightarrow> label_pairs m = []"
    by (cases "label_pairs m") (auto simp: join_sep_Cons label_pairs_def fm_items_def)
  then show ?thesis by (simp add: LabelsKey_pairs label_pairs_Nil_iff)
qed

lemma pairs_inj:
  assumes "list_all (\<lambda>(k, v). CHR ''='' \<notin> set k) xs" "list_all (\<lambda>(k, v). CHR ''='' \<notin> set k) ys"
    and "map (\<lambda>(k, v). k @ ''='' @ v) xs = map (\<lambda>(k, v). k @ ''='' @ v) ys"
  shows "xs = ys"
  using assms
proof (induction xs arbitrary: ys)
  case (Cons x xs)
  then obtain y ys' where ys: "ys = y # ys'" by (cases ys) auto
  obtain k v k' v' where kv: "x = (k, v)" "y = (k', v')" by (cases x; cases y) auto
  with Cons.prems ys have "k = k' \<and> v = v'"
    by (intro append_sep_eq [of "CHR ''=''"]) auto
  moreover have "xs = ys'"
    by (rule Cons.IH) (use Cons.prems ys in simp_all)
  ultimately show ?case using kv ys by simp
qed simp

lemma plain_labels_inj:
  assumes "plain_labels m" "plain_labels n" "LabelsKey m = LabelsKey n"
  shows "m = n"
proof (cases "m = fmempty \<or> n = fmempty")
  case True
  with assms(3) LabelsKey_empty_iff show ?thesis by metis
next
  case False
  have sf: "sep_free (CHR '','') (label_pairs m')" if "plain_labels m'" for m'
    using that by (auto simp: plain_labels_def label_pairs_def sep_free_def list_all_iff)
  have eqf: "list_all (\<lambda>(k, v). CHR ''='' \<notin> set k) (fm_items m')" if "plain_labels m'" for m'
    using that by (auto simp: plain_labels_def list_all_iff)
  have ne: "label_pairs m \<noteq> []" "label_pairs n \<noteq> []"
    using False by (simp_all add: label_pairs_Nil_iff)
  have "label_pairs m = label_pairs n"
    using join_sep_inj [OF sf [OF assms(1)] sf [OF assms(2)] ne] assms(3)
    by (simp add: LabelsKey_pairs)
  then have "fm_items m = fm_items n"
    by (intro pairs_inj eqf assms(1,2)) (simp add: label_pairs_def)
  then show ?thesis by (rule fm_items_inj)
qed

end
