(* ===== verification/Persistence.thy ===== *)
theory Persistence
  imports Domain
begin

text \<open>
  The storage contract of \<open>internal/persistence\<close> (persistence.go): the unit of work and the
  operations available inside it. Code that runs in a unit of work is a program over the
  transaction's state that finishes, fails with an error or panics; the Go interface \<open>Tx\<close> is the
  record \<open>txops\<close> of its operations, so that the pipeline is written against the interface and its
  lemmas hold for every implementation. The locale \<open>tx_invariant\<close> is the part of the contract an
  implementation discharges once per invariant.
\<close>


section \<open>Programs in a unit of work\<close>

datatype 'a outcome = Done 'a | Fails goerr | Panics

type_synonym ('s, 'a) prog = "'s \<Rightarrow> 'a outcome \<times> 's"

definition return_tx :: "'a \<Rightarrow> ('s, 'a) prog" where
  "return_tx a s = (Done a, s)"

definition fail_tx :: "goerr \<Rightarrow> ('s, 'a) prog" where
  "fail_tx e s = (Fails e, s)"

definition panic_tx :: "('s, 'a) prog" where
  "panic_tx s = (Panics, s)"

definition bind_tx :: "('s, 'a) prog \<Rightarrow> ('a \<Rightarrow> ('s, 'b) prog) \<Rightarrow> ('s, 'b) prog" where
  "bind_tx m f s = (case m s of
     (Done a, s') \<Rightarrow> f a s' | (Fails e, s') \<Rightarrow> (Fails e, s') | (Panics, s') \<Rightarrow> (Panics, s'))"

text \<open>A loop over a slice that threads an accumulator and stops at the first failure.\<close>

fun each_tx :: "('x \<Rightarrow> 'acc \<Rightarrow> ('s, 'acc) prog) \<Rightarrow> 'x list \<Rightarrow> 'acc \<Rightarrow> ('s, 'acc) prog" where
  "each_tx body [] acc = return_tx acc"
| "each_tx body (x # xs) acc = bind_tx (body x acc) (each_tx body xs)"

text \<open>A call that returns a value or an error, made from inside the unit of work.\<close>

definition lift_tx :: "goerr + 'a \<Rightarrow> ('s, 'a) prog" where
  "lift_tx r = (case r of Inl e \<Rightarrow> fail_tx e | Inr a \<Rightarrow> return_tx a)"


section \<open>Outbox messages and the transaction interface\<close>

text \<open>
  A payload is the value the code serialises: the bytes of the outbox row are its JSON encoding,
  which the consumers decode again.
\<close>

datatype payload = PEvent event | PRequest automation_request | PResult automation_result

record outbox_message =
  om_ID :: int
  om_Subject :: string
  om_MsgID :: string
  om_Payload :: payload
  om_Headers :: strmap

record 's txops =
  tx_InsertObservation :: "observation \<Rightarrow> ('s, bool) prog"
  tx_TouchDevice :: "string \<Rightarrow> gotime \<Rightarrow> ('s, unit) prog"
  tx_Samples :: "string \<Rightarrow> string \<Rightarrow> string \<Rightarrow> gotime \<Rightarrow> gotime \<Rightarrow> ('s, sample list) prog"
  tx_GetState :: "string \<Rightarrow> ('s, state_record option) prog"
  tx_PutState :: "state_record \<Rightarrow> ('s, unit) prog"
  tx_InsertTransition :: "transition \<Rightarrow> ('s, unit) prog"
  tx_InsertEvent :: "event \<Rightarrow> ('s, bool) prog"
  tx_OpenAlert :: "event \<Rightarrow> ('s, bool) prog"
  tx_ResolveAlert :: "event \<Rightarrow> ('s, bool) prog"
  tx_Enqueue :: "outbox_message \<Rightarrow> ('s, unit) prog"


section \<open>Invariants of programs\<close>

named_theorems keeps_intros \<open>invariant preservation, one rule per program construct\<close>

definition keeps :: "('s \<Rightarrow> bool) \<Rightarrow> ('s, 'a) prog \<Rightarrow> bool" where
  "keeps I m \<longleftrightarrow> (\<forall>s. I s \<longrightarrow> I (snd (m s)))"

lemma keepsD: "keeps I m \<Longrightarrow> I s \<Longrightarrow> m s = (r, s') \<Longrightarrow> I s'"
  by (auto simp: keeps_def dest!: spec [of _ s])

lemma keeps_return [keeps_intros]: "keeps I (return_tx a)"
  by (simp add: keeps_def return_tx_def)

lemma keeps_fail [keeps_intros]: "keeps I (fail_tx e)"
  by (simp add: keeps_def fail_tx_def)

lemma keeps_panic [keeps_intros]: "keeps I panic_tx"
  by (simp add: keeps_def panic_tx_def)

lemma keeps_lift [keeps_intros]: "keeps I (lift_tx r)"
  by (auto simp: lift_tx_def intro: keeps_intros split: sum.splits)

lemma keeps_bind [keeps_intros]: "keeps I m \<Longrightarrow> (\<And>a. keeps I (f a)) \<Longrightarrow> keeps I (bind_tx m f)"
  by (auto simp: keeps_def bind_tx_def split: prod.splits outcome.splits; metis snd_conv)

lemma keeps_each [keeps_intros]: "(\<And>x acc. keeps I (body x acc)) \<Longrightarrow> keeps I (each_tx body xs acc)"
  by (induction xs arbitrary: acc) (auto intro!: keeps_intros)

lemma keeps_if [keeps_intros]: "keeps I m \<Longrightarrow> keeps I n \<Longrightarrow> keeps I (if b then m else n)"
  by simp

lemma keeps_option [keeps_intros]:
  "keeps I n \<Longrightarrow> (\<And>x. keeps I (f x)) \<Longrightarrow> keeps I (case z of None \<Rightarrow> n | Some x \<Rightarrow> f x)"
  by (simp split: option.splits)

text \<open>
  An invariant that every operation of a transaction keeps. A client proves once, here, that its
  programs keep it.
\<close>

locale tx_invariant =
  fixes tx :: "'s txops" and I :: "'s \<Rightarrow> bool"
  assumes InsertObservation_keeps [keeps_intros]: "keeps I (tx_InsertObservation tx ob)"
    and TouchDevice_keeps [keeps_intros]: "keeps I (tx_TouchDevice tx i tm)"
    and Samples_keeps [keeps_intros]: "keeps I (tx_Samples tx i m l from to)"
    and GetState_keeps [keeps_intros]: "keeps I (tx_GetState tx k)"
    and PutState_keeps [keeps_intros]: "keeps I (tx_PutState tx r)"
    and InsertTransition_keeps [keeps_intros]: "keeps I (tx_InsertTransition tx tr)"
    and InsertEvent_keeps [keeps_intros]: "keeps I (tx_InsertEvent tx e)"
    and OpenAlert_keeps [keeps_intros]: "keeps I (tx_OpenAlert tx e)"
    and ResolveAlert_keeps [keeps_intros]: "keeps I (tx_ResolveAlert tx e)"
    and Enqueue_keeps [keeps_intros]: "keeps I (tx_Enqueue tx m')"


section \<open>Inserts that deduplicate\<close>

text \<open>
  The contract the idempotent inserts share: an insert reports whether the id was new, adds exactly
  that id, and is a no-op for an id that is already stored.
\<close>

fun insert_all :: "('v \<Rightarrow> 's \<Rightarrow> bool \<times> 's) \<Rightarrow> 'v list \<Rightarrow> 's \<Rightarrow> bool list \<times> 's" where
  "insert_all ins [] s = ([], s)"
| "insert_all ins (v # vs) s =
     (let (b, s1) = ins v s; (bs, s2) = insert_all ins vs s1 in (b # bs, s2))"

locale dedup_insert =
  fixes ins :: "'v \<Rightarrow> 's \<Rightarrow> bool \<times> 's" and ident :: "'v \<Rightarrow> string" and stored :: "'s \<Rightarrow> string set"
  assumes reports: "fst (ins v s) \<longleftrightarrow> ident v \<notin> stored s"
    and adds: "stored (snd (ins v s)) = insert (ident v) (stored s)"
    and absorbs: "ident v \<in> stored s \<Longrightarrow> snd (ins v s) = s"
begin

lemma stored_all: "stored (snd (insert_all ins vs s)) = stored s \<union> ident ` set vs"
proof (induction vs arbitrary: s)
  case (Cons v vs)
  have "snd (insert_all ins (v # vs) s) = snd (insert_all ins vs (snd (ins v s)))"
    by (simp split: prod.splits)
  with Cons.IH [of "snd (ins v s)"] show ?case by (simp add: adds)
qed simp

text \<open>Replaying values that are all stored reports nothing new and leaves the store as it is.\<close>

lemma replay: "ident ` set vs \<subseteq> stored s \<Longrightarrow> insert_all ins vs s = (replicate (length vs) False, s)"
proof (induction vs)
  case (Cons v vs)
  then have "ins v s = (False, s)"
    using reports [of v s] absorbs [of v s] by (cases "ins v s") auto
  with Cons show ?case by simp
qed simp

lemma redelivery: "insert_all ins vs (snd (insert_all ins vs s)) = (replicate (length vs) False, snd (insert_all ins vs s))"
  by (rule replay) (auto simp: stored_all)

end

end
