(* ===== verification/Go_Time.thy ===== *)
theory Go_Time
  imports Prelude
begin

text \<open>
  The text of instants on the wire: \<open>time.RFC3339Nano\<close>, as \<open>Time.MarshalJSON\<close> writes and
  \<open>Time.UnmarshalJSON\<close> strictly reads it. The parser accepts every zone offset; the writer is only
  used on UTC instants. What is written reads back as the same instant.
\<close>

section \<open>The calendar and its inverse\<close>

definition days_before_year :: "int \<Rightarrow> int" where
  "days_before_year y = 365 * (y - 1) + (y - 1) div 4 - (y - 1) div 100 + (y - 1) div 400"

definition day_of_date :: "int \<Rightarrow> int \<Rightarrow> int \<Rightarrow> int" where
  "day_of_date y m d = days_before_year y + sum_list (take (nat (m - 1)) (month_lengths y)) + d - 1"

lemma month_day_spec:
  assumes "month_day m ls n = (m', d)" "0 \<le> n" "n < sum_list ls" "list_all (\<lambda>l. 0 < l) ls"
  shows "m \<le> m' \<and> m' < m + int (length ls) \<and> 1 \<le> d \<and> d \<le> ls ! nat (m' - m) \<and> n = sum_list (take (nat (m' - m)) ls) + d - 1"
  using assms
proof (induction m ls n rule: month_day.induct)
  case (2 m l ls n)
  show ?case
  proof (cases "n < l")
    case False
    with "2.prems" have "m + 1 \<le> m' \<and> m' < m + 1 + int (length ls) \<and> 1 \<le> d \<and> d \<le> ls ! nat (m' - (m + 1))
        \<and> n - l = sum_list (take (nat (m' - (m + 1))) ls) + d - 1"
      by (intro "2.IH") auto
    moreover from this have "nat (m' - m) = Suc (nat (m' - (m + 1)))" by linarith
    ultimately show ?thesis by auto
  qed (use "2.prems" in auto)
qed simp

lemma year_length: "sum_list (month_lengths y) = (if leap_year y then 366 else 365)"
  by (simp add: month_lengths_def)

lemma month_lengths_pos: "list_all (\<lambda>l. 0 < l) (month_lengths y)" "length (month_lengths y) = 12"
  by (simp_all add: month_lengths_def)

text \<open>The cycles determine the year, and the day left over lies in it.\<close>

lemma cycles:
  fixes a b c e :: int
  assumes "0 \<le> b" "b \<le> 3" "0 \<le> c" "c \<le> 24" "0 \<le> e" "e \<le> 3"
  shows "days_before_year (400 * a + 100 * b + 4 * c + e + 1) = 146097 * a + 36524 * b + 1461 * c + 365 * e"
    and "leap_year (400 * a + 100 * b + 4 * c + e + 1) \<longleftrightarrow> e = 3 \<and> (c \<noteq> 24 \<or> b = 3)"
proof -
  have quot: "(k * q + r) div k = q" "(k * q + r) mod k = r" if "0 \<le> r" "r < k" for k q r :: int
    using that by simp_all
  have "(400 * a + 100 * b + 4 * c + e) div 4 = 100 * a + 25 * b + c"
    using quot(1) [of e 4 "100 * a + 25 * b + c"] assms by (simp add: algebra_simps)
  moreover have "(400 * a + 100 * b + 4 * c + e) div 100 = 4 * a + b"
    using quot(1) [of "4 * c + e" 100 "4 * a + b"] assms by (simp add: algebra_simps)
  moreover have "(400 * a + 100 * b + 4 * c + e) div 400 = a"
    using quot(1) [of "100 * b + 4 * c + e" 400 a] assms by (simp add: algebra_simps)
  ultimately show "days_before_year (400 * a + 100 * b + 4 * c + e + 1) = 146097 * a + 36524 * b + 1461 * c + 365 * e"
    by (simp add: days_before_year_def)
  let ?y = "400 * a + 100 * b + 4 * c + e + 1"
  show "leap_year ?y \<longleftrightarrow> e = 3 \<and> (c \<noteq> 24 \<or> b = 3)"
  proof (cases "e = 3")
    case False
    with quot(2) [of "e + 1" 4 "100 * a + 25 * b + c"] assms have "?y mod 4 = e + 1" by (simp add: algebra_simps)
    with False assms show ?thesis by (simp add: leap_year_def)
  next
    case e: True
    have four: "?y mod 4 = 0" using quot(2) [of 0 4 "100 * a + 25 * b + c + 1"] e by (simp add: algebra_simps)
    show ?thesis
    proof (cases "c = 24")
      case False
      with quot(2) [of "4 * c + 4" 100 "4 * a + b"] assms e have "?y mod 100 = 4 * c + 4" by (simp add: algebra_simps)
      with four False assms e show ?thesis by (simp add: leap_year_def)
    next
      case c: True
      have "?y mod 100 = 0" using quot(2) [of 0 100 "4 * a + b + 1"] e c by (simp add: algebra_simps)
      moreover have "?y mod 400 = (if b = 3 then 0 else 100 * b + 100)"
        using quot(2) [of 0 400 "a + 1"] quot(2) [of "100 * b + 100" 400 a] assms e c by (auto simp: algebra_simps)
      ultimately show ?thesis using four assms e c by (simp add: leap_year_def)
    qed
  qed
qed

lemma clamped_quotient:
  fixes x k m q r :: int
  assumes "0 \<le> x" "x \<le> k * (m + 1)" "0 < k" "0 \<le> m" and qr: "q = min m (x div k)" "r = x - k * q"
  shows "0 \<le> q \<and> q \<le> m \<and> 0 \<le> r \<and> r \<le> k \<and> (r = k \<longrightarrow> q = m)"
proof (cases "m \<le> x div k")
  case True
  have "k * (x div k) \<le> x" using assms(3) minus_mult_div_eq_mod [of x k] pos_mod_sign [of k x] by linarith
  moreover have "k * m \<le> k * (x div k)" using True assms(3) by simp
  ultimately have "k * m \<le> x" by linarith
  with True assms show ?thesis by (simp add: min_def algebra_simps)
next
  case False
  then have "r = x mod k" "q = x div k" by (simp_all add: qr min_def minus_mult_div_eq_mod)
  moreover have "0 \<le> x mod k" "x mod k < k" "0 \<le> x div k" using assms(1,3) by (simp_all add: pos_imp_zdiv_nonneg_iff)
  ultimately show ?thesis using False by linarith
qed

theorem civil_date_inverse:
  assumes "civil_date n = (y, m, d)"
  shows "day_of_date y m d = n \<and> 1 \<le> m \<and> m \<le> 12 \<and> 1 \<le> d \<and> d \<le> month_lengths y ! nat (m - 1)"
proof -
  define a where "a = n div 146097"
  define b where "b = min 3 (n mod 146097 div 36524)"
  define k where "k = n mod 146097 - 36524 * b"
  define c where "c = k div 1461"
  define e where "e = min 3 (k mod 1461 div 365)"
  define r where "r = k mod 1461 - 365 * e"
  have n: "n = 146097 * a + 36524 * b + 1461 * c + 365 * e + r"
    by (simp add: a_def k_def c_def r_def)
  have d: "0 \<le> n mod 146097" "n mod 146097 \<le> 146096" by simp_all
  have b: "0 \<le> b \<and> b \<le> 3 \<and> 0 \<le> k \<and> k \<le> 36524 \<and> (k = 36524 \<longrightarrow> b = 3)"
    by (rule clamped_quotient [OF d(1) _ _ _ b_def k_def]) (use d(2) in simp_all)
  have c: "0 \<le> c" "0 \<le> k mod 1461" "k mod 1461 \<le> 1460" "k = 1461 * c + k mod 1461"
    using b by (simp_all add: c_def pos_imp_zdiv_nonneg_iff)
  have c24: "c \<le> 24" using b c by linarith
  have e: "0 \<le> e \<and> e \<le> 3 \<and> 0 \<le> r \<and> r \<le> 365 \<and> (r = 365 \<longrightarrow> e = 3)"
    by (rule clamped_quotient [OF c(2) _ _ _ e_def r_def]) (use c(3) in simp_all)
  have "k mod 1461 = r + 365 * e" by (simp add: r_def)
  with e b c(4) have last: "r = 365 \<longrightarrow> e = 3 \<and> (c \<noteq> 24 \<or> b = 3)" by auto
  note cyc = cycles [of b c e a]
  have y: "y = 400 * a + 100 * b + 4 * c + e + 1" "month_day 1 (month_lengths y) r = (m, d)"
    using assms by (auto simp: civil_date_def Let_def a_def b_def k_def c_def e_def r_def)
  have "r < sum_list (month_lengths y)" using e last b c(1) c24 cyc(2) by (auto simp: year_length y(1))
  from month_day_spec [OF y(2) _ this month_lengths_pos(1)] show ?thesis
    using e b c(1) c24 cyc(1) y(1) n by (auto simp: day_of_date_def month_lengths_pos)
qed


section \<open>Decimal numbers\<close>

definition decimal :: "string \<Rightarrow> int" where
  "decimal s = foldl (\<lambda>n c. 10 * n + digit_value c) 0 s"

lemma decimal_simps [simp]: "decimal [] = 0" "decimal (s @ [c]) = 10 * decimal s + digit_value c"
  by (simp_all add: decimal_def)

lemma digit_chars:
  "digit_char 0 = CHR ''0''" "digit_char 1 = CHR ''1''" "digit_char 2 = CHR ''2''" "digit_char 3 = CHR ''3''"
  "digit_char 4 = CHR ''4''" "digit_char 5 = CHR ''5''" "digit_char 6 = CHR ''6''" "digit_char 7 = CHR ''7''"
  "digit_char 8 = CHR ''8''" "digit_char 9 = CHR ''9''"
  by code_simp+

lemma digit_char_digit:
  assumes "0 \<le> d" "d \<le> 9"
  shows "digit_value (digit_char d) = d" "is_digit (digit_char d)"
proof -
  have "d \<in> {0, 1, 2, 3, 4, 5, 6, 7, 8, 9}" using assms by (simp only: insert_iff empty_iff) presburger
  then show "digit_value (digit_char d) = d" "is_digit (digit_char d)"
    by (auto simp: digit_value_def digit_chars is_digit_def in_range_def)
qed

lemma show_pos_decimal:
  assumes "0 \<le> n"
  shows "decimal (show_pos n) = n \<and> list_all is_digit (show_pos n)"
  using assms
proof (induction n rule: show_pos.induct)
  case (1 n)
  show ?case
  proof (cases "n < 10")
    case True
    with 1 show ?thesis by (simp add: show_pos.simps [of n] digit_char_digit decimal_def)
  next
    case False
    with 1 have "decimal (show_pos (n div 10)) = n div 10 \<and> list_all is_digit (show_pos (n div 10))" by simp
    with False show ?thesis by (simp add: show_pos.simps [of n] digit_char_digit)
  qed
qed

lemma show_pos_length: "0 \<le> n \<Longrightarrow> n < 10 ^ Suc w \<Longrightarrow> length (show_pos n) \<le> Suc w"
proof (induction w arbitrary: n)
  case (Suc w)
  show ?case
  proof (cases "n < 10")
    case False
    with Suc.prems have "length (show_pos (n div 10)) \<le> Suc w" by (intro Suc.IH) auto
    with False show ?thesis by (simp add: show_pos.simps [of n])
  qed (simp add: show_pos.simps [of n])
qed (simp add: show_pos.simps)

lemma decimal_zeros: "decimal (replicate k CHR ''0'' @ s) = decimal s"
proof -
  have "foldl (\<lambda>n c. 10 * n + digit_value c) 0 (replicate k CHR ''0'') = 0"
    by (induction k) (simp_all add: digit_value_def)
  then show ?thesis by (simp add: decimal_def)
qed

lemma pad_int_decimal:
  assumes "0 \<le> n" "n < 10 ^ w" "0 < w"
  shows "decimal (pad_int w n) = n" "list_all is_digit (pad_int w n)" "length (pad_int w n) = w"
proof -
  have zero: "is_digit CHR ''0''" by (simp add: is_digit_def in_range_def)
  show "decimal (pad_int w n) = n" "list_all is_digit (pad_int w n)"
    using show_pos_decimal [OF assms(1)] assms(1) zero by (auto simp: pad_int_def show_int_def decimal_zeros list_all_iff)
  show "length (pad_int w n) = w"
    using show_pos_length [OF assms(1), of "w - 1"] assms by (simp add: pad_int_def show_int_def)
qed

definition parse_uint :: "string \<Rightarrow> int \<Rightarrow> int \<Rightarrow> int option" where
  "parse_uint s lo hi = (if list_all is_digit s \<and> lo \<le> decimal s \<and> decimal s \<le> hi then Some (decimal s) else None)"

lemma parse_uint_pad:
  "0 \<le> n \<Longrightarrow> n < 10 ^ w \<Longrightarrow> 0 < w \<Longrightarrow> lo \<le> n \<Longrightarrow> n \<le> hi \<Longrightarrow> parse_uint (pad_int w n) lo hi = Some n"
  by (simp add: parse_uint_def pad_int_decimal)


section \<open>RFC 3339\<close>

text \<open>The fraction of a second: a point and digits, read to nanoseconds and then truncated.\<close>

definition parse_fraction :: "string \<Rightarrow> int \<times> string" where
  "parse_fraction s =
     (case s of
        p # c # cs \<Rightarrow>
          if p = CHR ''.'' \<and> is_digit c
          then (let ds = takeWhile is_digit (c # cs); nine = take 9 ds
                in (decimal nine * 10 ^ (9 - length nine), drop (length ds) (c # cs)))
          else (0, s)
      | _ \<Rightarrow> (0, s))"

text \<open>Seconds east of UTC of a zone.\<close>

definition parse_zone :: "string \<Rightarrow> int option" where
  "parse_zone z =
     (if z = ''Z'' then Some 0
      else case z of
        [s, h1, h2, c, m1, m2] \<Rightarrow>
          (case (parse_uint [h1, h2] 0 23, parse_uint [m1, m2] 0 59) of
             (Some h, Some m) \<Rightarrow>
               if (s = CHR ''-'' \<or> s = CHR ''+'') \<and> c = CHR '':''
               then Some ((if s = CHR ''-'' then - 1 else 1) * (h * 3600 + m * 60)) else None
           | _ \<Rightarrow> None)
      | _ \<Rightarrow> None)"

definition clock_of :: "string \<Rightarrow> (int \<times> int \<times> int) option" where
  "clock_of s =
     (case (parse_uint (take 2 s) 0 23, parse_uint (take 2 (drop 3 s)) 0 59, parse_uint (take 2 (drop 6 s)) 0 59) of
        (Some h, Some m, Some sec) \<Rightarrow> if s ! 2 = CHR '':'' \<and> s ! 5 = CHR '':'' then Some (h, m, sec) else None
      | _ \<Rightarrow> None)"

definition date_of :: "string \<Rightarrow> (int \<times> int \<times> int) option" where
  "date_of s =
     (case (parse_uint (take 4 s) 0 9999, parse_uint (take 2 (drop 5 s)) 1 12) of
        (Some y, Some m) \<Rightarrow>
          (case parse_uint (take 2 (drop 8 s)) 1 (month_lengths y ! nat (m - 1)) of
             Some d \<Rightarrow> if s ! 4 = CHR ''-'' \<and> s ! 7 = CHR ''-'' then Some (y, m, d) else None
           | None \<Rightarrow> None)
      | _ \<Rightarrow> None)"

definition parse_rfc3339 :: "string \<Rightarrow> gotime option" where
  "parse_rfc3339 s =
     (if length s < 19 \<or> s ! 10 \<noteq> CHR ''T'' then None
      else case (date_of (take 10 s), clock_of (take 8 (drop 11 s)), parse_fraction (drop 19 s)) of
        (Some (y, m, d), Some (h, mi, sec), (ns, zone)) \<Rightarrow>
          (case parse_zone zone of
             Some off \<Rightarrow> Some ((day_of_date y m d * 86400 + h * 3600 + mi * 60 + sec - off) * second + ns)
           | None \<Rightarrow> None)
      | _ \<Rightarrow> None)"

definition date_text :: "int \<times> int \<times> int \<Rightarrow> string" where
  "date_text = (\<lambda>(y, m, d). pad_int 4 y @ ''-'' @ pad_int 2 m @ ''-'' @ pad_int 2 d)"

definition clock_text :: "int \<Rightarrow> string" where
  "clock_text s = pad_int 2 (s div 3600) @ '':'' @ pad_int 2 (s mod 3600 div 60) @ '':'' @ pad_int 2 (s mod 60)"

definition rfc3339nano :: "gotime \<Rightarrow> string" where
  "rfc3339nano t =
     date_text (civil_date (day_number t)) @ ''T'' @ clock_text (t mod (24 * hour) div second)
       @ frac_text (t mod second) 9 @ ''Z''"

lemma date_of_text:
  assumes "civil_date n = (y, m, d)" "0 \<le> y" "y \<le> 9999"
  shows "date_of (date_text (y, m, d)) = Some (y, m, d)" "length (date_text (y, m, d)) = 10"
proof -
  note inv = civil_date_inverse [OF assms(1)]
  have len: "month_lengths y ! nat (m - 1) \<le> 31"
  proof -
    have "list_all (\<lambda>l. l \<le> 31) (month_lengths y)" by (simp add: month_lengths_def)
    moreover have "nat (m - 1) < length (month_lengths y)" using inv by (simp add: month_lengths_pos nat_less_iff)
    ultimately show ?thesis by (auto simp: list_all_length)
  qed
  have p: "parse_uint (pad_int 4 y) 0 9999 = Some y" "length (pad_int 4 y) = 4" "parse_uint (pad_int 2 m) 1 12 = Some m" "length (pad_int 2 m) = 2"
    "parse_uint (pad_int 2 d) 1 (month_lengths y ! nat (m - 1)) = Some d" "length (pad_int 2 d) = 2"
    using assms inv len by (auto intro!: parse_uint_pad simp: pad_int_decimal)
  then show "date_of (date_text (y, m, d)) = Some (y, m, d)" "length (date_text (y, m, d)) = 10"
    by (simp_all add: date_of_def date_text_def nth_append)
qed

lemma clock_of_fields:
  assumes "0 \<le> h" "h \<le> 23" "0 \<le> m" "m \<le> 59" "0 \<le> sec" "sec \<le> 59"
  shows "clock_of (pad_int 2 h @ '':'' @ pad_int 2 m @ '':'' @ pad_int 2 sec) = Some (h, m, sec)"
    and "length (pad_int 2 h @ '':'' @ pad_int 2 m @ '':'' @ pad_int 2 sec) = 8"
proof -
  have "parse_uint (pad_int 2 h) 0 23 = Some h" "length (pad_int 2 h) = 2" "parse_uint (pad_int 2 m) 0 59 = Some m"
    "length (pad_int 2 m) = 2" "parse_uint (pad_int 2 sec) 0 59 = Some sec" "length (pad_int 2 sec) = 2"
    using assms by (auto intro!: parse_uint_pad simp: pad_int_decimal)
  then show "clock_of (pad_int 2 h @ '':'' @ pad_int 2 m @ '':'' @ pad_int 2 sec) = Some (h, m, sec)"
      "length (pad_int 2 h @ '':'' @ pad_int 2 m @ '':'' @ pad_int 2 sec) = 8"
    by (simp_all add: clock_of_def nth_append)
qed

lemma clock_of_text:
  assumes "0 \<le> s" "s < 86400"
  shows "clock_of (clock_text s) = Some (s div 3600, s mod 3600 div 60, s mod 60)" "length (clock_text s) = 8"
proof -
  have b: "0 \<le> s div 3600" "s div 3600 \<le> 23" "0 \<le> s mod 3600 div 60" "s mod 3600 div 60 \<le> 59" "0 \<le> s mod 60" "s mod 60 \<le> 59"
    using assms zdiv_mono1 [of s 86399 3600] zdiv_mono1 [of "s mod 3600" 3599 60] pos_mod_bound [of 60 s]
    by (simp_all add: pos_imp_zdiv_nonneg_iff)
  show "clock_of (clock_text s) = Some (s div 3600, s mod 3600 div 60, s mod 60)" "length (clock_text s) = 8"
    unfolding clock_text_def by (rule clock_of_fields [OF b])+
qed

text \<open>The fraction loses its trailing zeros, which the reader restores.\<close>

lemma strip_zeros:
  "\<exists>k. s = rev (dropWhile (\<lambda>c. c = CHR ''0'') (rev s)) @ replicate k CHR ''0''"
proof -
  have "\<exists>k. r = replicate k CHR ''0'' @ dropWhile (\<lambda>c. c = CHR ''0'') r" for r :: string
  proof (induction r)
    case (Cons c r)
    then obtain k where "r = replicate k CHR ''0'' @ dropWhile (\<lambda>c. c = CHR ''0'') r" by blast
    then show ?case by (cases "c = CHR ''0''") (auto intro: exI [of _ "Suc k"] exI [of _ 0])
  qed simp
  then obtain k where "rev s = replicate k CHR ''0'' @ dropWhile (\<lambda>c. c = CHR ''0'') (rev s)" by blast
  then have "s = rev (dropWhile (\<lambda>c. c = CHR ''0'') (rev s)) @ replicate k CHR ''0''"
    by (metis rev_append rev_replicate rev_rev_ident)
  then show ?thesis ..
qed

lemma decimal_append_zeros: "decimal (s @ replicate k CHR ''0'') = decimal s * 10 ^ k"
proof (induction k)
  case (Suc k)
  have "decimal (s @ replicate (Suc k) CHR ''0'') = decimal ((s @ replicate k CHR ''0'') @ [CHR ''0''])"
    by (simp add: replicate_append_same)
  with Suc show ?case by (simp only: decimal_simps) (simp add: digit_value_def)
qed simp

lemma parse_fraction_text:
  assumes "0 \<le> n" "n < 10 ^ 9" "\<not> is_digit z" "z \<noteq> CHR ''.''"
  shows "parse_fraction (frac_text n 9 @ z # rest) = (n, z # rest)"
proof (cases "n = 0")
  case True
  with assms show ?thesis by (cases rest) (simp_all add: frac_text_def parse_fraction_def)
next
  case False
  define ds where "ds = rev (dropWhile (\<lambda>c. c = CHR ''0'') (rev (pad_int 9 n)))"
  obtain k where k: "pad_int 9 n = ds @ replicate k CHR ''0''" using strip_zeros [of "pad_int 9 n"] by (auto simp: ds_def)
  note pad = pad_int_decimal [OF assms(1,2)]
  have len: "length ds + k = 9" using arg_cong [OF k, of length] pad(3) by simp
  have val: "n = decimal ds * 10 ^ k" using arg_cong [OF k, of decimal] pad(1) by (simp add: decimal_append_zeros)
  have dig: "list_all is_digit ds" using pad(2) by (simp add: k)
  have ne: "ds \<noteq> []" using val False by auto
  then obtain c cs where c: "ds = c # cs" by (cases ds) auto
  have tw: "takeWhile is_digit (ds @ z # rest) = ds"
    using dig assms(3) by (simp add: takeWhile_append list_all_iff)
  have "frac_text n 9 = CHR ''.'' # ds"
    using False assms(1,2) by (simp add: frac_text_def ds_def)
  with tw dig len val show ?thesis
    by (simp add: parse_fraction_def c Let_def) (metis (no_types, opaque_lifting) add_diff_cancel_left' length_Cons plus_nat.simps(2))
qed

lemma clock_split:
  fixes s :: int
  shows "s div 3600 * 3600 + s mod 3600 div 60 * 60 + s mod 60 = s"
proof -
  have "s mod 3600 mod 60 = s mod 60" by (rule mod_mod_cancel) simp
  then have "s mod 3600 div 60 * 60 + s mod 60 = s mod 3600" by (metis div_mult_mod_eq)
  then show ?thesis by (metis add.assoc div_mult_mod_eq)
qed

lemma day_split:
  fixes t S k :: int
  assumes "0 < S" "0 < k"
  shows "0 \<le> t mod (k * S) div S" "t mod (k * S) div S < k"
    and "t = (t div (k * S) * k + t mod (k * S) div S) * S + t mod S"
proof -
  have pos: "0 < k * S" using assms by simp
  have bound: "0 \<le> t mod (k * S)" "t mod (k * S) < k * S" using pos by simp_all
  show "0 \<le> t mod (k * S) div S" using bound(1) assms(1) by (simp add: pos_imp_zdiv_nonneg_iff)
  have "t mod (k * S) div S * S \<le> t mod (k * S)"
    using div_mult_mod_eq [of "t mod (k * S)" S] pos_mod_sign [OF assms(1), of "t mod (k * S)"] by linarith
  with bound(2) have "t mod (k * S) div S * S < k * S" by linarith
  then show "t mod (k * S) div S < k" using assms(1) by simp
  have "t mod (k * S) mod S = t mod S" by (rule mod_mod_cancel) simp
  with div_mult_mod_eq [of "t mod (k * S)" S] have "t mod (k * S) div S * S + t mod S = t mod (k * S)" by simp
  then have "t = t div (k * S) * (k * S) + (t mod (k * S) div S * S + t mod S)" by (simp add: div_mult_mod_eq)
  then show "t = (t div (k * S) * k + t mod (k * S) div S) * S + t mod S" by (simp add: algebra_simps)
qed

theorem rfc3339nano_roundtrip:
  assumes "0 \<le> fst (civil_date (day_number t))" "fst (civil_date (day_number t)) \<le> 9999"
  shows "parse_rfc3339 (rfc3339nano t) = Some t"
proof -
  obtain y m d where ymd: "civil_date (day_number t) = (y, m, d)" by (metis surj_pair)
  define s where "s = t mod (24 * hour) div second"
  have day: "24 * hour = 86400 * second" by (simp add: second_def hour_def minute_def)
  have s: "0 \<le> s" "s < 86400" and t: "t = (day_number t * 86400 + s) * second + t mod second"
    unfolding s_def day_number_def day by (rule day_split; simp add: second_def)+
  have yb: "0 \<le> y" "y \<le> 9999" using assms by (simp_all add: ymd)
  note date = date_of_text [OF ymd yb] and clock = clock_of_text [OF s]
  have frac: "parse_fraction (frac_text (t mod second) 9 @ ''Z'') = (t mod second, ''Z'')"
    by (rule parse_fraction_text) (simp_all add: second_def is_digit_def in_range_def)
  let ?text = "date_text (y, m, d) @ ''T'' @ clock_text s @ frac_text (t mod second) 9 @ ''Z''"
  have "parse_rfc3339 ?text =
      Some ((day_of_date y m d * 86400 + s div 3600 * 3600 + s mod 3600 div 60 * 60 + s mod 60) * second + t mod second)"
    using date clock frac by (simp add: parse_rfc3339_def parse_zone_def nth_append)
  also have "\<dots> = Some ((day_number t * 86400 + s) * second + t mod second)"
    using civil_date_inverse [OF ymd] clock_split [of s] by (simp add: add.assoc)
  also have "\<dots> = Some t" by (rule arg_cong [OF t [symmetric]])
  finally show ?thesis by (simp add: rfc3339nano_def ymd s_def)
qed

end
