(* ===== verification/Go_Json.thy ===== *)
theory Go_Json
  imports Go_Time "HOL-Library.Word"
begin

text \<open>
  \<open>encoding/json\<close> and \<open>encoding/base64\<close> as the sources use them: the text \<open>json.Marshal\<close> writes, the
  parser behind \<open>json.Unmarshal\<close> and \<open>json.Decoder\<close>, both on bytes with Go's treatment of UTF-8, and
  the assignment of members to struct fields. What is written parses back to the same value.
\<close>

section \<open>UTF-8\<close>

definition byte :: "char \<Rightarrow> int" where
  "byte c = of_char c"

text \<open>The ranges of the bytes that follow a leading byte, none for one that starts no rune.\<close>

definition tail_ranges :: "int \<Rightarrow> (int \<times> int) list option" where
  "tail_ranges x =
     (let any = (0x80, 0xBF) in
      if x < 0x80 then Some []
      else if 0xC2 \<le> x \<and> x \<le> 0xDF then Some [any]
      else if x = 0xE0 then Some [(0xA0, 0xBF), any]
      else if x = 0xED then Some [(0x80, 0x9F), any]
      else if 0xE1 \<le> x \<and> x \<le> 0xEF then Some [any, any]
      else if x = 0xF0 then Some [(0x90, 0xBF), any, any]
      else if 0xF1 \<le> x \<and> x \<le> 0xF3 then Some [any, any, any]
      else if x = 0xF4 then Some [(0x80, 0x8F), any, any]
      else None)"

fun tail_ok :: "(int \<times> int) list \<Rightarrow> string \<Rightarrow> bool" where
  "tail_ok [] s = True"
| "tail_ok ((lo, hi) # rs) [] = False"
| "tail_ok ((lo, hi) # rs) (c # cs) = (lo \<le> byte c \<and> byte c \<le> hi \<and> tail_ok rs cs)"

text \<open>\<open>utf8.DecodeRune\<close>: the number of bytes of the rune at the start, \<open>0\<close> if they encode none.\<close>

fun rune_size :: "string \<Rightarrow> nat" where
  "rune_size [] = 0"
| "rune_size (c # s) =
     (case tail_ranges (byte c) of None \<Rightarrow> 0 | Some rs \<Rightarrow> if tail_ok rs s then Suc (length rs) else 0)"

function valid_utf8 :: "string \<Rightarrow> bool" where
  "valid_utf8 s = (if s = [] then True else if rune_size s = 0 then False else valid_utf8 (drop (rune_size s) s))"
  by pat_completeness auto
termination
  by (relation "measure length") auto

declare valid_utf8.simps [simp del]

text \<open>\<open>utf8.AppendRune\<close>.\<close>

definition cont_byte :: "int \<Rightarrow> char" where
  "cont_byte n = char_of (0x80 + n mod 64)"

definition rune_error :: string where
  "rune_error = [CHR 0xEF, CHR 0xBF, CHR 0xBD]"

definition encode_rune :: "int \<Rightarrow> string" where
  "encode_rune r =
     (if r < 0x80 then [char_of r]
      else if r < 0x800 then [char_of (0xC0 + r div 64), cont_byte r]
      else if r > 0x10FFFF \<or> (0xD800 \<le> r \<and> r \<le> 0xDFFF) then rune_error
      else if r < 0x10000 then [char_of (0xE0 + r div 4096), cont_byte (r div 64), cont_byte r]
      else [char_of (0xF0 + r div 262144), cont_byte (r div 4096), cont_byte (r div 64), cont_byte r])"


section \<open>Strings\<close>

definition hex_digit_char :: "int \<Rightarrow> char" where
  "hex_digit_char d = (if d < 10 then char_of (48 + d) else char_of (87 + d))"

text \<open>How a byte below 0x80 is written, with the HTML characters escaped.\<close>

definition escape_ascii :: "char \<Rightarrow> string" where
  "escape_ascii c =
     (let n = byte c in
      if c = CHR 0x22 \<or> c = CHR 0x5C then [CHR 0x5C, c]
      else if n = 8 then [CHR 0x5C, CHR ''b''] else if n = 12 then [CHR 0x5C, CHR ''f'']
      else if n = 10 then [CHR 0x5C, CHR ''n''] else if n = 13 then [CHR 0x5C, CHR ''r''] else if n = 9 then [CHR 0x5C, CHR ''t'']
      else if n < 32 \<or> c = CHR ''<'' \<or> c = CHR ''>'' \<or> c = CHR ''&''
      then [CHR 0x5C, CHR ''u'', CHR ''0'', CHR ''0'', hex_digit_char (n div 16), hex_digit_char (n mod 16)]
      else [c])"

definition line_separator :: string where
  "line_separator = [CHR 0xE2, CHR 0x80, CHR 0xA8]"

definition paragraph_separator :: string where
  "paragraph_separator = [CHR 0xE2, CHR 0x80, CHR 0xA9]"

definition escape_rune :: "string \<Rightarrow> string" where
  "escape_rune r =
     (if r = line_separator then CHR 0x5C # ''u2028'' else if r = paragraph_separator then CHR 0x5C # ''u2029'' else r)"

function quote_body :: "string \<Rightarrow> string" where
  "quote_body s =
     (if s = [] then []
      else if byte (hd s) < 0x80 then escape_ascii (hd s) @ quote_body (tl s)
      else if rune_size s = 0 then CHR 0x5C # ''ufffd'' @ quote_body (tl s)
      else escape_rune (take (rune_size s) s) @ quote_body (drop (rune_size s) s))"
  by pat_completeness auto
termination
  by (relation "measure length") auto

declare quote_body.simps [simp del]

definition quote_json :: "string \<Rightarrow> string" where
  "quote_json s = CHR 0x22 # quote_body s @ [CHR 0x22]"

text \<open>Reading a string: escapes, surrogate pairs, and replacement of bytes that are no UTF-8.\<close>

definition hex_value :: "char \<Rightarrow> int option" where
  "hex_value c =
     (let n = byte c in
      if 48 \<le> n \<and> n \<le> 57 then Some (n - 48) else if 97 \<le> n \<and> n \<le> 102 then Some (n - 87)
      else if 65 \<le> n \<and> n \<le> 70 then Some (n - 55) else None)"

definition hex4 :: "string \<Rightarrow> int option" where
  "hex4 s =
     (case s of
        a # b # c # d # _ \<Rightarrow>
          (case (hex_value a, hex_value b, hex_value c, hex_value d) of
             (Some x, Some y, Some z, Some w) \<Rightarrow> Some (((x * 16 + y) * 16 + z) * 16 + w)
           | _ \<Rightarrow> None)
      | _ \<Rightarrow> None)"

definition simple_escape :: "char \<Rightarrow> char option" where
  "simple_escape c =
     (if c = CHR 0x22 \<or> c = CHR 0x5C \<or> c = CHR ''/'' then Some c
      else if c = CHR ''b'' then Some (CHR 0x08) else if c = CHR ''f'' then Some (CHR 0x0C)
      else if c = CHR ''n'' then Some (CHR 0x0A) else if c = CHR ''r'' then Some (CHR 0x0D)
      else if c = CHR ''t'' then Some (CHR 0x09) else None)"

text \<open>The second half of a surrogate pair, if it follows.\<close>

definition low_surrogate :: "string \<Rightarrow> int option" where
  "low_surrogate s =
     (case s of
        b # u # s' \<Rightarrow>
          if b = CHR 0x5C \<and> u = CHR ''u''
          then (case hex4 s' of Some r \<Rightarrow> if 0xDC00 \<le> r \<and> r \<le> 0xDFFF then Some r else None | None \<Rightarrow> None)
          else None
      | _ \<Rightarrow> None)"

definition with_prefix :: "string \<Rightarrow> (string \<times> 'a) option \<Rightarrow> (string \<times> 'a) option" where
  "with_prefix p r = map_option (\<lambda>(s, rest). (p @ s, rest)) r"

function unquote :: "string \<Rightarrow> (string \<times> string) option" where
  "unquote s =
     (if s = [] then None
      else if hd s = CHR 0x22 then Some ([], tl s)
      else if hd s = CHR 0x5C then
        (if length s < 2 then None
         else let rest = drop 2 s; rest4 = drop 4 rest; rest10 = drop 10 rest in
           case simple_escape (s ! 1) of
             Some c \<Rightarrow> with_prefix [c] (unquote rest)
           | None \<Rightarrow>
               if s ! 1 \<noteq> CHR ''u'' then None
               else (case hex4 rest of
                       None \<Rightarrow> None
                     | Some r \<Rightarrow>
                         if r < 0xD800 \<or> 0xDFFF < r then with_prefix (encode_rune r) (unquote rest4)
                         else (case low_surrogate rest4 of
                                 None \<Rightarrow> with_prefix rune_error (unquote rest4)
                               | Some r2 \<Rightarrow>
                                   if r \<le> 0xDBFF
                                   then with_prefix (encode_rune ((r - 0xD800) * 1024 + (r2 - 0xDC00) + 0x10000)) (unquote rest10)
                                   else with_prefix rune_error (unquote rest4))))
      else if byte (hd s) < 32 then None
      else if rune_size s = 0 then with_prefix rune_error (unquote (tl s))
      else with_prefix (take (rune_size s) s) (unquote (drop (rune_size s) s)))"
  by pat_completeness auto
termination
  by (relation "measure length") auto

declare unquote.simps [simp del]

text \<open>What is written reads back.\<close>

lemma tail_ok_append: "tail_ok rs s \<Longrightarrow> tail_ok rs (s @ t)"
  by (induction rs s rule: tail_ok.induct) auto

lemma tail_ok_take: "tail_ok rs s \<Longrightarrow> tail_ok rs (take (length rs) s)" "tail_ok rs s \<Longrightarrow> length rs \<le> length s"
  by (induction rs s rule: tail_ok.induct) auto

lemma rune_size_le: "rune_size s \<le> length s"
  by (cases s) (auto simp: tail_ok_take split: option.splits)

lemma rune_size_take: "rune_size s \<noteq> 0 \<Longrightarrow> rune_size (take (rune_size s) s @ t) = rune_size s"
  by (cases s) (auto simp: tail_ok_take tail_ok_append split: option.splits)

lemma rune_size_ascii: "byte c < 0x80 \<Longrightarrow> rune_size (c # s) = 1"
  by (simp add: tail_ranges_def)

lemma with_prefix_simps [simp]: "with_prefix p (Some (s, rest)) = Some (p @ s, rest)" "with_prefix p None = None"
  by (simp_all add: with_prefix_def)

lemma byte_eqI: "byte c = n \<Longrightarrow> c = char_of n"
  by (auto simp: byte_def)

lemma byte_bounds: "0 \<le> byte c" "byte c < 256"
proof -
  have "byte c = byte c mod 256" by (simp add: byte_def of_char_mod_256)
  then show "0 \<le> byte c" "byte c < 256" using pos_mod_sign [of 256 "byte c"] pos_mod_bound [of 256 "byte c"] by simp_all
qed

lemma hex_value_digit:
  assumes "0 \<le> d" "d < 16"
  shows "hex_value (hex_digit_char d) = Some d"
proof -
  have "list_all (\<lambda>d. hex_value (hex_digit_char d) = Some d) [0..15]" by code_simp
  with assms show ?thesis by (simp add: list_all_iff)
qed

lemma simple_escapes:
  "escape_ascii CHR 0x22 = [CHR 0x5C, CHR 0x22]" "simple_escape CHR 0x22 = Some CHR 0x22"
  "escape_ascii CHR 0x5C = [CHR 0x5C, CHR 0x5C]" "simple_escape CHR 0x5C = Some CHR 0x5C"
  "escape_ascii CHR 0x08 = [CHR 0x5C, CHR ''b'']" "simple_escape CHR ''b'' = Some CHR 0x08"
  "escape_ascii CHR 0x09 = [CHR 0x5C, CHR ''t'']" "simple_escape CHR ''t'' = Some CHR 0x09"
  "escape_ascii CHR 0x0A = [CHR 0x5C, CHR ''n'']" "simple_escape CHR ''n'' = Some CHR 0x0A"
  "escape_ascii CHR 0x0C = [CHR 0x5C, CHR ''f'']" "simple_escape CHR ''f'' = Some CHR 0x0C"
  "escape_ascii CHR 0x0D = [CHR 0x5C, CHR ''r'']" "simple_escape CHR ''r'' = Some CHR 0x0D"
  by code_simp+

lemma unquote_simple: "simple_escape e = Some c \<Longrightarrow> unquote (CHR 0x5C # e # rest) = with_prefix [c] (unquote rest)"
  by (subst unquote.simps) simp

lemma unquote_hex:
  assumes "hex4 rest = Some r" "r < 0xD800"
  shows "unquote (CHR 0x5C # CHR ''u'' # rest) = with_prefix (encode_rune r) (unquote (drop 4 rest))"
proof -
  have "simple_escape CHR ''u'' = None" by (simp add: simple_escape_def)
  with assms show ?thesis by (subst unquote.simps) simp
qed

lemma unquote_literal:
  assumes "32 \<le> byte c" "byte c < 0x80" "c \<noteq> CHR 0x22" "c \<noteq> CHR 0x5C"
  shows "unquote (c # rest) = with_prefix [c] (unquote rest)"
  using assms by (subst unquote.simps) (simp del: rune_size.simps add: rune_size_ascii)

lemma unquote_ascii:
  assumes "byte c < 0x80"
  shows "unquote (escape_ascii c @ rest) = with_prefix [c] (unquote rest)"
proof -
  let ?n = "byte c"
  have chars: "char_of (8::int) = CHR 0x08" "char_of (9::int) = CHR 0x09" "char_of (10::int) = CHR 0x0A"
    "char_of (12::int) = CHR 0x0C" "char_of (13::int) = CHR 0x0D" by code_simp+
  have simple: "unquote ([CHR 0x5C, e] @ rest) = with_prefix [c] (unquote rest)" if "simple_escape e = Some c" for e
    using unquote_simple [OF that] by simp
  show ?thesis
  proof (cases "(c = CHR 0x22 \<or> c = CHR 0x5C) \<or> ?n \<in> {8, 9, 10, 12, 13}")
    case True
    then have "c = CHR 0x22 \<or> c = CHR 0x5C \<or> c = char_of (8::int) \<or> c = char_of (9::int) \<or> c = char_of (10::int)
        \<or> c = char_of (12::int) \<or> c = char_of (13::int)"
      using byte_eqI [of c 8] byte_eqI [of c 9] byte_eqI [of c 10] byte_eqI [of c 12] byte_eqI [of c 13] by blast
    then have "c = CHR 0x22 \<or> c = CHR 0x5C \<or> c = CHR 0x08 \<or> c = CHR 0x09 \<or> c = CHR 0x0A \<or> c = CHR 0x0C \<or> c = CHR 0x0D"
      unfolding chars .
    then have "\<exists>e. escape_ascii c = [CHR 0x5C, e] \<and> simple_escape e = Some c"
      by (elim disjE) (simp_all add: simple_escapes)
    then show ?thesis using simple by auto
  next
    case plain: False
    show ?thesis
    proof (cases "?n < 32 \<or> c = CHR ''<'' \<or> c = CHR ''>'' \<or> c = CHR ''&''")
      case True
      with plain have e: "escape_ascii c = [CHR 0x5C, CHR ''u'', CHR ''0'', CHR ''0'', hex_digit_char (?n div 16), hex_digit_char (?n mod 16)]"
        by (simp add: escape_ascii_def Let_def)
      have "hex_value CHR ''0'' = Some 0" by code_simp
      moreover have "0 \<le> ?n div 16" "?n div 16 < 16" using assms byte_bounds(1) [of c] by (simp_all add: pos_imp_zdiv_nonneg_iff)
      ultimately have "hex4 (CHR ''0'' # CHR ''0'' # hex_digit_char (?n div 16) # hex_digit_char (?n mod 16) # rest) = Some ?n"
        by (simp add: hex4_def hex_value_digit)
      from unquote_hex [OF this] assms show ?thesis by (simp add: e encode_rune_def byte_def)
    next
      case False
      with plain have "escape_ascii c = [c]" by (simp add: escape_ascii_def Let_def)
      with plain False assms show ?thesis by (simp add: unquote_literal)
    qed
  qed
qed

lemma unquote_rune:
  assumes "s \<noteq> []" "0x80 \<le> byte (hd s)" "rune_size s \<noteq> 0"
  shows "unquote (escape_rune (take (rune_size s) s) @ rest) = with_prefix (take (rune_size s) s) (unquote rest)"
proof -
  define r where "r = take (rune_size s) s"
  have r: "r \<noteq> []" "hd r = hd s" "length r = rune_size s"
    using assms rune_size_le [of s] by (auto simp: r_def hd_take)
  have size: "rune_size (r @ rest) = length r" using rune_size_take [OF assms(3), of rest] unfolding r_def [symmetric] r(3) .
  have hd: "hd (r @ rest) = hd s" using r by simp
  show ?thesis
  proof (cases "r = line_separator \<or> r = paragraph_separator")
    case True
    have "encode_rune 0x2028 = line_separator" "encode_rune 0x2029 = paragraph_separator" by code_simp+
    moreover have "hex_value CHR ''0'' = Some 0" "hex_value CHR ''2'' = Some 2" "hex_value CHR ''8'' = Some 8" "hex_value CHR ''9'' = Some 9"
      by code_simp+
    then have "hex4 (''2028'' @ rest) = Some 0x2028" "hex4 (''2029'' @ rest) = Some 0x2029"
      by (simp_all add: hex4_def)
    moreover have "line_separator \<noteq> paragraph_separator" by code_simp
    ultimately show ?thesis using True unquote_hex [where rest = "''2028'' @ rest"] unquote_hex [where rest = "''2029'' @ rest"]
      unfolding r_def [symmetric] by (auto simp: escape_rune_def)
  next
    case False
    have ne: "hd s \<noteq> CHR 0x22" "hd s \<noteq> CHR 0x5C" "\<not> byte (hd s) < 32" using assms(2) by (auto simp: byte_def)
    from False show ?thesis unfolding r_def [symmetric]
      using r hd ne size assms(3) by (subst unquote.simps) (simp add: escape_rune_def)
  qed
qed

lemma unquote_quote_body:
  "valid_utf8 s \<Longrightarrow> unquote (quote_body s @ CHR 0x22 # rest) = Some (s, rest)"
proof (induction s rule: valid_utf8.induct)
  case (1 s)
  show ?case
  proof (cases "s = []")
    case True
    then show ?thesis by (simp add: quote_body.simps unquote.simps)
  next
    case False
    with "1.prems" have n: "rune_size s \<noteq> 0" "valid_utf8 (drop (rune_size s) s)"
      by (simp_all add: valid_utf8.simps [of s] split: if_splits)
    with 1 False have IH: "unquote (quote_body (drop (rune_size s) s) @ CHR 0x22 # rest) = Some (drop (rune_size s) s, rest)"
      by blast
    show ?thesis
    proof (cases "byte (hd s) < 0x80")
      case True
      with False have one: "rune_size s = 1" by (cases s) (simp_all del: rune_size.simps add: rune_size_ascii)
      with IH False True show ?thesis
        by (simp add: quote_body.simps [of s] unquote_ascii drop_Suc hd_Cons_tl [symmetric])
    next
      case big: False
      with unquote_rune [OF False _ n(1)] IH n False show ?thesis
        by (simp add: quote_body.simps [of s])
    qed
  qed
qed

lemma unquote_quote_json: "valid_utf8 s \<Longrightarrow> \<exists>t. quote_json s @ rest = CHR 0x22 # t \<and> unquote t = Some (s, rest)"
  by (simp add: quote_json_def unquote_quote_body)


section \<open>Values\<close>

datatype json = JNull | JBool bool | JNum string | JStr string | JArr "json list" | JObj "(string \<times> json) list"

fun show_json :: "json \<Rightarrow> string" where
  "show_json JNull = ''null''"
| "show_json (JBool b) = show_bool b"
| "show_json (JNum t) = t"
| "show_json (JStr s) = quote_json s"
| "show_json (JArr vs) = ''['' @ join_sep '','' (map show_json vs) @ '']''"
| "show_json (JObj ms) = ''{'' @ join_sep '','' (map (\<lambda>(k, v). quote_json k @ '':'' @ show_json v) ms) @ ''}''"

definition is_json_space :: "char \<Rightarrow> bool" where
  "is_json_space c \<longleftrightarrow> c = CHR '' '' \<or> c = CHR 0x09 \<or> c = CHR 0x0A \<or> c = CHR 0x0D"

definition skip_space :: "string \<Rightarrow> string" where
  "skip_space = dropWhile is_json_space"

lemma skip_space_shorter: "skip_space s \<noteq> [] \<Longrightarrow> \<exists>n. length (skip_space s) = Suc n \<and> Suc n \<le> length s"
  using length_dropWhile_le [of is_json_space s] by (cases "skip_space s") (auto simp: skip_space_def)

text \<open>A number literal: its text and what follows.\<close>

definition scan_digits :: "string \<Rightarrow> (string \<times> string) option" where
  "scan_digits s =
     (let ds = takeWhile is_digit s in if ds = [] then None else Some (ds, drop (length ds) s))"

definition scan_int :: "string \<Rightarrow> (string \<times> string) option" where
  "scan_int s = (if s \<noteq> [] \<and> hd s = CHR ''0'' then Some (''0'', tl s) else scan_digits s)"

definition scan_frac :: "string \<Rightarrow> (string \<times> string) option" where
  "scan_frac s = (if s \<noteq> [] \<and> hd s = CHR ''.'' then with_prefix ''.'' (scan_digits (tl s)) else Some ([], s))"

definition scan_exp :: "string \<Rightarrow> (string \<times> string) option" where
  "scan_exp s =
     (if s \<noteq> [] \<and> (hd s = CHR ''e'' \<or> hd s = CHR ''E'')
      then (let r = tl s in
            if r \<noteq> [] \<and> (hd r = CHR ''+'' \<or> hd r = CHR ''-'') then with_prefix [hd s, hd r] (scan_digits (tl r))
            else with_prefix [hd s] (scan_digits r))
      else Some ([], s))"

definition scan_number :: "string \<Rightarrow> (string \<times> string) option" where
  "scan_number s =
     (let (sign, r) = (if s \<noteq> [] \<and> hd s = CHR ''-'' then (''-'', tl s) else ([], s)) in
      case scan_int r of
        None \<Rightarrow> None
      | Some (i, r1) \<Rightarrow>
          (case scan_frac r1 of
             None \<Rightarrow> None
           | Some (f, r2) \<Rightarrow> with_prefix (sign @ i @ f) (scan_exp r2)))"

definition max_nesting :: nat where
  "max_nesting = 10000"

text \<open>
  The parser. \<open>d\<close> is the nesting depth. Every call consumes text, which the guards on the length of
  what is left make plain to the termination proof; \<open>parse_consumes\<close> shows that they never fail.
\<close>

function parse_value :: "nat \<Rightarrow> string \<Rightarrow> (json \<times> string) option"
  and parse_elems :: "nat \<Rightarrow> string \<Rightarrow> (json list \<times> string) option"
  and parse_members :: "nat \<Rightarrow> string \<Rightarrow> ((string \<times> json) list \<times> string) option" where
  "parse_value d s0 =
     (let s = skip_space s0 in
      if s = [] then None
      else if hd s = CHR ''{'' then
        (if max_nesting \<le> d then None
         else let r = skip_space (tl s) in
              if r \<noteq> [] \<and> hd r = CHR ''}'' then Some (JObj [], tl r)
              else map_option (\<lambda>(ms, t). (JObj ms, t)) (parse_members (Suc d) (tl s)))
      else if hd s = CHR ''['' then
        (if max_nesting \<le> d then None
         else let r = skip_space (tl s) in
              if r \<noteq> [] \<and> hd r = CHR '']'' then Some (JArr [], tl r)
              else map_option (\<lambda>(vs, t). (JArr vs, t)) (parse_elems (Suc d) (tl s)))
      else if hd s = CHR 0x22 then map_option (\<lambda>(v, t). (JStr v, t)) (unquote (tl s))
      else if take 4 s = ''true'' then Some (JBool True, drop 4 s)
      else if take 5 s = ''false'' then Some (JBool False, drop 5 s)
      else if take 4 s = ''null'' then Some (JNull, drop 4 s)
      else map_option (\<lambda>(v, t). (JNum v, t)) (scan_number s))"
| "parse_elems d s =
     (case parse_value d s of
        None \<Rightarrow> None
      | Some (v, t0) \<Rightarrow>
          (let t = skip_space t0 in
           if t = [] \<or> \<not> length t \<le> length s then None
           else if hd t = CHR '']'' then Some ([v], tl t)
           else if hd t = CHR '','' then map_option (\<lambda>(vs, u). (v # vs, u)) (parse_elems d (tl t))
           else None))"
| "parse_members d s0 =
     (let s = skip_space s0 in
      if s = [] \<or> hd s \<noteq> CHR 0x22 then None
      else case unquote (tl s) of
        None \<Rightarrow> None
      | Some (k, r0) \<Rightarrow>
          (let r = skip_space r0 in
           if r = [] \<or> hd r \<noteq> CHR '':'' \<or> \<not> length r \<le> length s0 then None
           else case parse_value d (tl r) of
             None \<Rightarrow> None
           | Some (v, t0) \<Rightarrow>
               (let t = skip_space t0 in
                if t = [] \<or> \<not> length t \<le> length s0 then None
                else if hd t = CHR ''}'' then Some ([(k, v)], tl t)
                else if hd t = CHR '','' then map_option (\<lambda>(ms, u). ((k, v) # ms, u)) (parse_members d (tl t))
                else None)))"
  by pat_completeness auto
termination
  by (relation "measure (\<lambda>x. case x of Inl (d, s) \<Rightarrow> 2 * length s | Inr (Inl (d, s)) \<Rightarrow> 2 * length s + 1
        | Inr (Inr (d, s)) \<Rightarrow> 2 * length s + 1)")
     (auto dest!: skip_space_shorter)

declare parse_value.simps [simp del] parse_elems.simps [simp del] parse_members.simps [simp del]

text \<open>Every parser consumes text.\<close>

lemma with_prefix_Some: "with_prefix p r = Some (v, t) \<Longrightarrow> \<exists>s. r = Some (s, t)"
  by (auto simp: with_prefix_def)

lemma unquote_consumes: "unquote s = Some (v, t) \<Longrightarrow> length t < length s"
proof (induction s arbitrary: v rule: measure_induct_rule [of length])
  case (less s)
  have IH: "length t < length s" if "with_prefix p (unquote r) = Some (v, t)" "length r < length s" for p r
    using less.IH [OF that(2)] with_prefix_Some [OF that(1)] that(2) by fastforce
  have "s \<noteq> []" using less.prems by (auto simp: unquote.simps [of s])
  with less.prems show ?case
    by (subst (asm) unquote.simps) (auto simp: Let_def split: if_splits option.splits dest!: IH)
qed

lemma scan_digits_consumes: "scan_digits s = Some (v, t) \<Longrightarrow> length t < length s"
  by (auto simp: scan_digits_def Let_def split: if_splits) (metis drop_eq_Nil2 length_takeWhile_le linorder_not_le takeWhile.simps(1) takeWhile_eq_Nil_iff diff_less length_greater_0_conv)

lemma scan_number_consumes:
  assumes "scan_number s = Some (v, t)"
  shows "length t < length s"
proof -
  define r where "r = (if s \<noteq> [] \<and> hd s = CHR ''-'' then tl s else s)"
  from assms obtain i r1 f r2 w where parts: "scan_int r = Some (i, r1)" "scan_frac r1 = Some (f, r2)" "scan_exp r2 = Some (w, t)"
    by (auto simp: scan_number_def r_def Let_def split: if_splits option.splits dest!: with_prefix_Some)
  have "length r1 < length r" using parts(1)
    by (auto simp: scan_int_def split: if_splits dest: scan_digits_consumes)
  moreover have "length r2 \<le> length r1" using parts(2)
    by (auto simp: scan_frac_def split: if_splits dest!: with_prefix_Some scan_digits_consumes)
  moreover have "length t \<le> length r2" using parts(3)
    by (auto simp: scan_exp_def Let_def split: if_splits dest!: with_prefix_Some scan_digits_consumes)
  moreover have "length r \<le> length s" by (simp add: r_def)
  ultimately show ?thesis by linarith
qed

lemma skip_space_le: "length (skip_space s) \<le> length s"
  by (simp add: skip_space_def length_dropWhile_le)

lemma parse_consumes_all:
  "(\<forall>d v t. parse_value d s = Some (v, t) \<longrightarrow> length t < length s)
   \<and> (\<forall>d vs t. parse_elems d s = Some (vs, t) \<longrightarrow> length t < length s)
   \<and> (\<forall>d ms t. parse_members d s = Some (ms, t) \<longrightarrow> length t < length s)"
proof (induction s rule: measure_induct_rule [of length])
  case (less s)
  have val: "length t < length s" if p: "parse_value d s = Some (v, t)" for d v t
  proof -
    let ?s = "skip_space s"
    have ne: "?s \<noteq> []" using p by (auto simp: parse_value.simps [of d s])
    then have sh: "length (tl ?s) < length s" using skip_space_le [of s] by (cases ?s) auto
    have "length (skip_space (tl ?s)) \<le> length (tl ?s)" by (rule skip_space_le)
    moreover have "length (drop 4 ?s) < length s" "length (drop 5 ?s) < length s" using sh ne skip_space_le [of s] by (cases ?s; simp)+
    moreover have "length t < length s" if "scan_number ?s = Some (w, t)" for w
      using scan_number_consumes [OF that] skip_space_le [of s] by linarith
    moreover have "length t < length s" if "unquote (tl ?s) = Some (w, t)" for w
      using unquote_consumes [OF that] sh by linarith
    moreover have "length t < length s" if "parse_elems d' (tl ?s) = Some (w, t)" for d' w
      using less.IH [OF sh] that sh by fastforce
    moreover have "length t < length s" if "parse_members d' (tl ?s) = Some (w, t)" for d' w
      using less.IH [OF sh] that sh by fastforce
    ultimately show ?thesis using p ne sh
      by (auto simp: parse_value.simps [of d s] Let_def split: if_splits)
  qed
  have elems: "length t < length s" if p: "parse_elems d s = Some (vs, t)" for d vs t
  proof -
    obtain v t0 where v: "parse_value d s = Some (v, t0)" using p by (auto simp: parse_elems.simps [of d s] split: option.splits)
    have sh: "length (tl (skip_space t0)) < length s" using val [OF v] skip_space_le [of t0] by simp
    moreover have "length t < length s" if "parse_elems d (tl (skip_space t0)) = Some (w, t)" for w
      using less.IH [OF sh] that sh by fastforce
    ultimately show ?thesis using p v by (auto simp: parse_elems.simps [of d s] Let_def split: if_splits)
  qed
  have "length t < length s" if p: "parse_members d s = Some (ms, t)" for d ms t
  proof -
    let ?s = "skip_space s"
    obtain k r0 where k: "?s \<noteq> []" "unquote (tl ?s) = Some (k, r0)"
      using p by (auto simp: parse_members.simps [of d s] Let_def split: if_splits option.splits)
    then have r0: "length r0 < length s" using unquote_consumes [OF k(2)] skip_space_le [of s] by (cases ?s) auto
    let ?r = "tl (skip_space r0)"
    have r: "length ?r < length s" using r0 skip_space_le [of r0] by simp
    obtain v t0 where v: "parse_value d ?r = Some (v, t0)"
      using p k by (auto simp: parse_members.simps [of d s] Let_def split: if_splits option.splits)
    have "length t0 < length s" using less.IH [OF r] v r by fastforce
    then have sh: "length (tl (skip_space t0)) < length s" using skip_space_le [of t0] by simp
    moreover have "length t < length s" if "parse_members d (tl (skip_space t0)) = Some (w, t)" for w
      using less.IH [OF sh] that sh by fastforce
    ultimately show ?thesis using p k v by (auto simp: parse_members.simps [of d s] Let_def split: if_splits)
  qed
  with val elems show ?case by blast
qed

lemma parse_consumes: "parse_value d s = Some (v, t) \<Longrightarrow> length t < length s"
  using parse_consumes_all [of s] by blast

text \<open>The values that can be written and read back: number literals, valid text, shallow nesting.\<close>

definition nat_literal :: "string \<Rightarrow> bool" where
  "nat_literal t \<longleftrightarrow> t \<noteq> [] \<and> list_all is_digit t \<and> (hd t = CHR ''0'' \<longrightarrow> t = ''0'')"

definition number_literal :: "string \<Rightarrow> bool" where
  "number_literal t \<longleftrightarrow> scan_number t = Some (t, [])"

fun writable :: "nat \<Rightarrow> json \<Rightarrow> bool" where
  "writable d JNull = True"
| "writable d (JBool b) = True"
| "writable d (JNum t) = number_literal t"
| "writable d (JStr s) = valid_utf8 s"
| "writable d (JArr vs) = (d < max_nesting \<and> list_all (writable (Suc d)) vs)"
| "writable d (JObj ms) = (d < max_nesting \<and> list_all (\<lambda>(k, v). valid_utf8 k \<and> writable (Suc d) v) ms)"

definition number_end :: "string \<Rightarrow> bool" where
  "number_end rest \<longleftrightarrow> rest = [] \<or> (\<not> is_digit (hd rest) \<and> hd rest \<notin> {CHR ''.'', CHR ''e'', CHR ''E''})"

lemma scan_number_nat:
  assumes "nat_literal t" "number_end rest"
  shows "scan_number (t @ rest) = Some (t, rest)"
proof -
  have t: "t \<noteq> []" "list_all is_digit t" "hd t = CHR ''0'' \<longrightarrow> t = ''0''" using assms(1) by (simp_all add: nat_literal_def)
  have tw: "takeWhile is_digit (t @ rest) = t"
    using t(2) assms(2) by (cases rest) (auto simp: takeWhile_append list_all_iff number_end_def)
  have "is_digit (hd t)" using t(1,2) by (cases t) auto
  then have hd: "hd t \<noteq> CHR ''-''" by (auto simp: is_digit_def in_range_def)
  have "scan_int (t @ rest) = Some (t, rest)"
    using t tw by (auto simp: scan_int_def scan_digits_def Let_def)
  moreover have "scan_frac rest = Some ([], rest)" "scan_exp rest = Some ([], rest)"
    using assms(2) by (auto simp: scan_frac_def scan_exp_def number_end_def)
  ultimately show ?thesis using t(1) hd by (simp add: scan_number_def)
qed

lemma scan_digits_append:
  "scan_digits s = Some (ds, r) \<Longrightarrow> number_end rest \<Longrightarrow> scan_digits (s @ rest) = Some (ds, r @ rest)"
proof -
  assume s: "scan_digits s = Some (ds, r)" and rest: "number_end rest"
  have "takeWhile is_digit (s @ rest) = takeWhile is_digit s"
    using rest by (induction s) (cases rest; auto simp: number_end_def)+
  moreover have "length (takeWhile is_digit s) \<le> length s" by (rule length_takeWhile_le)
  ultimately show ?thesis using s by (auto simp: scan_digits_def Let_def split: if_splits)
qed

lemma with_prefix_append:
  "with_prefix p (scan_digits s) = Some (ds, r) \<Longrightarrow> number_end rest \<Longrightarrow> with_prefix p (scan_digits (s @ rest)) = Some (ds, r @ rest)"
  by (cases "scan_digits s") (auto dest: scan_digits_append)

lemma scan_int_append: "scan_int s = Some (ds, r) \<Longrightarrow> number_end rest \<Longrightarrow> scan_int (s @ rest) = Some (ds, r @ rest)"
  using scan_digits_append [of s ds r rest] by (cases s) (auto simp: scan_int_def scan_digits_def split: if_splits)

lemma scan_frac_append: "scan_frac s = Some (ds, r) \<Longrightarrow> number_end rest \<Longrightarrow> scan_frac (s @ rest) = Some (ds, r @ rest)"
  by (cases s) (auto simp: scan_frac_def number_end_def dest: with_prefix_append split: if_splits)

lemma scan_exp_append: "scan_exp s = Some (ds, r) \<Longrightarrow> number_end rest \<Longrightarrow> scan_exp (s @ rest) = Some (ds, r @ rest)"
proof (cases s)
  case (Cons c t)
  assume a: "scan_exp s = Some (ds, r)" "number_end rest"
  show ?thesis
  proof (cases t)
    case Nil
    with a Cons show ?thesis by (auto simp: scan_exp_def scan_digits_def split: if_splits)
  qed (use a Cons in \<open>auto simp: scan_exp_def Let_def dest: with_prefix_append split: if_splits\<close>)
qed (auto simp: scan_exp_def number_end_def)

lemma scan_number_append:
  assumes "scan_number s = Some (t, r)" "number_end rest"
  shows "scan_number (s @ rest) = Some (t, r @ rest)"
proof -
  define sign where "sign = (if s \<noteq> [] \<and> hd s = CHR ''-'' then ''-'' else [])"
  define u where "u = (if s \<noteq> [] \<and> hd s = CHR ''-'' then tl s else s)"
  have s: "(if s \<noteq> [] \<and> hd s = CHR ''-'' then (''-'', tl s) else ([], s)) = (sign, u)" by (simp add: sign_def u_def)
  obtain i r1 where i: "scan_int u = Some (i, r1)" using assms(1) s by (auto simp: scan_number_def split: option.splits)
  obtain f r2 where f: "scan_frac r1 = Some (f, r2)" using assms(1) s i by (auto simp: scan_number_def split: option.splits)
  obtain e where e: "scan_exp r2 = Some (e, r)" "t = sign @ i @ f @ e"
    using assms(1) s i f by (cases "scan_exp r2") (auto simp: scan_number_def)
  have ne: "s \<noteq> []" using i by (auto simp: u_def scan_int_def scan_digits_def split: if_splits)
  then have "(if s @ rest \<noteq> [] \<and> hd (s @ rest) = CHR ''-'' then (''-'', tl (s @ rest)) else ([], s @ rest)) = (sign, u @ rest)"
    by (simp add: sign_def u_def)
  with scan_int_append [OF i assms(2)] scan_frac_append [OF f assms(2)] scan_exp_append [OF e(1) assms(2)] e(2) show ?thesis
    by (simp add: scan_number_def)
qed

lemma scan_number_literal: "number_literal t \<Longrightarrow> number_end rest \<Longrightarrow> scan_number (t @ rest) = Some (t, rest)"
  using scan_number_append [of t t "[]" rest] by (simp add: number_literal_def)

lemma nat_literal_number: "nat_literal t \<Longrightarrow> number_literal t"
  using scan_number_nat [of t "[]"] by (simp add: number_literal_def number_end_def)

lemma number_literal_head: "number_literal t \<Longrightarrow> \<exists>c cs. t = c # cs \<and> (is_digit c \<or> c = CHR ''-'')"
  by (cases t)
    (auto simp: number_literal_def scan_number_def scan_int_def scan_digits_def is_digit_def in_range_def split: if_splits option.splits)

text \<open>The first character of a value's text tells it from white space and from closing brackets.\<close>

lemma show_json_head:
  assumes "writable d v"
  shows "\<exists>c cs. show_json v = c # cs \<and> \<not> is_json_space c \<and> c \<noteq> CHR '']'' \<and> c \<noteq> CHR ''}''"
proof (cases v)
  case (JNum t)
  with assms obtain c cs where "t = c # cs" "is_digit c \<or> c = CHR ''-''" using number_literal_head by force
  with JNum show ?thesis by (auto simp: is_digit_def in_range_def is_json_space_def)
qed (auto simp: is_json_space_def show_bool_def quote_json_def)

lemma skip_space_Cons: "\<not> is_json_space c \<Longrightarrow> skip_space (c # s) = c # s"
  by (simp add: skip_space_def)

lemma skip_space_show: "writable d v \<Longrightarrow> skip_space (show_json v @ s) = show_json v @ s"
  using show_json_head [of d v] by (auto simp: skip_space_Cons)

lemma punctuation: "\<not> is_json_space CHR '',''" "\<not> is_json_space CHR '']''" "\<not> is_json_space CHR ''}''" "\<not> is_json_space CHR '':''"
    "\<not> is_json_space CHR 0x22" "\<not> is_json_space CHR ''{''" "\<not> is_json_space CHR ''[''"
    "number_end (CHR '','' # s)" "number_end (CHR '']'' # s)" "number_end (CHR ''}'' # s)"
  by (simp_all add: is_json_space_def number_end_def is_digit_def in_range_def)

abbreviation reads_back_json :: "json \<Rightarrow> bool" where
  "reads_back_json v \<equiv> \<forall>d rest. writable d v \<longrightarrow> number_end rest \<longrightarrow> parse_value d (show_json v @ rest) = Some (v, rest)"

lemma parse_elems_show:
  assumes "vs \<noteq> []" "\<forall>v \<in> set vs. reads_back_json v" "list_all (writable d) vs"
  shows "parse_elems d (join_sep '','' (map show_json vs) @ CHR '']'' # rest) = Some (vs, rest)"
  using assms
proof (induction vs rule: induct_list012)
  case (2 v)
  then have "parse_value d (show_json v @ CHR '']'' # rest) = Some (v, CHR '']'' # rest)"
    by (simp add: punctuation)
  then show ?case by (simp add: parse_elems.simps [of d "show_json v @ _"] skip_space_Cons punctuation)
next
  case (3 v w vs)
  let ?more = "join_sep '','' (map show_json (w # vs)) @ CHR '']'' # rest"
  have v: "parse_value d (show_json v @ CHR '','' # ?more) = Some (v, CHR '','' # ?more)"
    using "3.prems" by (simp add: punctuation)
  have "parse_elems d ?more = Some (w # vs, rest)" using "3.prems" by (intro "3.IH") auto
  with v show ?case by (simp add: parse_elems.simps [of d "show_json v @ _"] skip_space_Cons punctuation)
qed simp

lemma parse_members_show:
  assumes "ms \<noteq> []" "\<forall>(k, v) \<in> set ms. reads_back_json v" "list_all (\<lambda>(k, v). valid_utf8 k \<and> writable d v) ms"
  shows "parse_members d (join_sep '','' (map (\<lambda>(k, v). quote_json k @ '':'' @ show_json v) ms) @ CHR ''}'' # rest) = Some (ms, rest)"
  using assms
proof (induction ms rule: induct_list012)
  case (2 m)
  obtain k v where m: "m = (k, v)" by fastforce
  with 2 have v: "parse_value d (show_json v @ CHR ''}'' # rest) = Some (v, CHR ''}'' # rest)" by (simp add: punctuation)
  with 2 m show ?case
    by (simp add: parse_members.simps quote_json_def unquote_quote_body skip_space_Cons punctuation)
next
  case (3 m m' ms)
  obtain k v where m: "m = (k, v)" by fastforce
  let ?more = "join_sep '','' (map (\<lambda>(k, v). quote_json k @ '':'' @ show_json v) (m' # ms)) @ CHR ''}'' # rest"
  have v: "parse_value d (show_json v @ CHR '','' # ?more) = Some (v, CHR '','' # ?more)"
    using "3.prems" m by (simp add: punctuation)
  have "parse_members d ?more = Some (m' # ms, rest)" using "3.prems" by (intro "3.IH") auto
  with v m "3.prems" show ?case
    by (simp add: parse_members.simps [of d "CHR 0x22 # _"] quote_json_def unquote_quote_body skip_space_Cons punctuation)
qed simp

theorem parse_show: "writable d v \<Longrightarrow> number_end rest \<Longrightarrow> parse_value d (show_json v @ rest) = Some (v, rest)"
proof (induction v arbitrary: d rest)
  case JNull
  then show ?case by (simp add: parse_value.simps skip_space_Cons is_json_space_def)
next
  case (JBool b)
  then show ?case by (simp add: parse_value.simps skip_space_Cons is_json_space_def show_bool_def)
next
  case (JNum t)
  then obtain c cs where t: "t = c # cs" "is_digit c \<or> c = CHR ''-''" using number_literal_head by force
  then have c: "\<not> is_json_space c" "c \<noteq> CHR ''{''" "c \<noteq> CHR ''[''" "c \<noteq> CHR 0x22" "c \<noteq> CHR ''t''" "c \<noteq> CHR ''f''" "c \<noteq> CHR ''n''"
    by (auto simp: is_digit_def in_range_def is_json_space_def)
  with JNum t scan_number_literal [of t rest] show ?case
    by (simp add: parse_value.simps skip_space_Cons)
next
  case (JStr s)
  then show ?case by (simp add: parse_value.simps quote_json_def unquote_quote_body skip_space_Cons punctuation)
next
  case (JArr vs)
  show ?case
  proof (cases vs)
    case Nil
    with JArr.prems show ?thesis by (simp add: parse_value.simps skip_space_Cons punctuation)
  next
    case (Cons w ws)
    let ?text = "join_sep '','' (map show_json vs) @ CHR '']'' # rest"
    have "writable (Suc d) w" using JArr.prems(1) Cons by simp
    then obtain c cs where c: "show_json w = c # cs" "\<not> is_json_space c" "c \<noteq> CHR '']''"
      using show_json_head by blast
    then have "\<exists>more. ?text = c # more" using Cons by (cases ws) auto
    then have skip: "skip_space ?text \<noteq> [] \<and> hd (skip_space ?text) \<noteq> CHR '']''" using c by (auto simp: skip_space_Cons)
    have "parse_elems (Suc d) ?text = Some (vs, rest)"
      using JArr Cons by (intro parse_elems_show) auto
    with skip JArr.prems(1) show ?thesis
      by (simp add: parse_value.simps [of d "CHR ''['' # _"] skip_space_Cons punctuation)
  qed
next
  case (JObj ms)
  show ?case
  proof (cases ms)
    case Nil
    with JObj.prems show ?thesis by (simp add: parse_value.simps skip_space_Cons punctuation)
  next
    case (Cons m ms')
    obtain k v where m: "m = (k, v)" by fastforce
    let ?text = "join_sep '','' (map (\<lambda>(k, v). quote_json k @ '':'' @ show_json v) ms) @ CHR ''}'' # rest"
    have "\<exists>more. ?text = CHR 0x22 # more" using Cons m by (cases ms') (auto simp: quote_json_def)
    then have skip: "skip_space ?text \<noteq> [] \<and> hd (skip_space ?text) \<noteq> CHR ''}''" by (auto simp: skip_space_Cons punctuation)
    have "\<forall>(k, v) \<in> set ms. reads_back_json v" using JObj.IH by (auto simp: snds.simps)
    then have "parse_members (Suc d) ?text = Some (ms, rest)"
      using JObj.prems(1) Cons by (intro parse_members_show) auto
    with skip JObj.prems(1) show ?thesis
      by (simp add: parse_value.simps [of d "CHR ''{'' # _"] skip_space_Cons punctuation)
  qed
qed

text \<open>\<open>json.Unmarshal\<close> up to the conversion into the target's type: one value and nothing behind it.\<close>

definition parse_json :: "string \<Rightarrow> json option" where
  "parse_json s = (case parse_value 0 s of Some (v, rest) \<Rightarrow> if skip_space rest = [] then Some v else None | None \<Rightarrow> None)"

corollary parse_json_show: "writable 0 v \<Longrightarrow> parse_json (show_json v) = Some v"
  using parse_show [of 0 v "[]"] by (simp add: parse_json_def skip_space_def number_end_def)


section \<open>Base 64\<close>

definition std64 :: string where
  "std64 = ''ABCDEFGHIJKLMNOPQRSTUVWXYZabcdefghijklmnopqrstuvwxyz0123456789+/''"

definition url64 :: string where
  "url64 = ''ABCDEFGHIJKLMNOPQRSTUVWXYZabcdefghijklmnopqrstuvwxyz0123456789-_''"

definition sextet_char :: "string \<Rightarrow> int \<Rightarrow> char" where
  "sextet_char alph n = alph ! nat n"

definition sextet_value :: "string \<Rightarrow> char \<Rightarrow> int option" where
  "sextet_value alph c = map_option int (find_index (\<lambda>x. x = c) alph)"

fun encode64 :: "string \<Rightarrow> bool \<Rightarrow> string \<Rightarrow> string" where
  "encode64 alph pad [] = []"
| "encode64 alph pad [a] =
     [sextet_char alph (byte a div 4), sextet_char alph (byte a mod 4 * 16)] @ (if pad then ''=='' else [])"
| "encode64 alph pad [a, b] =
     [sextet_char alph (byte a div 4), sextet_char alph (byte a mod 4 * 16 + byte b div 16), sextet_char alph (byte b mod 16 * 4)]
     @ (if pad then ''='' else [])"
| "encode64 alph pad (a # b # c # s) =
     [sextet_char alph (byte a div 4), sextet_char alph (byte a mod 4 * 16 + byte b div 16),
      sextet_char alph (byte b mod 16 * 4 + byte c div 64), sextet_char alph (byte c mod 64)] @ encode64 alph pad s"

definition bytes64 :: "int \<Rightarrow> int \<Rightarrow> int \<Rightarrow> int \<Rightarrow> string" where
  "bytes64 x y z w = [char_of (x * 4 + y div 16), char_of (y mod 16 * 16 + z div 4), char_of (z mod 4 * 64 + w)]"

definition group64 :: "string \<Rightarrow> string \<Rightarrow> string option" where
  "group64 alph cs =
     (case map (sextet_value alph) cs of
        [Some x, Some y] \<Rightarrow> Some (take 1 (bytes64 x y 0 0))
      | [Some x, Some y, Some z] \<Rightarrow> Some (take 2 (bytes64 x y z 0))
      | [Some x, Some y, Some z, Some w] \<Rightarrow> Some (bytes64 x y z w)
      | _ \<Rightarrow> None)"

fun decode_groups :: "string \<Rightarrow> bool \<Rightarrow> string \<Rightarrow> string option" where
  "decode_groups alph pad (x # y # z # w # s) =
     (if pad \<and> s = [] \<and> w = CHR ''='' then (if z = CHR ''='' then group64 alph [x, y] else group64 alph [x, y, z])
      else case group64 alph [x, y, z, w] of
             None \<Rightarrow> None
           | Some bs \<Rightarrow> map_option (\<lambda>r. bs @ r) (decode_groups alph pad s))"
| "decode_groups alph pad [] = Some []"
| "decode_groups alph pad s = (if pad then None else group64 alph s)"

text \<open>Line breaks are skipped.\<close>

definition decode64 :: "string \<Rightarrow> bool \<Rightarrow> string \<Rightarrow> string option" where
  "decode64 alph pad s = decode_groups alph pad (filter (\<lambda>c. c \<noteq> CHR 0x0A \<and> c \<noteq> CHR 0x0D) s)"

definition alphabet64 :: "string \<Rightarrow> bool" where
  "alphabet64 alph \<longleftrightarrow> list_all (\<lambda>n. sextet_value alph (sextet_char alph n) = Some n \<and> sextet_char alph n \<noteq> CHR ''=''
      \<and> 32 < byte (sextet_char alph n) \<and> byte (sextet_char alph n) < 128) [0..63]"

lemma alphabets: "alphabet64 std64" "alphabet64 url64"
  by code_simp+

lemma sextet:
  assumes "alphabet64 alph" "0 \<le> n" "n < 64"
  shows "sextet_value alph (sextet_char alph n) = Some n" "sextet_char alph n \<noteq> CHR ''=''"
    "32 < byte (sextet_char alph n)" "byte (sextet_char alph n) < 128"
  using assms by (auto simp: alphabet64_def list_all_iff)

lemma digits_base:
  fixes p q k :: int
  assumes "0 \<le> q" "q < k"
  shows "(p * k + q) div k = p" "(p * k + q) mod k = q"
  using assms by simp_all

lemma byte_digits:
  "0 \<le> byte a div 4" "byte a div 4 < 64" "0 \<le> byte a mod 4 * 16 + byte b div 16" "byte a mod 4 * 16 + byte b div 16 < 64"
  "0 \<le> byte b mod 16 * 4 + byte c div 64" "byte b mod 16 * 4 + byte c div 64 < 64" "0 \<le> byte c mod 64" "byte c mod 64 < 64"
  "0 \<le> byte a mod 4 * 16" "byte a mod 4 * 16 < 64" "0 \<le> byte b mod 16 * 4" "byte b mod 16 * 4 < 64"
proof -
  have "0 \<le> byte x div k" "byte x div k \<le> 255 div k" if "0 < k" for x k
    using byte_bounds [of x] that zdiv_mono1 [of "byte x" 255 k] by (simp_all add: pos_imp_zdiv_nonneg_iff)
  from this [of 4 a] this [of 16 b] this [of 64 c]
    pos_mod_bound [of 4 "byte a"] pos_mod_bound [of 16 "byte b"] pos_mod_sign [of 4 "byte a"] pos_mod_sign [of 16 "byte b"]
  show "0 \<le> byte a div 4" "byte a div 4 < 64" "0 \<le> byte a mod 4 * 16 + byte b div 16" "byte a mod 4 * 16 + byte b div 16 < 64"
    "0 \<le> byte b mod 16 * 4 + byte c div 64" "byte b mod 16 * 4 + byte c div 64 < 64" "0 \<le> byte c mod 64" "byte c mod 64 < 64"
    "0 \<le> byte a mod 4 * 16" "byte a mod 4 * 16 < 64" "0 \<le> byte b mod 16 * 4" "byte b mod 16 * 4 < 64"
    by simp_all
qed

lemma bytes64_digits:
  "bytes64 (byte a div 4) (byte a mod 4 * 16 + byte b div 16) (byte b mod 16 * 4 + byte c div 64) (byte c mod 64) = [a, b, c]"
proof -
  have q: "0 \<le> byte b div 16" "byte b div 16 < 16" "0 \<le> byte c div 64" "byte c div 64 < 4"
    using byte_bounds [of b] byte_bounds [of c] by (simp_all add: pos_imp_zdiv_nonneg_iff)
  have "byte a div 4 * 4 + byte a mod 4 = byte a" "byte b div 16 * 16 + byte b mod 16 = byte b" "byte c div 64 * 64 + byte c mod 64 = byte c"
    by (simp_all add: div_mult_mod_eq)
  with digits_base [OF q(1,2), of "byte a mod 4"] digits_base [OF q(3,4), of "byte b mod 16"] show ?thesis
    by (simp add: bytes64_def byte_def)
qed

lemma zero_byte: "byte (CHR 0x00) = 0"
  by (simp add: byte_def)

lemma decode_encode_groups:
  assumes "alphabet64 alph"
  shows "decode_groups alph pad (encode64 alph pad s) = Some s"
  using assms
proof (induction alph pad s rule: encode64.induct)
  case (2 alph pad a)
  have "take 1 (bytes64 (byte a div 4) (byte a mod 4 * 16) 0 0) = [a]"
    using bytes64_digits [of a "CHR 0x00" "CHR 0x00"] by (simp add: zero_byte bytes64_def)
  with sextet [OF "2.prems" byte_digits(1,2)] sextet [OF "2.prems" byte_digits(9,10)] show ?case
    by (simp add: group64_def)
next
  case (3 alph pad a b)
  have "take 2 (bytes64 (byte a div 4) (byte a mod 4 * 16 + byte b div 16) (byte b mod 16 * 4) 0) = [a, b]"
    using bytes64_digits [of a b "CHR 0x00"] by (simp add: zero_byte bytes64_def)
  with sextet [OF "3.prems" byte_digits(1,2)] sextet [OF "3.prems" byte_digits(3,4)] sextet [OF "3.prems" byte_digits(11,12)] show ?case
    by (simp add: group64_def)
next
  case (4 alph pad a b c s)
  have "group64 alph [sextet_char alph (byte a div 4), sextet_char alph (byte a mod 4 * 16 + byte b div 16),
      sextet_char alph (byte b mod 16 * 4 + byte c div 64), sextet_char alph (byte c mod 64)] = Some [a, b, c]"
    using sextet(1) [OF "4.prems" byte_digits(1,2)] sextet(1) [OF "4.prems" byte_digits(3,4)]
      sextet(1) [OF "4.prems" byte_digits(5,6)] sextet(1) [OF "4.prems" byte_digits(7,8)] bytes64_digits [of a b c]
    by (simp add: group64_def)
  with 4 sextet(2) [OF "4.prems" byte_digits(7,8), of c] show ?case by simp
qed simp

lemma byte_equals: "byte CHR ''='' = 61" "byte CHR 0x0A = 10" "byte CHR 0x0D = 13"
  by (simp_all add: byte_def)

lemma encode64_chars: "alphabet64 alph \<Longrightarrow> c \<in> set (encode64 alph pad s) \<Longrightarrow> 32 < byte c \<and> byte c < 128"
proof (induction alph pad s rule: encode64.induct)
  case (2 alph pad a)
  then show ?case using sextet(3,4) [OF _ byte_digits(1,2)] sextet(3,4) [OF _ byte_digits(9,10)] by (auto simp: byte_equals)
next
  case (3 alph pad a b)
  then show ?case
    using sextet(3,4) [OF _ byte_digits(1,2)] sextet(3,4) [OF _ byte_digits(3,4)] sextet(3,4) [OF _ byte_digits(11,12)] by (auto simp: byte_equals)
next
  case (4 alph pad a b c s)
  then show ?case
    using sextet(3,4) [OF _ byte_digits(1,2)] sextet(3,4) [OF _ byte_digits(3,4)] sextet(3,4) [OF _ byte_digits(5,6)]
      sextet(3,4) [OF _ byte_digits(7,8)] by (auto simp: byte_equals)
qed simp

theorem decode64_encode64:
  assumes "alphabet64 alph"
  shows "decode64 alph pad (encode64 alph pad s) = Some s"
proof -
  have "filter (\<lambda>c. c \<noteq> CHR 0x0A \<and> c \<noteq> CHR 0x0D) (encode64 alph pad s) = encode64 alph pad s"
    using encode64_chars [OF assms, of _ pad s] byte_equals by (force simp: filter_id_conv)
  then show ?thesis by (simp add: decode64_def decode_encode_groups [OF assms])
qed


section \<open>Structs\<close>

text \<open>
  A struct is read field by field: a member goes to the field of that name, or else of that name up to
  case; a mismatch is an error, and so is an unknown member where the decoder disallows them.
\<close>

type_synonym 'r field = "string \<times> (json \<Rightarrow> 'r \<Rightarrow> 'r option)"

text \<open>Names up to case: besides the ASCII letters two runes fold to one.\<close>

function fold_name :: "string \<Rightarrow> string" where
  "fold_name s =
     (if s = [] then []
      else if take 2 s = [CHR 0xC5, CHR 0xBF] then CHR ''s'' # fold_name (drop 2 s)
      else if take 3 s = [CHR 0xE2, CHR 0x84, CHR 0xAA] then CHR ''k'' # fold_name (drop 3 s)
      else to_lower_char (hd s) # fold_name (tl s))"
  by pat_completeness auto
termination
  by (relation "measure length") auto

declare fold_name.simps [simp del]

definition find_field :: "'r field list \<Rightarrow> string \<Rightarrow> (json \<Rightarrow> 'r \<Rightarrow> 'r option) option" where
  "find_field fields k =
     (case map_of fields k of
        Some f \<Rightarrow> Some f
      | None \<Rightarrow> map_option snd (find (\<lambda>(n, f). fold_name n = fold_name k) fields))"

fun set_fields :: "bool \<Rightarrow> 'r field list \<Rightarrow> (string \<times> json) list \<Rightarrow> 'r \<Rightarrow> 'r option" where
  "set_fields strict fields [] r = Some r"
| "set_fields strict fields ((k, v) # ms) r =
     (case find_field fields k of
        None \<Rightarrow> if strict then None else set_fields strict fields ms r
      | Some f \<Rightarrow> (case f v r of None \<Rightarrow> None | Some r' \<Rightarrow> set_fields strict fields ms r'))"

definition decode_struct :: "bool \<Rightarrow> 'r field list \<Rightarrow> 'r \<Rightarrow> json \<Rightarrow> 'r option" where
  "decode_struct strict fields zero v =
     (case v of JObj ms \<Rightarrow> set_fields strict fields ms zero | JNull \<Rightarrow> Some zero | _ \<Rightarrow> None)"

definition str_field :: "(string \<Rightarrow> 'r \<Rightarrow> 'r) \<Rightarrow> json \<Rightarrow> 'r \<Rightarrow> 'r option" where
  "str_field upd v r = (case v of JStr s \<Rightarrow> Some (upd s r) | JNull \<Rightarrow> Some r | _ \<Rightarrow> None)"

definition bool_field :: "(bool \<Rightarrow> 'r \<Rightarrow> 'r) \<Rightarrow> json \<Rightarrow> 'r \<Rightarrow> 'r option" where
  "bool_field upd v r = (case v of JBool b \<Rightarrow> Some (upd b r) | JNull \<Rightarrow> Some r | _ \<Rightarrow> None)"

definition time_field :: "(gotime \<Rightarrow> 'r \<Rightarrow> 'r) \<Rightarrow> json \<Rightarrow> 'r \<Rightarrow> 'r option" where
  "time_field upd v r =
     (case v of JStr s \<Rightarrow> map_option (\<lambda>t. upd t r) (parse_rfc3339 s) | JNull \<Rightarrow> Some r | _ \<Rightarrow> None)"

definition uint64_field :: "(64 word \<Rightarrow> 'r \<Rightarrow> 'r) \<Rightarrow> json \<Rightarrow> 'r \<Rightarrow> 'r option" where
  "uint64_field upd v r =
     (case v of
        JNum t \<Rightarrow> if list_all is_digit t \<and> decimal t < 2 ^ 64 then Some (upd (word_of_int (decimal t)) r) else None
      | JNull \<Rightarrow> Some r
      | _ \<Rightarrow> None)"

text \<open>A byte slice: base 64 text, or an array of small numbers.\<close>

definition small_byte :: "json \<Rightarrow> char option" where
  "small_byte v =
     (case v of
        JNum t \<Rightarrow> if list_all is_digit t \<and> decimal t < 256 then Some (char_of (decimal t)) else None
      | JNull \<Rightarrow> Some CHR 0x00
      | _ \<Rightarrow> None)"

definition bytes_field :: "(string \<Rightarrow> 'r \<Rightarrow> 'r) \<Rightarrow> json \<Rightarrow> 'r \<Rightarrow> 'r option" where
  "bytes_field upd v r =
     (case v of
        JStr s \<Rightarrow> map_option (\<lambda>bs. upd bs r) (decode64 std64 True s)
      | JArr vs \<Rightarrow> map_option (\<lambda>bs. upd bs r) (those (map small_byte vs))
      | JNull \<Rightarrow> Some (upd [] r)
      | _ \<Rightarrow> None)"

text \<open>A map with string keys; later entries replace earlier ones.\<close>

fun read_entries :: "(json \<Rightarrow> 'v option) \<Rightarrow> (string \<times> json) list \<Rightarrow> (string, 'v) fmap \<Rightarrow> (string, 'v) fmap option" where
  "read_entries rd [] m = Some m"
| "read_entries rd ((k, v) # ms) m = (case rd v of None \<Rightarrow> None | Some x \<Rightarrow> read_entries rd ms (fmupd k x m))"

definition read_string :: "json \<Rightarrow> string option" where
  "read_string v = (case v of JStr s \<Rightarrow> Some s | JNull \<Rightarrow> Some [] | _ \<Rightarrow> None)"

definition read_strings :: "json \<Rightarrow> string list option" where
  "read_strings v = (case v of JArr vs \<Rightarrow> those (map read_string vs) | JNull \<Rightarrow> Some [] | _ \<Rightarrow> None)"

definition map_field :: "(json \<Rightarrow> 'v option) \<Rightarrow> ('r \<Rightarrow> (string, 'v) fmap) \<Rightarrow> ((string, 'v) fmap \<Rightarrow> 'r \<Rightarrow> 'r) \<Rightarrow> json \<Rightarrow> 'r \<Rightarrow> 'r option" where
  "map_field rd get upd v r =
     (case v of
        JObj ms \<Rightarrow> map_option (\<lambda>m. upd m r) (read_entries rd ms (get r))
      | JNull \<Rightarrow> Some (upd fmempty r)
      | _ \<Rightarrow> None)"

lemma set_fields_append:
  "set_fields strict fields (xs @ ys) r =
     (case set_fields strict fields xs r of None \<Rightarrow> None | Some r' \<Rightarrow> set_fields strict fields ys r')"
  by (induction strict fields xs r rule: set_fields.induct) (auto split: option.splits)

lemma set_fields_exact:
  "map_of fields k = Some f \<Longrightarrow> set_fields strict fields ((k, v) # ms) r =
     (case f v r of None \<Rightarrow> None | Some r' \<Rightarrow> set_fields strict fields ms r')"
  by (simp add: find_field_def)


section \<open>What the encoder writes for a field\<close>

definition uint_json :: "'w :: len word \<Rightarrow> json" where
  "uint_json n = JNum (show_int (uint n))"

text \<open>A time is written when its year has four digits, and is an error otherwise.\<close>

definition json_time :: "gotime \<Rightarrow> bool" where
  "json_time t \<longleftrightarrow> (let y = fst (civil_date (day_number t)) in 0 \<le> y \<and> y \<le> 9999)"

definition time_json :: "gotime \<Rightarrow> json" where
  "time_json t = JStr (rfc3339nano t)"

definition map_json :: "('v \<Rightarrow> json) \<Rightarrow> (string, 'v) fmap \<Rightarrow> json" where
  "map_json f m = JObj (map (\<lambda>(k, v). (k, f v)) (fm_items m))"

definition strings_json :: "string list \<Rightarrow> json" where
  "strings_json xs = JArr (map JStr xs)"

lemma show_pos_literal: "0 \<le> n \<Longrightarrow> nat_literal (show_pos n)"
proof -
  assume n: "0 \<le> n"
  have "hd (show_pos n) \<noteq> CHR ''0''" if "0 < n"
    using that
  proof (induction n rule: show_pos.induct)
    case (1 n)
    show ?case
    proof (cases "n < 10")
      case True
      with 1 have "n \<in> {1, 2, 3, 4, 5, 6, 7, 8, 9}" by auto
      then show ?thesis by (auto simp: show_pos.simps [of n] digit_chars)
    next
      case False
      with 1 have "hd (show_pos (n div 10)) \<noteq> CHR ''0''" by simp
      with False show ?thesis by (simp add: show_pos.simps [of n] hd_append show_pos.simps [of "n div 10"])
    qed
  qed
  moreover have "show_pos 0 = ''0''" by code_simp
  ultimately show ?thesis
    using n show_pos_decimal [OF n] by (cases "n = 0") (auto simp: nat_literal_def show_pos.simps [of n])
qed

lemma writable_uint [simp]: "writable d (uint_json n)"
  by (simp add: uint_json_def show_int_def show_pos_literal nat_literal_number)

lemma scan_digits_all:
  "ds \<noteq> [] \<Longrightarrow> list_all is_digit ds \<Longrightarrow> rest = [] \<or> \<not> is_digit (hd rest) \<Longrightarrow> scan_digits (ds @ rest) = Some (ds, rest)"
proof -
  assume ds: "ds \<noteq> []" "list_all is_digit ds" "rest = [] \<or> \<not> is_digit (hd rest)"
  from ds(2,3) have "takeWhile is_digit (ds @ rest) = ds" by (induction ds) (cases rest; auto)+
  with ds(1) show ?thesis by (simp add: scan_digits_def)
qed

lemma number_literal_decimal:
  assumes "nat_literal i" "fr = [] \<or> (\<exists>ds. fr = CHR ''.'' # ds \<and> ds \<noteq> [] \<and> list_all is_digit ds)"
    and "ex = [] \<or> (\<exists>c ds. ex = CHR ''e'' # c # ds \<and> c \<in> {CHR ''+'', CHR ''-''} \<and> ds \<noteq> [] \<and> list_all is_digit ds)"
    and "sign = [] \<or> sign = ''-''"
  shows "number_literal (sign @ i @ fr @ ex)"
proof -
  have i: "i \<noteq> []" "list_all is_digit i" "hd i = CHR ''0'' \<longrightarrow> i = ''0''" using assms(1) by (simp_all add: nat_literal_def)
  have nd: "\<not> is_digit CHR ''.''" "\<not> is_digit CHR ''e''" by (simp_all add: is_digit_def in_range_def)
  have r: "fr @ ex = [] \<or> \<not> is_digit (hd (fr @ ex))" "ex = [] \<or> \<not> is_digit (hd ex)" using assms(2,3) nd by auto
  have "scan_int (i @ fr @ ex) = Some (i, fr @ ex)"
    using i scan_digits_all [OF i(1,2) r(1)] by (auto simp: scan_int_def)
  moreover have "scan_frac (fr @ ex) = Some (fr, ex)"
    using assms(2,3) scan_digits_all [OF _ _ r(2)] by (auto simp: scan_frac_def)
  moreover have "scan_exp ex = Some (ex, [])"
    using assms(3) scan_digits_all [where rest = "[]"] by (auto simp: scan_exp_def)
  moreover have "hd (i @ fr @ ex) \<noteq> CHR ''-''" using i by (cases i) (auto simp: is_digit_def in_range_def)
  ultimately show ?thesis using i(1) assms(4) by (auto simp: number_literal_def scan_number_def)
qed

lemma show_int_literal: "number_literal (show_int n)"
proof (cases "n < 0")
  case True
  then have "show_int n = ''-'' @ show_pos (- n) @ [] @ []" by (simp add: show_int_def)
  with number_literal_decimal [OF show_pos_literal, of "- n" "[]" "[]" "''-''"] True show ?thesis by simp
qed (simp add: show_int_def show_pos_literal nat_literal_number)

definition ascii :: "string \<Rightarrow> bool" where
  "ascii s = list_all (\<lambda>c. byte c < 0x80) s"

lemma ascii_simps [simp]: "ascii []" "ascii (c # s) \<longleftrightarrow> byte c < 0x80 \<and> ascii s" "ascii (s @ t) \<longleftrightarrow> ascii s \<and> ascii t"
  by (simp_all add: ascii_def)

lemma ascii_valid: "ascii s \<Longrightarrow> valid_utf8 s"
  by (induction s) (simp_all add: valid_utf8.simps [of "_ # _"] valid_utf8.simps [of "[]"] rune_size_ascii del: rune_size.simps)

lemma digits_ascii: "list_all is_digit s \<Longrightarrow> ascii s"
proof -
  have "byte c < 0x80" if "is_digit c" for c
  proof -
    have "(of_char c :: nat) \<le> 57" using that by (simp add: is_digit_def in_range_def)
    moreover have "byte c = int (of_char c)" by (simp add: byte_def of_nat_of_char)
    ultimately show ?thesis by linarith
  qed
  then show "list_all is_digit s \<Longrightarrow> ?thesis" by (auto simp: list_all_iff ascii_def)
qed

lemma byte_char: "byte CHR ''.'' < 128" "byte CHR '':'' < 128" "byte CHR ''-'' < 128" "byte CHR ''T'' < 128" "byte CHR ''Z'' < 128"
  by (simp_all add: byte_def)

lemma month_lengths_le: "1 \<le> m \<Longrightarrow> m \<le> 12 \<Longrightarrow> month_lengths y ! nat (m - 1) \<le> 31"
proof -
  have "list_all (\<lambda>l. l \<le> 31) (month_lengths y)" by (simp add: month_lengths_def)
  then show "1 \<le> m \<Longrightarrow> m \<le> 12 \<Longrightarrow> ?thesis" by (auto simp: list_all_length month_lengths_pos)
qed

lemma json_time_digits:
  assumes "json_time t" "civil_date (day_number t) = (y, m, d)"
  shows "list_all is_digit (pad_int 4 y)" "list_all is_digit (pad_int 2 m)" "list_all is_digit (pad_int 2 d)"
proof -
  have y: "0 \<le> y" "y \<le> 9999" using assms by (simp_all add: json_time_def)
  have m: "1 \<le> m" "m \<le> 12" "1 \<le> d" "d \<le> month_lengths y ! nat (m - 1)" using civil_date_inverse [OF assms(2)] by simp_all
  have "month_lengths y ! nat (m - 1) \<le> 31" using month_lengths_le m(1,2) by blast
  with m have "d \<le> 31" by simp
  with y m show "list_all is_digit (pad_int 4 y)" "list_all is_digit (pad_int 2 m)" "list_all is_digit (pad_int 2 d)"
    by (simp_all add: pad_int_decimal)
qed

lemma frac_text_ascii: "ascii (frac_text v 9)"
proof -
  have "set (dropWhile P xs) \<subseteq> set xs" for P and xs :: string by (meson set_dropWhileD subsetI)
  moreover have "list_all is_digit (pad_int 9 (v mod 10 ^ 9))" by (simp add: pad_int_decimal)
  then have "ascii (pad_int 9 (v mod 10 ^ 9))" by (rule digits_ascii)
  ultimately have "ascii (rev (dropWhile (\<lambda>c. c = CHR ''0'') (rev (pad_int 9 (v mod 10 ^ 9)))))"
    unfolding ascii_def list_all_iff by (metis set_rev subsetD)
  then show ?thesis by (simp add: frac_text_def Let_def byte_char)
qed

lemma clock_text_ascii: "0 \<le> s \<Longrightarrow> s < 86400 \<Longrightarrow> ascii (clock_text s)"
proof -
  assume s: "0 \<le> s" "s < 86400"
  then have "s div 3600 < 100" "s mod 3600 div 60 < 100" "s mod 60 < 100" by auto
  with s have "list_all is_digit (pad_int 2 (s div 3600))" "list_all is_digit (pad_int 2 (s mod 3600 div 60))" "list_all is_digit (pad_int 2 (s mod 60))"
    by (auto intro!: pad_int_decimal simp: pos_imp_zdiv_nonneg_iff)
  then show ?thesis by (simp add: clock_text_def digits_ascii byte_char)
qed

lemma rfc3339nano_valid: "json_time t \<Longrightarrow> valid_utf8 (rfc3339nano t)"
proof -
  assume t: "json_time t"
  obtain y m d where ymd: "civil_date (day_number t) = (y, m, d)" by (metis surj_pair)
  have "0 \<le> t mod (24 * hour) div second" "t mod (24 * hour) div second < 86400"
    by (auto simp: duration_defs pos_imp_zdiv_nonneg_iff)
  with json_time_digits [OF t ymd] frac_text_ascii clock_text_ascii show ?thesis
    by (intro ascii_valid) (simp add: rfc3339nano_def date_text_def ymd digits_ascii byte_char)
qed

lemma writable_time [simp]: "json_time t \<Longrightarrow> writable d (time_json t)"
  by (simp add: time_json_def rfc3339nano_valid)

lemma writable_strings: "list_all valid_utf8 xs \<Longrightarrow> d < max_nesting \<Longrightarrow> writable d (strings_json xs)"
  by (simp add: strings_json_def list_all_iff)

lemma writable_map:
  assumes "d < max_nesting" "\<And>k v. fmlookup m k = Some v \<Longrightarrow> valid_utf8 k \<and> writable (Suc d) (f v)"
  shows "writable d (map_json f m)"
  using assms by (auto simp: map_json_def list_all_iff set_fm_items)

lemma writable_bytes: "writable d (JStr (encode64 std64 True b))"
  using encode64_chars [OF alphabets(1)] by (auto intro!: ascii_valid simp: ascii_def list_all_iff)


section \<open>Fields read back what was written\<close>

named_theorems json_fields \<open>a field reader on what the encoder wrote for the field\<close>

lemma str_field_write [json_fields]: "str_field upd (JStr s) r = Some (upd s r)"
  by (simp add: str_field_def)

lemma bool_field_write [json_fields]: "bool_field upd (JBool b) r = Some (upd b r)"
  by (simp add: bool_field_def)

lemma time_field_write [json_fields]: "json_time t \<Longrightarrow> time_field upd (time_json t) r = Some (upd t r)"
  using rfc3339nano_roundtrip [of t] by (simp add: time_field_def time_json_def json_time_def Let_def)

lemma uint64_field_write [json_fields]: "uint64_field upd (uint_json n) r = Some (upd n r)"
proof -
  have "uint n < 2 ^ 64" using uint_lt2p [of n] by simp
  then show ?thesis
    using show_pos_decimal [of "uint n"] by (simp add: uint64_field_def uint_json_def show_int_def)
qed

lemma bytes_field_write [json_fields]: "bytes_field upd (JStr (encode64 std64 True b)) r = Some (upd b r)"
  by (simp add: bytes_field_def decode64_encode64 alphabets)

lemma read_string_write [json_fields]: "read_string (JStr s) = Some s"
  by (simp add: read_string_def)

lemma read_strings_write [json_fields]: "read_strings (strings_json xs) = Some xs"
proof -
  have "those (map (\<lambda>x. Some x) xs) = Some xs" by (induction xs) simp_all
  then show ?thesis by (simp add: read_strings_def strings_json_def comp_def json_fields)
qed

lemma read_entries_write:
  assumes "\<And>v. rd (f v) = Some v" "distinct (map fst xs)"
  shows "\<exists>m'. read_entries rd (map (\<lambda>(k, v). (k, f v)) xs) m = Some m'
    \<and> (\<forall>k. fmlookup m' k = (case map_of xs k of Some v \<Rightarrow> Some v | None \<Rightarrow> fmlookup m k))"
  using assms(2)
proof (induction xs arbitrary: m)
  case (Cons x xs)
  obtain k v where x: "x = (k, v)" by fastforce
  from Cons x obtain m' where m': "read_entries rd (map (\<lambda>(k, v). (k, f v)) xs) (fmupd k v m) = Some m'"
    "\<forall>j. fmlookup m' j = (case map_of xs j of Some v \<Rightarrow> Some v | None \<Rightarrow> fmlookup (fmupd k v m) j)"
    by fastforce
  moreover have "map_of xs k = None" using Cons.prems x by (auto simp: map_of_eq_None_iff)
  ultimately show ?case using assms(1) x by (auto split: option.splits)
qed simp

lemma map_field_write:
  assumes "\<And>v. rd (f v) = Some v" "get r = fmempty"
  shows "map_field rd get upd (map_json f m) r = Some (upd m r)"
proof -
  obtain m' where m': "read_entries rd (map (\<lambda>(k, v). (k, f v)) (fm_items m)) fmempty = Some m'"
    "\<forall>k. fmlookup m' k = (case map_of (fm_items m) k of Some v \<Rightarrow> Some v | None \<Rightarrow> fmlookup fmempty k)"
    using read_entries_write [of rd f "fm_items m" fmempty] assms(1) by auto
  have "map_of (fm_items m) k = fmlookup m k" for k
    by (cases "fmlookup m k") (auto simp: map_of_eq_None_iff set_fm_items map_of_eq_Some_iff image_iff)
  with m'(2) have "m' = m" by (intro fmap_ext) (simp add: option.case_eq_if)
  with m'(1) assms(2) show ?thesis by (simp add: map_field_def map_json_def)
qed

end
