(* ===== verification/Cursors.thy ===== *)
theory Cursors
  imports Domain Go_Json
begin

text \<open>
  Page cursors of \<open>internal/persistence/reader.go\<close>: a sort key and a tie-breaker as JSON text in
  base 64. \<open>json.Marshal\<close> refuses a time whose year does not have four digits; the code ignores that
  error, and the cursor is then the empty text.
\<close>

record cursor =
  cu_T :: gotime
  cu_ID :: string

definition cursor_fields :: "cursor field list" where
  "cursor_fields =
     [(''t'', time_field (\<lambda>t c. c\<lparr>cu_T := t\<rparr>)),
      (''id'', str_field (\<lambda>i c. c\<lparr>cu_ID := i\<rparr>))]"

definition EncodeCursor :: "gotime \<Rightarrow> string \<Rightarrow> string" where
  "EncodeCursor t i =
     (let b = if json_time t then show_json (JObj [(''t'', time_json t), (''id'', JStr i)]) else []
      in encode64 url64 False b)"

definition DecodeCursor :: "string \<Rightarrow> goerr + gotime \<times> string" where
  "DecodeCursor s =
     (let invalid = Inl (Errorf CategoryValidation ''invalid cursor'') in
      if s = [] then Inr (0, [])
      else case decode64 url64 False s of
        None \<Rightarrow> invalid
      | Some b \<Rightarrow>
          (case Option.bind (parse_json b) (decode_struct False cursor_fields \<lparr>cu_T = 0, cu_ID = []\<rparr>) of
             None \<Rightarrow> invalid
           | Some c \<Rightarrow> if cu_ID c = [] then invalid else Inr (cu_T c, cu_ID c)))"

text \<open>The keys whose cursor carries them.\<close>

definition cursor_key :: "gotime \<times> string \<Rightarrow> bool" where
  "cursor_key k \<longleftrightarrow> json_time (fst k) \<and> valid_utf8 (snd k) \<and> snd k \<noteq> []"

lemma encode64_empty [simp]: "encode64 alph pad s = [] \<longleftrightarrow> s = []"
  by (induction alph pad s rule: encode64.induct) simp_all

lemma EncodeCursor_empty: "EncodeCursor t i = [] \<longleftrightarrow> \<not> json_time t"
  by (simp add: EncodeCursor_def)

lemma cursor_text:
  assumes "cursor_key (t, i)"
  shows "DecodeCursor (EncodeCursor t i) = Inr (t, i)"
proof -
  let ?v = "JObj [(''t'', time_json t), (''id'', JStr i)]"
  have "valid_utf8 ''t''" "valid_utf8 ''id''" by (simp_all add: ascii_valid byte_def)
  then have "writable 0 ?v" using assms by (simp add: cursor_key_def max_nesting_def)
  then have "parse_json (show_json ?v) = Some ?v" by (rule parse_json_show)
  moreover have "decode_struct False cursor_fields \<lparr>cu_T = 0, cu_ID = []\<rparr> ?v = Some \<lparr>cu_T = t, cu_ID = i\<rparr>"
    using assms by (simp add: decode_struct_def cursor_fields_def find_field_def json_fields cursor_key_def)
  moreover have "EncodeCursor t i = encode64 url64 False (show_json ?v)" "EncodeCursor t i \<noteq> []"
    using assms by (simp_all add: EncodeCursor_def cursor_key_def Let_def)
  ultimately show ?thesis
    using assms by (simp add: DecodeCursor_def decode64_encode64 alphabets cursor_key_def Let_def del: show_json.simps)
qed

lemma DecodeCursor_start [simp]: "DecodeCursor [] = Inr (0, [])"
  by (simp add: DecodeCursor_def)

lemma cursor_key_text: "cursor_key k \<Longrightarrow> EncodeCursor (fst k) (snd k) \<noteq> []" "cursor_key k \<Longrightarrow> DecodeCursor (EncodeCursor (fst k) (snd k)) = Inr k"
  using cursor_text [of "fst k" "snd k"] by (simp_all add: EncodeCursor_empty cursor_key_def)

end
