(* ===== verification/Mem_Store.thy ===== *)
theory Mem_Store
  imports Persistence Cursors "HOL-Library.Product_Lexorder"
begin

text \<open>
  The in-memory store of \<open>internal/persistence/memory.go\<close>: its state, the transaction with its undo
  log, the unit of work \<open>Do\<close>, the outbox, the automation tables and the read side with keyset
  pagination (reader.go). Every method holds the store's mutex from start to end, so a method is one
  atomic step on the state. The undo log is a list of functions on the store, run from the last to
  the first when the body of a unit of work fails.
\<close>


section \<open>State\<close>

record outbox_row =
  row_msg :: outbox_message
  row_published :: bool

record mem_store =
  ms_devices :: "(string, device) fmap"
  ms_observation :: "(string, observation) fmap"
  ms_obsOrder :: "string list"
  ms_states :: "(string, state_record) fmap"
  ms_transitions :: "(string, transition) fmap"
  ms_trOrder :: "string list"
  ms_events :: "(string, event) fmap"
  ms_evOrder :: "string list"
  ms_alerts :: "alert list"
  ms_outbox :: "outbox_row list"
  ms_nextOutbox :: int
  ms_autoReq :: "(string, automation_request) fmap"
  ms_autoOrder :: "string list"
  ms_autoRes :: "(string, automation_result) fmap"
  ms_autoClaim :: "(string, gotime) fmap"
  ms_failNext :: "goerr option"

definition NewMemStore :: mem_store where
  "NewMemStore =
     \<lparr>ms_devices = fmempty, ms_observation = fmempty, ms_obsOrder = [], ms_states = fmempty,
      ms_transitions = fmempty, ms_trOrder = [], ms_events = fmempty, ms_evOrder = [], ms_alerts = [],
      ms_outbox = [], ms_nextOutbox = 0, ms_autoReq = fmempty, ms_autoOrder = [], ms_autoRes = fmempty,
      ms_autoClaim = fmempty, ms_failNext = None\<rparr>"

definition FailNext :: "goerr option \<Rightarrow> mem_store \<Rightarrow> mem_store" where
  "FailNext err s = s\<lparr>ms_failNext := err\<rparr>"


section \<open>Units of work\<close>

record mem_tx =
  tx_s :: mem_store
  tx_undo :: "(mem_store \<Rightarrow> mem_store) list"

definition rollback :: "mem_tx \<Rightarrow> mem_store" where
  "rollback t = foldr (\<lambda>u s. u s) (tx_undo t) (tx_s t)"

text \<open>
  \<open>ctx\<close> is what \<open>ctx.Err()\<close> returns. The body returns what the Go closure leaves in the variables it
  captures. A panic leaves the store as the body left it.
\<close>

definition Do :: "goerr option \<Rightarrow> (mem_tx, 'a) prog \<Rightarrow> (mem_store, 'a) prog" where
  "Do ctx fn s =
     (case ms_failNext s of
        Some err \<Rightarrow> (Fails err, s\<lparr>ms_failNext := None\<rparr>)
      | None \<Rightarrow>
          (case ctx of
             Some err \<Rightarrow> (Fails (EDomain CategoryTimeout ''memstore'' err), s)
           | None \<Rightarrow>
               (case fn \<lparr>tx_s = s, tx_undo = []\<rparr> of
                  (Done a, t) \<Rightarrow> (Done a, tx_s t)
                | (Fails err, t) \<Rightarrow> (Fails err, rollback t)
                | (Panics, t) \<Rightarrow> (Panics, tx_s t))))"

text \<open>An operation that changes the store and logs how to undo the change.\<close>

definition logged_write :: "(mem_store \<Rightarrow> mem_store) \<Rightarrow> (mem_store \<Rightarrow> mem_store) \<Rightarrow> mem_tx \<Rightarrow> mem_tx" where
  "logged_write change undo t = t\<lparr>tx_s := change (tx_s t), tx_undo := tx_undo t @ [undo]\<rparr>"

definition InsertObservation :: "observation \<Rightarrow> (mem_tx, bool) prog" where
  "InsertObservation ob t =
     (let i = o_ObservationID ob in
      if fmlookup (ms_observation (tx_s t)) i \<noteq> None then (Done False, t)
      else (Done True,
        logged_write
          (\<lambda>s. s\<lparr>ms_observation := fmupd i ob (ms_observation s), ms_obsOrder := ms_obsOrder s @ [i]\<rparr>)
          (\<lambda>s. s\<lparr>ms_observation := fmdrop i (ms_observation s), ms_obsOrder := butlast (ms_obsOrder s)\<rparr>) t))"

definition TouchDevice :: "string \<Rightarrow> gotime \<Rightarrow> (mem_tx, unit) prog" where
  "TouchDevice i tm t =
     (case fmlookup (ms_devices (tx_s t)) i of
        None \<Rightarrow> (Done (), t)
      | Some d \<Rightarrow>
          if \<not> d_LastSeen d < tm then (Done (), t)
          else (Done (),
            logged_write (\<lambda>s. s\<lparr>ms_devices := fmupd i (d\<lparr>d_LastSeen := tm\<rparr>) (ms_devices s)\<rparr>)
                         (\<lambda>s. s\<lparr>ms_devices := fmupd i d (ms_devices s)\<rparr>) t))"

definition sample_of :: "observation \<Rightarrow> sample option" where
  "sample_of ob = map_option (\<lambda>f. \<lparr>smp_At = o_ObservedAt ob, smp_Num = f, smp_Bool = Bool_of ob\<rparr>) (Float ob)"

definition observations_in_order :: "mem_store \<Rightarrow> observation list" where
  "observations_in_order s = List.map_filter (fmlookup (ms_observation s)) (ms_obsOrder s)"

definition Samples :: "string \<Rightarrow> string \<Rightarrow> string \<Rightarrow> gotime \<Rightarrow> gotime \<Rightarrow> (mem_tx, sample list) prog" where
  "Samples deviceID metric labelsKey from to t =
     (Done (sort_key smp_At (List.map_filter
        (\<lambda>ob. if o_DeviceID ob \<noteq> deviceID \<or> o_Metric ob \<noteq> metric \<or> LabelsKey (o_Labels ob) \<noteq> labelsKey then None
              else if \<not> from < o_ObservedAt ob \<or> to < o_ObservedAt ob then None
              else sample_of ob)
        (observations_in_order (tx_s t)))), t)"

definition GetState :: "string \<Rightarrow> (mem_tx, state_record option) prog" where
  "GetState key t = (Done (fmlookup (ms_states (tx_s t)) key), t)"

definition PutState :: "state_record \<Rightarrow> (mem_tx, unit) prog" where
  "PutState r t =
     (let old = fmlookup (ms_states (tx_s t)) (r_Key r) in
      (Done (),
       logged_write (\<lambda>s. s\<lparr>ms_states := fmupd (r_Key r) r (ms_states s)\<rparr>)
         (case old of
            Some o' \<Rightarrow> \<lambda>s. s\<lparr>ms_states := fmupd (r_Key r) o' (ms_states s)\<rparr>
          | None \<Rightarrow> \<lambda>s. s\<lparr>ms_states := fmdrop (r_Key r) (ms_states s)\<rparr>) t))"

definition InsertTransition :: "transition \<Rightarrow> (mem_tx, unit) prog" where
  "InsertTransition tr t =
     (let i = t_TransitionID tr in
      if fmlookup (ms_transitions (tx_s t)) i \<noteq> None then (Done (), t)
      else (Done (),
        logged_write
          (\<lambda>s. s\<lparr>ms_transitions := fmupd i tr (ms_transitions s), ms_trOrder := ms_trOrder s @ [i]\<rparr>)
          (\<lambda>s. s\<lparr>ms_transitions := fmdrop i (ms_transitions s), ms_trOrder := butlast (ms_trOrder s)\<rparr>) t))"

definition InsertEvent :: "event \<Rightarrow> (mem_tx, bool) prog" where
  "InsertEvent e t =
     (let i = e_EventID e in
      if fmlookup (ms_events (tx_s t)) i \<noteq> None then (Done False, t)
      else (Done True,
        logged_write
          (\<lambda>s. s\<lparr>ms_events := fmupd i e (ms_events s), ms_evOrder := ms_evOrder s @ [i]\<rparr>)
          (\<lambda>s. s\<lparr>ms_events := fmdrop i (ms_events s), ms_evOrder := butlast (ms_evOrder s)\<rparr>) t))"

definition firing_for :: "string \<Rightarrow> alert \<Rightarrow> bool" where
  "firing_for key a \<longleftrightarrow> a_AlertKey a = key \<and> a_Status a = AlertFiring"

definition alert_of :: "event \<Rightarrow> alert" where
  "alert_of e =
     \<lparr>a_AlertKey = e_AlertKey e, a_DeviceID = e_DeviceID e, a_Source = e_Source e, a_Severity = e_Severity e,
      a_Status = AlertFiring, a_Summary = e_Message e, a_Labels = e_Labels e, a_OpenEventID = e_EventID e,
      a_OpenedAt = e_OccurredAt e, a_ResolvedAt = 0\<rparr>"

definition OpenAlert :: "event \<Rightarrow> (mem_tx, bool) prog" where
  "OpenAlert e t =
     (if list_ex (firing_for (e_AlertKey e)) (ms_alerts (tx_s t)) then (Done False, t)
      else (Done True,
        logged_write (\<lambda>s. s\<lparr>ms_alerts := ms_alerts s @ [alert_of e]\<rparr>)
                     (\<lambda>s. s\<lparr>ms_alerts := butlast (ms_alerts s)\<rparr>) t))"

definition ResolveAlert :: "event \<Rightarrow> (mem_tx, bool) prog" where
  "ResolveAlert e t =
     (case find_index (firing_for (e_AlertKey e)) (ms_alerts (tx_s t)) of
        None \<Rightarrow> (Done False, t)
      | Some i \<Rightarrow>
          (let old = ms_alerts (tx_s t) ! i in
           (Done True,
            logged_write
              (\<lambda>s. s\<lparr>ms_alerts := (ms_alerts s)[i := old\<lparr>a_Status := AlertResolved, a_ResolvedAt := e_OccurredAt e\<rparr>]\<rparr>)
              (\<lambda>s. s\<lparr>ms_alerts := (ms_alerts s)[i := old]\<rparr>) t)))"

definition Enqueue :: "outbox_message \<Rightarrow> (mem_tx, unit) prog" where
  "Enqueue m t =
     (Done (),
      logged_write
        (\<lambda>s. s\<lparr>ms_nextOutbox := ms_nextOutbox s + 1,
               ms_outbox := ms_outbox s @ [\<lparr>row_msg = m\<lparr>om_ID := ms_nextOutbox s + 1\<rparr>, row_published = False\<rparr>]\<rparr>)
        (\<lambda>s. s\<lparr>ms_outbox := butlast (ms_outbox s), ms_nextOutbox := ms_nextOutbox s - 1\<rparr>) t)"

definition memTx :: "mem_tx txops" where
  "memTx = \<lparr>tx_InsertObservation = InsertObservation, tx_TouchDevice = TouchDevice, tx_Samples = Samples,
            tx_GetState = GetState, tx_PutState = PutState, tx_InsertTransition = InsertTransition,
            tx_InsertEvent = InsertEvent, tx_OpenAlert = OpenAlert, tx_ResolveAlert = ResolveAlert,
            tx_Enqueue = Enqueue\<rparr>"


section \<open>Devices, series and states\<close>

definition UpsertDevices :: "device list \<Rightarrow> mem_store \<Rightarrow> mem_store" where
  "UpsertDevices devices s =
     fold (\<lambda>d s. let d' = (case fmlookup (ms_devices s) (d_ID d) of
                             Some old \<Rightarrow> d\<lparr>d_LastSeen := d_LastSeen old\<rparr> | None \<Rightarrow> d)
                 in s\<lparr>ms_devices := fmupd (d_ID d) d' (ms_devices s)\<rparr>) devices s"

definition UpdateDeviceAttributes :: "string \<Rightarrow> strmap \<Rightarrow> mem_store \<Rightarrow> mem_store" where
  "UpdateDeviceAttributes i attrs s =
     (case fmlookup (ms_devices s) i of
        None \<Rightarrow> s
      | Some d \<Rightarrow> s\<lparr>ms_devices := fmupd i (d\<lparr>d_Attributes := merge_maps (d_Attributes d) attrs\<rparr>) (ms_devices s)\<rparr>)"

definition ListDevices :: "mem_store \<Rightarrow> device list" where
  "ListDevices s = sort_key d_ID (map snd (fm_items (ms_devices s)))"

text \<open>\<open>labels\<close> is \<open>None\<close> for the nil map, which matches every label set.\<close>

definition Latest :: "string \<Rightarrow> string \<Rightarrow> strmap option \<Rightarrow> mem_store \<Rightarrow> observation option" where
  "Latest deviceID metric labels s =
     fold (\<lambda>ob best.
        if o_DeviceID ob \<noteq> deviceID \<or> o_Metric ob \<noteq> metric then best
        else if (case labels of Some ls \<Rightarrow> LabelsKey (o_Labels ob) \<noteq> LabelsKey ls | None \<Rightarrow> False) then best
        else (case best of
                None \<Rightarrow> Some ob
              | Some b \<Rightarrow> if o_ObservedAt b < o_ObservedAt ob then Some ob else best))
       (observations_in_order s) None"

definition ListStates :: "mem_store \<Rightarrow> state_record list" where
  "ListStates s = sort_key r_Key (map snd (fm_items (ms_states s)))"

definition DeviceStates :: "string \<Rightarrow> mem_store \<Rightarrow> state_record list" where
  "DeviceStates deviceID s =
     sort_key r_Key (filter (\<lambda>r. r_DeviceID r = deviceID) (map snd (fm_items (ms_states s))))"


section \<open>The outbox\<close>

text \<open>
  The scan for a batch: the indices and messages of the first unpublished rows, stopping when the
  batch has \<open>limit\<close> messages. A limit of zero or less never matches the size of a batch that has just
  grown, so it does not stop the scan.
\<close>

fun take_pending :: "int \<Rightarrow> nat \<Rightarrow> outbox_row list \<Rightarrow> (nat \<times> outbox_message) list \<Rightarrow> (nat \<times> outbox_message) list" where
  "take_pending limit i [] batch = batch"
| "take_pending limit i (r # rows) batch =
     (if row_published r then take_pending limit (Suc i) rows batch
      else let batch' = batch @ [(i, row_msg r)]
           in if int (length batch') = limit then batch' else take_pending limit (Suc i) rows batch')"

definition mark_published :: "nat list \<Rightarrow> outbox_row list \<Rightarrow> outbox_row list" where
  "mark_published idx rows = fold (\<lambda>i rs. rs[i := (rs ! i)\<lparr>row_published := True\<rparr>]) idx rows"

text \<open>
  \<open>publish\<close> acts on the world \<open>'w\<close> outside the store: the messaging client. It returns its error,
  if any.
\<close>

definition DrainOutbox ::
    "int \<Rightarrow> (outbox_message list \<Rightarrow> 'w \<Rightarrow> goerr option \<times> 'w) \<Rightarrow> mem_store \<times> 'w \<Rightarrow> (int \<times> goerr option) \<times> mem_store \<times> 'w" where
  "DrainOutbox limit publish = (\<lambda>(s, w).
     (let batch = take_pending limit 0 (ms_outbox s) []
      in if batch = [] then ((0, None), s, w)
         else (case publish (map snd batch) w of
                 (Some err, w') \<Rightarrow> ((0, Some err), s, w')
               | (None, w') \<Rightarrow>
                   ((int (length batch), None), s\<lparr>ms_outbox := mark_published (map fst batch) (ms_outbox s)\<rparr>, w'))))"

definition enqueueLocked :: "outbox_message list \<Rightarrow> mem_store \<Rightarrow> mem_store" where
  "enqueueLocked msgs s =
     fold (\<lambda>m s. s\<lparr>ms_nextOutbox := ms_nextOutbox s + 1,
                   ms_outbox := ms_outbox s @ [\<lparr>row_msg = m\<lparr>om_ID := ms_nextOutbox s + 1\<rparr>, row_published = False\<rparr>]\<rparr>)
          msgs s"


section \<open>Automation\<close>

definition InsertAutomationRequest :: "automation_request \<Rightarrow> outbox_message list \<Rightarrow> mem_store \<Rightarrow> bool \<times> mem_store" where
  "InsertAutomationRequest req outbox s =
     (if fmlookup (ms_autoReq s) (q_RequestID req) \<noteq> None then (False, s)
      else (True, enqueueLocked outbox
              (s\<lparr>ms_autoReq := fmupd (q_RequestID req) req (ms_autoReq s),
                 ms_autoOrder := ms_autoOrder s @ [q_RequestID req]\<rparr>)))"

definition claim_time :: "mem_store \<Rightarrow> string \<Rightarrow> gotime" where
  "claim_time s i = (case fmlookup (ms_autoClaim s) i of Some c \<Rightarrow> c | None \<Rightarrow> 0)"

definition requests_in_order :: "mem_store \<Rightarrow> automation_request list" where
  "requests_in_order s = List.map_filter (fmlookup (ms_autoReq s)) (ms_autoOrder s)"

definition is_due :: "mem_store \<Rightarrow> gotime \<Rightarrow> duration \<Rightarrow> automation_request \<Rightarrow> bool" where
  "is_due s now lease r =
     (case q_Status r of
        AutomationPending \<Rightarrow> \<not> now < q_NotBefore r
      | AutomationApproved \<Rightarrow> True
      | AutomationExecuting \<Rightarrow> claim_time s (q_RequestID r) + lease < now
      | _ \<Rightarrow> False)"

text \<open>The scan stops when \<open>limit\<close> requests are collected; a limit of zero or less never stops it.\<close>

definition DueAutomation :: "gotime \<Rightarrow> duration \<Rightarrow> int \<Rightarrow> mem_store \<Rightarrow> automation_request list" where
  "DueAutomation now lease limit s =
     (let due = filter (is_due s now lease) (requests_in_order s)
      in if limit \<le> 0 then due else take (nat limit) due)"

definition claimable :: "mem_store \<Rightarrow> gotime \<Rightarrow> duration \<Rightarrow> string \<Rightarrow> automation_request \<Rightarrow> bool" where
  "claimable s now lease i r \<longleftrightarrow>
     q_Status r = AutomationPending \<or> q_Status r = AutomationApproved
   \<or> (q_Status r = AutomationExecuting \<and> claim_time s i + lease < now)"

definition ClaimAutomation :: "string \<Rightarrow> gotime \<Rightarrow> duration \<Rightarrow> mem_store \<Rightarrow> bool \<times> mem_store" where
  "ClaimAutomation i now lease s =
     (case fmlookup (ms_autoReq s) i of
        None \<Rightarrow> (False, s)
      | Some r \<Rightarrow>
          if \<not> claimable s now lease i r then (False, s)
          else (True, s\<lparr>ms_autoReq := fmupd i (r\<lparr>q_Status := AutomationExecuting\<rparr>) (ms_autoReq s),
                        ms_autoClaim := fmupd i now (ms_autoClaim s)\<rparr>))"

definition SetAutomationStatus ::
    "string \<Rightarrow> automation_status list \<Rightarrow> automation_status \<Rightarrow> mem_store \<Rightarrow> bool \<times> mem_store" where
  "SetAutomationStatus i from to s =
     (case fmlookup (ms_autoReq s) i of
        None \<Rightarrow> (False, s)
      | Some r \<Rightarrow>
          if q_Status r \<in> set from
          then (True, s\<lparr>ms_autoReq := fmupd i (r\<lparr>q_Status := to\<rparr>) (ms_autoReq s)\<rparr>)
          else (False, s))"

definition ApproveAutomation :: "string \<Rightarrow> string \<Rightarrow> mem_store \<Rightarrow> bool \<times> mem_store" where
  "ApproveAutomation i by_whom s =
     (case fmlookup (ms_autoReq s) i of
        None \<Rightarrow> (False, s)
      | Some r \<Rightarrow>
          if q_Status r \<noteq> AutomationAwaitingApproval then (False, s)
          else (True, s\<lparr>ms_autoReq :=
                  fmupd i (r\<lparr>q_Status := AutomationApproved, q_ApprovedBy := by_whom\<rparr>) (ms_autoReq s)\<rparr>))"

definition CompleteAutomation ::
    "automation_result \<Rightarrow> outbox_message list \<Rightarrow> mem_store \<Rightarrow> (goerr + bool) \<times> mem_store" where
  "CompleteAutomation res outbox s =
     (case fmlookup (ms_autoReq s) (u_RequestID res) of
        None \<Rightarrow> (Inl (Errorf CategoryPermanent (''unknown automation request '' @ u_RequestID res)), s)
      | Some r \<Rightarrow>
          if fmlookup (ms_autoRes s) (u_RequestID res) \<noteq> None then (Inr False, s)
          else (Inr True, enqueueLocked outbox
                  (s\<lparr>ms_autoRes := fmupd (u_RequestID res) res (ms_autoRes s),
                     ms_autoReq := fmupd (u_RequestID res) (r\<lparr>q_Status := u_Status res\<rparr>) (ms_autoReq s)\<rparr>)))"

definition AwaitingApprovalBefore :: "gotime \<Rightarrow> mem_store \<Rightarrow> automation_request list" where
  "AwaitingApprovalBefore cutoff s =
     filter (\<lambda>r. q_Status r = AutomationAwaitingApproval \<and> q_CreatedAt r < cutoff) (requests_in_order s)"

definition executed :: "automation_status \<Rightarrow> bool" where
  "executed st \<longleftrightarrow> st = AutomationSucceeded \<or> st = AutomationFailed \<or> st = AutomationDryRun"

definition AutomationHistory :: "string \<Rightarrow> string \<Rightarrow> string \<Rightarrow> gotime \<Rightarrow> mem_store \<Rightarrow> automation_request list" where
  "AutomationHistory policyID deviceID target since s =
     filter (\<lambda>r. q_PolicyID r = policyID \<and> q_DeviceID r = deviceID \<and> q_Target r = target
                \<and> executed (q_Status r)
                \<and> (case fmlookup (ms_autoRes s) (q_RequestID r) of
                     Some res \<Rightarrow> \<not> u_FinishedAt res < since | None \<Rightarrow> False))
       (requests_in_order s)"

definition AttemptsForAlert :: "string \<Rightarrow> string \<Rightarrow> mem_store \<Rightarrow> int" where
  "AttemptsForAlert policyID alertKey s =
     int (length (filter (\<lambda>(i, r). q_PolicyID r = policyID \<and> q_AlertKey r = alertKey \<and> executed (q_Status r))
            (fm_items (ms_autoReq s))))"

definition AlertFiring_for :: "string \<Rightarrow> mem_store \<Rightarrow> bool" where
  "AlertFiring_for alertKey s = list_ex (firing_for alertKey) (ms_alerts s)"

definition GetAutomation :: "string \<Rightarrow> mem_store \<Rightarrow> (automation_request \<times> automation_result option) option" where
  "GetAutomation i s =
     map_option (\<lambda>r. (r, fmlookup (ms_autoRes s) i)) (fmlookup (ms_autoReq s) i)"


section \<open>The read side\<close>

record page =
  pg_Limit :: int
  pg_Cursor :: string

definition clampLimit :: "int \<Rightarrow> int" where
  "clampLimit n = (if n \<le> 0 then 50 else if 1000 < n then 1000 else n)"

text \<open>The loop of \<open>pageOf\<close>: it collects at most one item more than the limit.\<close>

definition pageOf :: "'a list \<Rightarrow> ('a \<Rightarrow> gotime \<times> string) \<Rightarrow> page \<Rightarrow> goerr + 'a list \<times> string" where
  "pageOf items key p =
     (case DecodeCursor (pg_Cursor p) of
        Inl e \<Rightarrow> Inl e
      | Inr (ct, cid) \<Rightarrow>
          (let limit = nat (clampLimit (pg_Limit p));
               found = take (limit + 1)
                 (filter (\<lambda>it. \<not> (pg_Cursor p \<noteq> []
                                 \<and> \<not> (fst (key it) < ct \<or> (fst (key it) = ct \<and> snd (key it) < cid)))) items)
           in if limit < length found
              then (let out = take limit found; (t, i) = key (last out) in Inr (out, EncodeCursor t i))
              else Inr (found, [])))"

text \<open>A stable descending sort.\<close>

definition sort_desc :: "('a \<Rightarrow> 'k :: linorder) \<Rightarrow> 'a list \<Rightarrow> 'a list" where
  "sort_desc k xs = rev (sort_key k (rev xs))"

record event_filter =
  ef_DeviceID :: string
  ef_Type :: string
  ef_MinSeverity :: "severity option"
  ef_Since :: gotime
  ef_Until :: gotime

record alert_filter =
  af_Status :: "alert_status option"
  af_DeviceID :: string

record automation_filter =
  uf_Status :: "automation_status option"
  uf_DeviceID :: string
  uf_PolicyID :: string

record metric_point =
  mp_ObservationID :: string
  mp_Metric :: string
  mp_Value :: goval
  mp_Labels :: strmap
  mp_ObservedAt :: gotime

definition event_matches :: "event_filter \<Rightarrow> event \<Rightarrow> bool" where
  "event_matches f e \<longleftrightarrow>
     \<not> ((ef_DeviceID f \<noteq> [] \<and> e_DeviceID e \<noteq> ef_DeviceID f)
      \<or> (ef_Type f \<noteq> [] \<and> e_Type e \<noteq> ef_Type f)
      \<or> (case ef_MinSeverity f of Some m \<Rightarrow> Rank (e_Severity e) < Rank m | None \<Rightarrow> False)
      \<or> (ef_Since f \<noteq> 0 \<and> e_OccurredAt e < ef_Since f)
      \<or> (ef_Until f \<noteq> 0 \<and> \<not> e_OccurredAt e < ef_Until f))"

definition event_key :: "event \<Rightarrow> gotime \<times> string" where
  "event_key e = (e_OccurredAt e, e_EventID e)"

definition ListEvents :: "event_filter \<Rightarrow> page \<Rightarrow> mem_store \<Rightarrow> goerr + event list \<times> string" where
  "ListEvents f p s =
     pageOf (sort_desc event_key (filter (event_matches f) (List.map_filter (fmlookup (ms_events s)) (ms_evOrder s))))
       event_key p"

definition alert_key :: "alert \<Rightarrow> gotime \<times> string" where
  "alert_key a = (a_OpenedAt a, a_OpenEventID a)"

definition ListAlerts :: "alert_filter \<Rightarrow> page \<Rightarrow> mem_store \<Rightarrow> goerr + alert list \<times> string" where
  "ListAlerts f p s =
     pageOf (sort_desc alert_key
        (filter (\<lambda>a. \<not> ((case af_Status f of Some st \<Rightarrow> a_Status a \<noteq> st | None \<Rightarrow> False)
                       \<or> (af_DeviceID f \<noteq> [] \<and> a_DeviceID a \<noteq> af_DeviceID f))) (ms_alerts s)))
       alert_key p"

definition view_key :: "automation_request \<times> automation_result option \<Rightarrow> gotime \<times> string" where
  "view_key v = (q_CreatedAt (fst v), q_RequestID (fst v))"

definition ListAutomation ::
    "automation_filter \<Rightarrow> page \<Rightarrow> mem_store \<Rightarrow> goerr + (automation_request \<times> automation_result option) list \<times> string" where
  "ListAutomation f p s =
     pageOf (sort_desc view_key
        (map (\<lambda>r. (r, fmlookup (ms_autoRes s) (q_RequestID r)))
           (filter (\<lambda>r. \<not> ((case uf_Status f of Some st \<Rightarrow> q_Status r \<noteq> st | None \<Rightarrow> False)
                          \<or> (uf_DeviceID f \<noteq> [] \<and> q_DeviceID r \<noteq> uf_DeviceID f)
                          \<or> (uf_PolicyID f \<noteq> [] \<and> q_PolicyID r \<noteq> uf_PolicyID f))) (requests_in_order s))))
       view_key p"

definition metric_point_of :: "observation \<Rightarrow> metric_point" where
  "metric_point_of ob = \<lparr>mp_ObservationID = o_ObservationID ob, mp_Metric = o_Metric ob, mp_Value = o_Value ob,
                         mp_Labels = o_Labels ob, mp_ObservedAt = o_ObservedAt ob\<rparr>"

definition Metrics :: "string \<Rightarrow> string \<Rightarrow> gotime \<Rightarrow> gotime \<Rightarrow> int \<Rightarrow> mem_store \<Rightarrow> metric_point list" where
  "Metrics deviceID metric since until limit s =
     take (nat (clampLimit limit)) (sort_desc mp_ObservedAt (map metric_point_of
       (filter (\<lambda>ob. \<not> (o_DeviceID ob \<noteq> deviceID \<or> o_Metric ob \<noteq> metric
                       \<or> (since \<noteq> 0 \<and> o_ObservedAt ob < since) \<or> (until \<noteq> 0 \<and> \<not> o_ObservedAt ob < until)))
         (observations_in_order s))))"

definition series_key :: "string \<Rightarrow> strmap \<Rightarrow> string" where
  "series_key metric labels = metric @ ''|'' @ LabelsKey labels"

definition latest_points :: "string \<Rightarrow> observation list \<Rightarrow> (string, metric_point) fmap" where
  "latest_points deviceID obs =
     fold (\<lambda>ob best.
        if o_DeviceID ob \<noteq> deviceID then best
        else let k = series_key (o_Metric ob) (o_Labels ob)
             in (case fmlookup best k of
                   None \<Rightarrow> fmupd k (metric_point_of ob) best
                 | Some cur \<Rightarrow> if mp_ObservedAt cur < o_ObservedAt ob then fmupd k (metric_point_of ob) best else best))
       obs fmempty"

definition LatestMetrics :: "string \<Rightarrow> mem_store \<Rightarrow> metric_point list" where
  "LatestMetrics deviceID s =
     sort_key (\<lambda>p. (mp_Metric p, LabelsKey (mp_Labels p)))
       (map snd (fm_items (latest_points deviceID (observations_in_order s))))"


section \<open>Rolling back\<close>

lemma rollback_logged_write [simp]:
  "undo (change (tx_s t)) = tx_s t \<Longrightarrow> rollback (logged_write change undo t) = rollback t"
  by (simp add: rollback_def logged_write_def)

lemma tx_s_logged_write [simp]: "tx_s (logged_write change undo t) = change (tx_s t)"
  by (simp add: logged_write_def)

lemma memTx_sel [simp]:
  "tx_InsertObservation memTx = InsertObservation" "tx_TouchDevice memTx = TouchDevice" "tx_Samples memTx = Samples"
  "tx_GetState memTx = GetState" "tx_PutState memTx = PutState" "tx_InsertTransition memTx = InsertTransition"
  "tx_InsertEvent memTx = InsertEvent" "tx_OpenAlert memTx = OpenAlert" "tx_ResolveAlert memTx = ResolveAlert"
  "tx_Enqueue memTx = Enqueue"
  by (simp_all add: memTx_def)

lemmas memTx_ops = InsertObservation_def TouchDevice_def Samples_def GetState_def PutState_def InsertTransition_def
  InsertEvent_def OpenAlert_def ResolveAlert_def Enqueue_def

text \<open>Every operation logs an undo that restores exactly what it changed.\<close>

lemma memTx_undoable: "tx_invariant memTx (\<lambda>t. rollback t = s0)"
  by unfold_locales
     (auto simp: keeps_def memTx_ops Let_def list_update_same_conv split: option.splits)

interpretation undo: tx_invariant memTx "\<lambda>t. rollback t = s0" for s0
  by (rule memTx_undoable)

lemma Do_rolls_back:
  assumes "\<And>s0. keeps (\<lambda>t. rollback t = s0) body" "Do ctx body s = (Fails e, s')"
  shows "s' = s\<lparr>ms_failNext := ms_failNext s'\<rparr>"
proof -
  have "rollback (snd (body \<lparr>tx_s = s, tx_undo = []\<rparr>)) = s"
    using assms(1) [of s] by (auto simp: keeps_def rollback_def)
  with assms(2) show ?thesis
    by (auto simp: Do_def split: option.splits prod.splits outcome.splits)
qed

section \<open>Invariant of the store\<close>

definition indexed :: "string list \<Rightarrow> (string, 'v) fmap \<Rightarrow> ('v \<Rightarrow> string) \<Rightarrow> bool" where
  "indexed ids m ident \<longleftrightarrow>
     distinct ids \<and> set ids = fset (fmdom m) \<and> (\<forall>k v. fmlookup m k = Some v \<longrightarrow> ident v = k)"

definition alerts_ok :: "alert list \<Rightarrow> bool" where
  "alerts_ok as \<longleftrightarrow> distinct (map a_AlertKey (filter (\<lambda>a. a_Status a = AlertFiring) as))"

definition outbox_ok :: "outbox_row list \<Rightarrow> int \<Rightarrow> bool" where
  "outbox_ok rows n \<longleftrightarrow> 0 \<le> n \<and> map (\<lambda>r. om_ID (row_msg r)) rows = [1..n]"

definition store_inv :: "mem_store \<Rightarrow> bool" where
  "store_inv s \<longleftrightarrow>
     indexed (ms_obsOrder s) (ms_observation s) o_ObservationID
   \<and> indexed (ms_trOrder s) (ms_transitions s) t_TransitionID
   \<and> indexed (ms_evOrder s) (ms_events s) e_EventID
   \<and> indexed (ms_autoOrder s) (ms_autoReq s) q_RequestID
   \<and> fset (fmdom (ms_autoRes s)) \<subseteq> fset (fmdom (ms_autoReq s))
   \<and> (\<forall>k r. fmlookup (ms_states s) k = Some r \<longrightarrow> r_Key r = k)
   \<and> (\<forall>k r. fmlookup (ms_autoRes s) k = Some r \<longrightarrow> u_RequestID r = k)
   \<and> alerts_ok (ms_alerts s) \<and> outbox_ok (ms_outbox s) (ms_nextOutbox s)"

lemma indexed_insert:
  "indexed ids m ident \<Longrightarrow> fmlookup m (ident v) = None \<Longrightarrow> indexed (ids @ [ident v]) (fmupd (ident v) v m) ident"
  by (auto simp: indexed_def fmlookup_dom_iff)

lemma indexed_update:
  "indexed ids m ident \<Longrightarrow> fmlookup m k = Some v \<Longrightarrow> ident w = k \<Longrightarrow> indexed ids (fmupd k w m) ident"
  by (auto simp: indexed_def fmlookup_dom_iff)

lemma indexed_empty [simp]: "indexed [] fmempty ident"
  by (simp add: indexed_def)

lemma alerts_ok_open:
  "alerts_ok as \<Longrightarrow> \<not> list_ex (firing_for (e_AlertKey e)) as \<Longrightarrow> alerts_ok (as @ [alert_of e])"
  by (auto simp: alerts_ok_def alert_of_def firing_for_def list_ex_iff)

lemma alerts_ok_resolve:
  assumes "alerts_ok as" "i < length as"
  shows "alerts_ok (as[i := a\<lparr>a_Status := AlertResolved, a_ResolvedAt := tm\<rparr>])"
proof -
  define b where "b = a\<lparr>a_Status := AlertResolved, a_ResolvedAt := tm\<rparr>"
  obtain xs x ys where "as = xs @ x # ys" "length xs = i" using assms(2) by (metis id_take_nth_drop length_take min.absorb4)
  moreover have "a_Status b \<noteq> AlertFiring" by (simp add: b_def)
  ultimately show ?thesis
    using assms(1) by (auto simp: alerts_ok_def b_def [symmetric] split: if_splits)
qed

lemma outbox_ok_snoc:
  "outbox_ok rows n \<Longrightarrow> outbox_ok (rows @ [\<lparr>row_msg = m\<lparr>om_ID := n + 1\<rparr>, row_published = b\<rparr>]) (n + 1)"
  by (simp add: outbox_ok_def upto_rec2)

lemma store_inv_new [simp]: "store_inv NewMemStore"
  by (simp add: store_inv_def NewMemStore_def alerts_ok_def outbox_ok_def)

lemmas store_inv_rules = indexed_insert indexed_update alerts_ok_open alerts_ok_resolve outbox_ok_snoc

interpretation inv: tx_invariant memTx "\<lambda>t. store_inv (tx_s t)"
  by unfold_locales
     (auto simp: keeps_def memTx_ops Let_def store_inv_def dest!: find_index_SomeD intro!: store_inv_rules split: option.splits)

lemma Do_keeps_inv:
  assumes "\<And>s0. keeps (\<lambda>t. rollback t = s0) body" "keeps (\<lambda>t. store_inv (tx_s t)) body"
    and "store_inv s" "Do ctx body s = (r, s')"
  shows "store_inv s'"
proof (cases r)
  case (Fails e)
  with Do_rolls_back [OF assms(1)] assms(4) have "s' = s\<lparr>ms_failNext := ms_failNext s'\<rparr>" by blast
  then have "store_inv s' = store_inv (s\<lparr>ms_failNext := ms_failNext s'\<rparr>)" by simp
  with assms(3) show ?thesis by (simp add: store_inv_def)
next
  case (Done u)
  with assms show ?thesis
    using keepsD [OF assms(2), of "\<lparr>tx_s = s, tx_undo = []\<rparr>"]
    by (auto simp: Do_def split: option.splits prod.splits outcome.splits)
next
  case Panics
  with assms show ?thesis
    using keepsD [OF assms(2), of "\<lparr>tx_s = s, tx_undo = []\<rparr>"]
    by (auto simp: Do_def split: option.splits prod.splits outcome.splits)
qed

section \<open>Inserts deduplicate\<close>

definition reported :: "('s, bool) prog \<Rightarrow> 's \<Rightarrow> bool \<times> 's" where
  "reported m s = (case m s of (r, s') \<Rightarrow> (r = Done True, s'))"

interpretation obs_insert: dedup_insert "\<lambda>ob. reported (InsertObservation ob)" o_ObservationID
    "\<lambda>t. fset (fmdom (ms_observation (tx_s t)))"
  by unfold_locales
     (auto simp: reported_def InsertObservation_def Let_def fmlookup_dom_iff)

interpretation event_insert: dedup_insert "\<lambda>e. reported (InsertEvent e)" e_EventID
    "\<lambda>t. fset (fmdom (ms_events (tx_s t)))"
  by unfold_locales
     (auto simp: reported_def InsertEvent_def Let_def fmlookup_dom_iff)

lemma enqueueLocked_frame [simp]:
  "ms_autoReq (enqueueLocked msgs s) = ms_autoReq s" "ms_autoRes (enqueueLocked msgs s) = ms_autoRes s"
  "ms_autoOrder (enqueueLocked msgs s) = ms_autoOrder s" "ms_autoClaim (enqueueLocked msgs s) = ms_autoClaim s"
  "ms_alerts (enqueueLocked msgs s) = ms_alerts s" "ms_states (enqueueLocked msgs s) = ms_states s"
  "ms_events (enqueueLocked msgs s) = ms_events s" "ms_evOrder (enqueueLocked msgs s) = ms_evOrder s"
  "ms_observation (enqueueLocked msgs s) = ms_observation s" "ms_obsOrder (enqueueLocked msgs s) = ms_obsOrder s"
  "ms_transitions (enqueueLocked msgs s) = ms_transitions s" "ms_trOrder (enqueueLocked msgs s) = ms_trOrder s"
  "ms_devices (enqueueLocked msgs s) = ms_devices s"
  by (induction msgs arbitrary: s) (simp_all add: enqueueLocked_def)

lemma enqueueLocked_Cons:
  "enqueueLocked (m # msgs) s = enqueueLocked msgs
     (s\<lparr>ms_nextOutbox := ms_nextOutbox s + 1,
        ms_outbox := ms_outbox s @ [\<lparr>row_msg = m\<lparr>om_ID := ms_nextOutbox s + 1\<rparr>, row_published = False\<rparr>]\<rparr>)"
  by (simp add: enqueueLocked_def)

lemma enqueueLocked_Nil [simp]: "enqueueLocked [] s = s"
  by (simp add: enqueueLocked_def)

fun new_rows :: "int \<Rightarrow> outbox_message list \<Rightarrow> outbox_row list" where
  "new_rows n [] = []"
| "new_rows n (m # msgs) = \<lparr>row_msg = m\<lparr>om_ID := n + 1\<rparr>, row_published = False\<rparr> # new_rows (n + 1) msgs"

lemma enqueueLocked_eq:
  "enqueueLocked msgs s = s\<lparr>ms_outbox := ms_outbox s @ new_rows (ms_nextOutbox s) msgs,
                            ms_nextOutbox := ms_nextOutbox s + int (length msgs)\<rparr>"
  by (induction msgs arbitrary: s) (simp_all add: enqueueLocked_Cons)

lemma enqueueLocked_outbox_ok:
  "outbox_ok (ms_outbox s) (ms_nextOutbox s) \<Longrightarrow>
     outbox_ok (ms_outbox (enqueueLocked msgs s)) (ms_nextOutbox (enqueueLocked msgs s))"
proof (induction msgs arbitrary: s)
  case (Cons m msgs)
  show ?case unfolding enqueueLocked_Cons by (rule Cons.IH) (simp add: Cons.prems outbox_ok_snoc)
qed simp

lemma enqueueLocked_inv: "store_inv s \<Longrightarrow> store_inv (enqueueLocked msgs s)"
  by (simp add: store_inv_def enqueueLocked_outbox_ok)

interpretation request_insert: dedup_insert "\<lambda>req. InsertAutomationRequest req msgs" q_RequestID
    "\<lambda>s. fset (fmdom (ms_autoReq s))" for msgs
  by unfold_locales (auto simp: InsertAutomationRequest_def fmlookup_dom_iff)

section \<open>The automation tables keep the invariant\<close>

lemma InsertAutomationRequest_inv:
  "store_inv s \<Longrightarrow> store_inv (snd (InsertAutomationRequest req msgs s))"
  by (auto simp: InsertAutomationRequest_def intro!: enqueueLocked_inv)
     (auto simp: store_inv_def intro!: indexed_insert)

lemma store_inv_set_request:
  assumes "store_inv s" "fmlookup (ms_autoReq s) i = Some r" "q_RequestID w = q_RequestID r"
  shows "store_inv (s\<lparr>ms_autoReq := fmupd i w (ms_autoReq s)\<rparr>)"
proof -
  have "q_RequestID r = i" using assms(1,2) by (auto simp: store_inv_def indexed_def)
  with assms have "indexed (ms_autoOrder s) (fmupd i w (ms_autoReq s)) q_RequestID"
    by (auto simp: store_inv_def intro: indexed_update)
  with assms(1) show ?thesis by (auto simp: store_inv_def)
qed

lemma store_inv_claim [simp]: "store_inv (s\<lparr>ms_autoClaim := c\<rparr>) = store_inv s"
  by (simp add: store_inv_def)

lemma ClaimAutomation_inv: "store_inv s \<Longrightarrow> store_inv (snd (ClaimAutomation i now lease s))"
  by (auto simp: ClaimAutomation_def intro: store_inv_set_request split: option.splits)

lemma SetAutomationStatus_inv: "store_inv s \<Longrightarrow> store_inv (snd (SetAutomationStatus i from to s))"
  by (auto simp: SetAutomationStatus_def intro: store_inv_set_request split: option.splits)

lemma ApproveAutomation_inv: "store_inv s \<Longrightarrow> store_inv (snd (ApproveAutomation i by_whom s))"
  by (auto simp: ApproveAutomation_def intro: store_inv_set_request split: option.splits)

lemma CompleteAutomation_inv:
  assumes "store_inv s"
  shows "store_inv (snd (CompleteAutomation res msgs s))"
proof (cases "fmlookup (ms_autoReq s) (u_RequestID res)")
  case (Some r)
  let ?s = "s\<lparr>ms_autoRes := fmupd (u_RequestID res) res (ms_autoRes s)\<rparr>"
  have "store_inv ?s" using assms Some by (auto simp: store_inv_def fmlookup_dom_iff)
  then have "store_inv (?s\<lparr>ms_autoReq := fmupd (u_RequestID res) (r\<lparr>q_Status := u_Status res\<rparr>) (ms_autoReq ?s)\<rparr>)"
    using Some by (intro store_inv_set_request) auto
  with Some assms show ?thesis by (auto simp: CompleteAutomation_def intro: enqueueLocked_inv)
qed (use assms in \<open>simp add: CompleteAutomation_def\<close>)

lemmas automation_inv = InsertAutomationRequest_inv ClaimAutomation_inv SetAutomationStatus_inv
  ApproveAutomation_inv CompleteAutomation_inv

section \<open>Claims\<close>

text \<open>Workers racing for one request: their claims in the order the mutex admits them.\<close>

fun race :: "string \<Rightarrow> duration \<Rightarrow> gotime list \<Rightarrow> mem_store \<Rightarrow> bool list" where
  "race i lease [] s = []"
| "race i lease (now # nows) s =
     (case ClaimAutomation i now lease s of (won, s') \<Rightarrow> won # race i lease nows s')"

lemma claim_holds:
  assumes "fmlookup (ms_autoReq s) i = Some r" "q_Status r = AutomationExecuting" "now \<le> claim_time s i + lease"
  shows "ClaimAutomation i now lease s = (False, s)"
  using assms by (simp add: ClaimAutomation_def claimable_def)

lemma race_lost:
  assumes "fmlookup (ms_autoReq s) i = Some r" "q_Status r = AutomationExecuting"
    and "\<forall>now \<in> set nows. now \<le> claim_time s i + lease"
  shows "race i lease nows s = replicate (length nows) False"
  using assms by (induction nows) (auto simp: claim_holds)

lemma ClaimAutomation_won:
  assumes "ClaimAutomation i now lease s = (True, s')"
  shows "\<exists>r. fmlookup (ms_autoReq s') i = Some r \<and> q_Status r = AutomationExecuting" "claim_time s' i = now"
  using assms by (auto simp: ClaimAutomation_def claim_time_def split: option.splits if_splits)

section \<open>Results\<close>

lemma CompleteAutomation_first:
  assumes "fmlookup (ms_autoReq s) (u_RequestID res) = Some r" "fmlookup (ms_autoRes s) (u_RequestID res) = None"
  shows "CompleteAutomation res msgs s =
     (Inr True, enqueueLocked msgs
        (s\<lparr>ms_autoRes := fmupd (u_RequestID res) res (ms_autoRes s),
           ms_autoReq := fmupd (u_RequestID res) (r\<lparr>q_Status := u_Status res\<rparr>) (ms_autoReq s)\<rparr>))"
  using assms by (simp add: CompleteAutomation_def)

lemma CompleteAutomation_done:
  assumes "fmlookup (ms_autoReq s) (u_RequestID res) = Some r" "fmlookup (ms_autoRes s) (u_RequestID res) \<noteq> None"
  shows "CompleteAutomation res msgs s = (Inr False, s)"
  using assms by (simp add: CompleteAutomation_def)

section \<open>Draining the outbox\<close>

definition pending :: "outbox_row list \<Rightarrow> outbox_message list" where
  "pending rows = map row_msg (filter (\<lambda>r. \<not> row_published r) rows)"

lemma take_pending_batch:
  assumes "int (length batch) < limit"
  shows "map snd (take_pending limit i rows batch) = map snd batch @ take (nat limit - length batch) (pending rows)"
  using assms
proof (induction limit i rows batch rule: take_pending.induct)
  case (2 limit i r rows batch)
  show ?case
  proof (cases "row_published r")
    case True
    with 2 show ?thesis by (simp add: pending_def)
  next
    case False
    have "length batch < nat limit" using "2.prems" by simp
    then obtain k where k: "nat limit - length batch = Suc k" by (metis Suc_diff_Suc)
    show ?thesis
    proof (cases "int (length (batch @ [(i, row_msg r)])) = limit")
      case True
      then have "nat limit = Suc (length batch)" by simp
      with False True show ?thesis by (simp add: pending_def)
    next
      case neq: False
      with "2.prems" have "int (length (batch @ [(i, row_msg r)])) < limit" by simp
      with 2 False neq have "map snd (take_pending limit (Suc i) rows (batch @ [(i, row_msg r)]))
          = map snd (batch @ [(i, row_msg r)]) @ take (nat limit - length (batch @ [(i, row_msg r)])) (pending rows)"
        by simp
      moreover from k have "nat limit - Suc (length batch) = k" by simp
      ultimately show ?thesis using False neq k by (simp add: pending_def take_Suc)
    qed
  qed
qed (simp add: pending_def)

fun publish_first :: "nat \<Rightarrow> outbox_row list \<Rightarrow> outbox_row list" where
  "publish_first n [] = []"
| "publish_first n (r # rows) =
     (if row_published r then r # publish_first n rows
      else case n of 0 \<Rightarrow> r # rows | Suc k \<Rightarrow> r\<lparr>row_published := True\<rparr> # publish_first k rows)"

lemma publish_first_0 [simp]: "publish_first 0 rows = rows"
  by (induction rows) auto

lemma pending_publish_first: "pending (publish_first n rows) = drop n (pending rows)"
  by (induction n rows rule: publish_first.induct) (auto simp: pending_def split: nat.splits)

lemma mark_published_Cons:
  "mark_published (i # is) rows = mark_published is (rows[i := (rows ! i)\<lparr>row_published := True\<rparr>])"
  by (simp add: mark_published_def)

lemma take_pending_extends:
  "int (length batch) < limit \<Longrightarrow> \<exists>new. take_pending limit i rows batch = batch @ new"
  by (induction limit i rows batch rule: take_pending.induct) (auto simp: Let_def)

lemma mark_published_batch:
  assumes "int (length batch) < limit" "take_pending limit (length pre) rows batch = batch @ new"
  shows "mark_published (map fst new) (pre @ rows) = pre @ publish_first (nat limit - length batch) rows"
  using assms
proof (induction rows arbitrary: pre batch new)
  case Nil
  then show ?case by (simp add: mark_published_def)
next
  case (Cons r rows)
  show ?case
  proof (cases "row_published r")
    case True
    with Cons.prems Cons.IH [of batch "pre @ [r]" new] show ?thesis by simp
  next
    case False
    have "length batch < nat limit" using Cons.prems(1) by simp
    then obtain k where k: "nat limit - length batch = Suc k" by (metis Suc_diff_Suc)
    let ?b = "batch @ [(length pre, row_msg r)]" and ?r = "r\<lparr>row_published := True\<rparr>"
    show ?thesis
    proof (cases "int (length ?b) = limit")
      case True
      with Cons.prems False have "new = [(length pre, row_msg r)]" by simp
      moreover from True k have "k = 0" by simp
      ultimately show ?thesis using False k by (simp add: mark_published_def)
    next
      case neq: False
      with Cons.prems(1) have lt: "int (length ?b) < limit" by simp
      from take_pending_extends [OF lt] obtain new' where
        n: "take_pending limit (length (pre @ [?r])) rows ?b = ?b @ new'" by blast
      with Cons.prems(2) False neq have "new = (length pre, row_msg r) # new'" by simp
      moreover from k have "nat limit - length ?b = k" by simp
      ultimately show ?thesis
        using Cons.IH [OF lt n] False k by (simp add: mark_published_Cons)
    qed
  qed
qed

lemma DrainOutbox_spec:
  assumes "0 < limit"
  shows "DrainOutbox limit publish (s, w) =
     (let batch = take (nat limit) (pending (ms_outbox s))
      in if batch = [] then ((0, None), s, w)
         else case publish batch w of
                (Some err, w') \<Rightarrow> ((0, Some err), s, w')
              | (None, w') \<Rightarrow> ((int (length batch), None),
                              s\<lparr>ms_outbox := publish_first (nat limit) (ms_outbox s)\<rparr>, w'))"
proof -
  let ?b = "take_pending limit 0 (ms_outbox s) []"
  have b: "map snd ?b = take (nat limit) (pending (ms_outbox s))"
    using take_pending_batch [of "[]" limit 0 "ms_outbox s"] assms by simp
  have m: "mark_published (map fst ?b) (ms_outbox s) = publish_first (nat limit) (ms_outbox s)"
    using mark_published_batch [of "[]" limit "[]" "ms_outbox s" ?b] assms by simp
  have "length ?b = length (take (nat limit) (pending (ms_outbox s)))" "?b = [] \<longleftrightarrow> take (nat limit) (pending (ms_outbox s)) = []"
    using b by (metis length_map, metis map_is_Nil_conv)
  then show ?thesis unfolding DrainOutbox_def Let_def using b m by (auto split: prod.splits option.splits)
qed

section \<open>Pages\<close>

text \<open>A client that follows cursors from the first page until there is no next one.\<close>

fun walk_pages :: "(page \<Rightarrow> goerr + 'a list \<times> string) \<Rightarrow> int \<Rightarrow> nat \<Rightarrow> string \<Rightarrow> 'a list option" where
  "walk_pages lister limit 0 c = None"
| "walk_pages lister limit (Suc n) c =
     (case lister \<lparr>pg_Limit = limit, pg_Cursor = c\<rparr> of
        Inl e \<Rightarrow> None
      | Inr (out, next) \<Rightarrow> if next = [] then Some out else map_option ((@) out) (walk_pages lister limit n next))"

definition descending :: "('a \<Rightarrow> gotime \<times> string) \<Rightarrow> 'a list \<Rightarrow> bool" where
  "descending key xs \<longleftrightarrow> sorted_wrt (\<lambda>x y. key y < key x) xs"

lemma clampLimit_bounds: "1 \<le> clampLimit n \<and> clampLimit n \<le> 1000"
  by (simp add: clampLimit_def)

lemma lex_less: "(a :: gotime \<times> string) < b \<longleftrightarrow> fst a < fst b \<or> fst a = fst b \<and> snd a < snd b"
  by (cases a; cases b) (auto simp: less_prod_def')

lemma filter_after:
  assumes "descending key (xs @ x # ys)"
  shows "filter (\<lambda>it. key it < key x) (xs @ x # ys) = ys"
proof -
  have "\<forall>z \<in> set xs. \<not> key z < key x" "\<forall>z \<in> set ys. key z < key x"
    using assms by (auto simp: descending_def sorted_wrt_append)
  then show ?thesis by simp
qed

text \<open>The page at a cursor is the next stretch of the list.\<close>

lemma pageOf_at:
  assumes "pg_Cursor p = [] \<and> rest = items
         \<or> (\<exists>xs x. items = xs @ x # rest \<and> pg_Cursor p = EncodeCursor (fst (key x)) (snd (key x)) \<and> cursor_key (key x))"
    and "descending key items"
  defines "n \<equiv> nat (clampLimit (pg_Limit p))"
  shows "pageOf items key p = Inr (if length rest \<le> n then (rest, [])
           else (take n rest, EncodeCursor (fst (key (rest ! (n - 1)))) (snd (key (rest ! (n - 1))))))"
proof -
  have n: "0 < n" using clampLimit_bounds [of "pg_Limit p"] by (simp add: n_def)
  have last: "n < length rest \<Longrightarrow> last (take n rest) = rest ! (n - 1)"
    using n by (subst last_conv_nth) auto
  from assms(1) show ?thesis
  proof
    assume "pg_Cursor p = [] \<and> rest = items"
    then show ?thesis using last
      by (auto simp: pageOf_def n_def [symmetric] Let_def split: prod.splits)
  next
    assume "\<exists>xs x. items = xs @ x # rest \<and> pg_Cursor p = EncodeCursor (fst (key x)) (snd (key x)) \<and> cursor_key (key x)"
    then obtain xs x where x: "items = xs @ x # rest" "pg_Cursor p = EncodeCursor (fst (key x)) (snd (key x))" "cursor_key (key x)"
      by blast
    with filter_after [of key xs x rest] assms(2)
    have "filter (\<lambda>it. fst (key it) < fst (key x) \<or> fst (key it) = fst (key x) \<and> snd (key it) < snd (key x)) items = rest"
      by (simp add: lex_less)
    with x(2,3) last cursor_key_text [OF x(3)] show ?thesis
      by (auto simp: pageOf_def n_def [symmetric] Let_def split: prod.splits)
  qed
qed

lemma walk_pages_rest:
  assumes "descending key items" "\<forall>it \<in> set items. cursor_key (key it)"
    and "c = [] \<and> rest = items
         \<or> (\<exists>xs x. items = xs @ x # rest \<and> c = EncodeCursor (fst (key x)) (snd (key x)) \<and> cursor_key (key x))"
    and "length rest < fuel"
  shows "walk_pages (pageOf items key) limit fuel c = Some rest"
  using assms(3,4)
proof (induction fuel arbitrary: c rest)
  case (Suc fuel)
  define n where "n = nat (clampLimit limit)"
  have n: "0 < n" using clampLimit_bounds [of limit] by (simp add: n_def)
  have pg: "pageOf items key \<lparr>pg_Limit = limit, pg_Cursor = c\<rparr> = Inr (if length rest \<le> n then (rest, [])
           else (take n rest, EncodeCursor (fst (key (rest ! (n - 1)))) (snd (key (rest ! (n - 1))))))"
    using pageOf_at [of "\<lparr>pg_Limit = limit, pg_Cursor = c\<rparr>" rest items key] Suc.prems(1) assms(1)
    by (simp add: n_def)
  show ?case
  proof (cases "length rest \<le> n")
    case True
    with pg show ?thesis by simp
  next
    case False
    let ?x = "rest ! (n - 1)" and ?rest = "drop n rest"
    have split: "rest = take (n - 1) rest @ ?x # ?rest"
      using False n id_take_nth_drop [of "n - 1" rest] by simp
    obtain ys where ys: "items = ys @ rest" using Suc.prems(1) by (metis append_Nil append_Cons append_assoc)
    have "items = (ys @ take (n - 1) rest) @ ?x # ?rest" using split ys by simp
    moreover have "cursor_key (key ?x)" using assms(2) ys split by (metis Un_iff in_set_conv_decomp set_append)
    ultimately have "EncodeCursor (fst (key ?x)) (snd (key ?x)) \<noteq> []"
      "walk_pages (pageOf items key) limit fuel (EncodeCursor (fst (key ?x)) (snd (key ?x))) = Some ?rest"
      using Suc.IH [of "EncodeCursor (fst (key ?x)) (snd (key ?x))" ?rest] Suc.prems(2) n False cursor_key_text(1) by auto
    with pg False show ?thesis by simp
  qed
qed simp

lemma sort_desc_descending:
  assumes "distinct (map key xs)"
  shows "descending key (sort_desc key xs)"
proof -
  have "distinct (map key (sort_key key (rev xs)))"
    using assms by (simp add: distinct_map)
  then have "sorted_wrt (<) (map key (sort_key key (rev xs)))"
    by (simp add: strict_sorted_iff)
  then have "sorted_wrt (\<lambda>x y. key x < key y) (sort_key key (rev xs))"
    by (simp add: sorted_wrt_map)
  then show ?thesis by (simp add: descending_def sort_desc_def sorted_wrt_rev)
qed

lemma set_sort_desc [simp]: "set (sort_desc k xs) = set xs"
  by (simp add: sort_desc_def)

lemma length_sort_desc [simp]: "length (sort_desc k xs) = length xs"
  by (simp add: sort_desc_def)

definition events_in_order :: "mem_store \<Rightarrow> event list" where
  "events_in_order s = List.map_filter (fmlookup (ms_events s)) (ms_evOrder s)"

lemma indexed_ids:
  assumes "indexed ids m ident"
  shows "map ident (List.map_filter (fmlookup m) ids) = ids"
proof -
  have "(\<And>i. i \<in> set is \<Longrightarrow> \<exists>v. fmlookup m i = Some v \<and> ident v = i) \<Longrightarrow>
        map ident (List.map_filter (fmlookup m) is) = is" for "is"
  proof (induction "is")
    case (Cons i "is")
    then obtain v where "fmlookup m i = Some v" "ident v = i" by auto
    with Cons show ?case by (simp add: map_filter_simps)
  qed (simp add: map_filter_simps)
  from this [of ids] show ?thesis using assms unfolding indexed_def by (metis fmlookup_dom_iff)
qed

section \<open>Properties\<close>

text \<open>
  (C7) Claims are exclusive: when a worker wins a request, every other claim of it within the lease,
  in whatever order the workers arrive, loses.
\<close>

theorem claim_exclusive:
  assumes "ClaimAutomation i now lease s = (True, s')" "\<forall>t \<in> set later. t \<le> now + lease"
  shows "race i lease (now # later) s = True # replicate (length later) False"
proof -
  obtain r where "fmlookup (ms_autoReq s') i = Some r" "q_Status r = AutomationExecuting"
    using ClaimAutomation_won [OF assms(1)] by blast
  with race_lost [of s' i r later lease] ClaimAutomation_won(2) [OF assms(1)] assms
  show ?thesis by simp
qed

text \<open>
  (C8) A result is recorded once: the first completion of a stored request stores the result, sets
  the request's final status and enqueues its messages, and completing it again, with any result,
  reports false and changes nothing.
\<close>

theorem result_recorded_once:
  assumes "fmlookup (ms_autoReq s) (u_RequestID res) = Some r" "fmlookup (ms_autoRes s) (u_RequestID res) = None"
    and "CompleteAutomation res msgs s = (done, s')"
  shows "done = Inr True
       \<and> GetAutomation (u_RequestID res) s' = Some (r\<lparr>q_Status := u_Status res\<rparr>, Some res)
       \<and> ms_outbox s' = ms_outbox (enqueueLocked msgs s)
       \<and> (u_RequestID res' = u_RequestID res \<longrightarrow> CompleteAutomation res' msgs' s' = (Inr False, s'))"
proof -
  show ?thesis
    using assms CompleteAutomation_first [OF assms(1,2), of msgs]
    by (auto simp: GetAutomation_def enqueueLocked_eq intro!: CompleteAutomation_done)
qed

text \<open>
  (C9) Keyset pagination is complete and exact: a client that follows the cursors of the event
  listing, with any page limit, receives every matching event exactly once, newest first, and the
  walk ends.
\<close>

theorem pages_cover_events:
  assumes "store_inv s" "\<forall>e \<in> set (events_in_order s). cursor_key (event_key e)"
    and "length (events_in_order s) < fuel"
  shows "walk_pages (\<lambda>p. ListEvents f p s) limit fuel [] =
           Some (sort_desc event_key (filter (event_matches f) (events_in_order s)))"
proof -
  have "distinct (map e_EventID (events_in_order s))"
    using assms(1) indexed_ids [of "ms_evOrder s" "ms_events s" e_EventID]
    by (simp add: events_in_order_def store_inv_def indexed_def)
  then have "distinct (map event_key (filter (event_matches f) (events_in_order s)))"
    by (auto simp: distinct_map inj_on_def event_key_def)
  then have "descending event_key (sort_desc event_key (filter (event_matches f) (events_in_order s)))"
    by (rule sort_desc_descending)
  moreover have "length (filter (event_matches f) (events_in_order s)) < fuel"
    using assms(3) length_filter_le [of "event_matches f"] le_less_trans by blast
  ultimately show ?thesis
    using walk_pages_rest [of event_key "sort_desc event_key (filter (event_matches f) (events_in_order s))" "[]" _ fuel limit]
      assms(2)
    by (simp add: ListEvents_def events_in_order_def [symmetric] event_key_def cong: sum.case_cong)
qed

section \<open>Witnesses\<close>

definition ex_request :: automation_request where
  "ex_request = \<lparr>q_RequestID = ''q1'', q_CorrelationID = ''c'', q_PolicyID = ''p'', q_EventID = ''e'', q_AlertKey = ''k'',
     q_DeviceID = ''d'', q_Action = ''restart_service'', q_Target = ''nginx'', q_Params = fmempty, q_Reason = [],
     q_Proposer = ''policy'', q_DryRun = True, q_Status = AutomationPending, q_NotBefore = 0, q_CreatedAt = 0,
     q_ApprovedBy = []\<rparr>"

definition ex_result :: automation_result where
  "ex_result = \<lparr>u_RequestID = ''q1'', u_CorrelationID = ''c'', u_Status = AutomationDryRun, u_DryRun = True,
     u_Message = [], u_Details = fmempty, u_StartedAt = 0, u_FinishedAt = 1\<rparr>"

definition ex_auto_store :: mem_store where
  "ex_auto_store = snd (InsertAutomationRequest ex_request [] NewMemStore)"

definition ex_event :: "string \<Rightarrow> gotime \<Rightarrow> event" where
  "ex_event i tm = \<lparr>e_EventID = i, e_CorrelationID = ''c'', e_DeviceID = ''d'', e_Type = ''device_down'',
     e_Severity = SeverityCritical, e_Message = [], e_Labels = fmempty, e_OccurredAt = tm, e_ObservationID = ''o'',
     e_Source = ''reach'', e_AlertKey = ''k'', e_Resolves = False\<rparr>"

definition ex_event_store :: mem_store where
  "ex_event_store = tx_s (snd (bind_tx (InsertEvent (ex_event ''e1'' 5)) (\<lambda>_. InsertEvent (ex_event ''e2'' 9))
      \<lparr>tx_s = NewMemStore, tx_undo = []\<rparr>))"

definition ex_filter :: event_filter where
  "ex_filter = \<lparr>ef_DeviceID = [], ef_Type = [], ef_MinSeverity = None, ef_Since = 0, ef_Until = 0\<rparr>"

lemma ex_event_store_inv: "store_inv ex_event_store"
proof -
  have "keeps (\<lambda>t. store_inv (tx_s t)) (bind_tx (InsertEvent (ex_event ''e1'' 5)) (\<lambda>_. InsertEvent (ex_event ''e2'' 9)))"
    using inv.InsertEvent_keeps by (auto intro!: keeps_intros)
  then show ?thesis by (auto simp: keeps_def ex_event_store_def)
qed

lemma ex_events: "events_in_order ex_event_store = [ex_event ''e1'' 5, ex_event ''e2'' 9]"
  by (simp add: events_in_order_def ex_event_store_def bind_tx_def InsertEvent_def NewMemStore_def ex_event_def
        logged_write_def map_filter_simps Let_def)

theorem claim_exclusive_witness: "race ''q1'' 300 [10, 20, 300, 310] ex_auto_store = [True, False, False, False]"
proof -
  have "fst (ClaimAutomation ''q1'' 10 300 ex_auto_store)"
    by (simp add: ClaimAutomation_def ex_auto_store_def InsertAutomationRequest_def NewMemStore_def ex_request_def claimable_def)
  then obtain s' where "ClaimAutomation ''q1'' 10 300 ex_auto_store = (True, s')"
    by (metis (full_types) fst_conv surj_pair)
  from claim_exclusive [OF this, of "[20, 300, 310]"] show ?thesis by (simp add: numeral_3_eq_3)
qed

theorem result_recorded_once_witness:
  "fst (CompleteAutomation ex_result [] ex_auto_store) = Inr True
   \<and> fst (CompleteAutomation (ex_result\<lparr>u_Status := AutomationFailed\<rparr>) []
            (snd (CompleteAutomation ex_result [] ex_auto_store))) = Inr False"
proof -
  have "fmlookup (ms_autoReq ex_auto_store) (u_RequestID ex_result) = Some ex_request"
    "fmlookup (ms_autoRes ex_auto_store) (u_RequestID ex_result) = None"
    by (simp_all add: ex_auto_store_def InsertAutomationRequest_def NewMemStore_def ex_request_def ex_result_def)
  from result_recorded_once [OF this surjective_pairing, of "[]" "ex_result\<lparr>u_Status := AutomationFailed\<rparr>" "[]"]
  show ?thesis by (simp add: ex_result_def)
qed

lemma ex_event_keys: "cursor_key (5, ''e1'')" "cursor_key (9, ''e2'')"
  by code_simp+

theorem pages_cover_events_witness:
  "walk_pages (\<lambda>p. ListEvents ex_filter p ex_event_store) 1 3 [] = Some [ex_event ''e2'' 9, ex_event ''e1'' 5]"
  using pages_cover_events [OF ex_event_store_inv, of 3 ex_filter 1]
  by (simp add: ex_events ex_filter_def event_matches_def sort_desc_def event_key_def) (simp add: ex_event_def ex_event_keys)

end
