(* ===== verification/Alert_Lifecycle.thy ===== *)
theory Alert_Lifecycle
  imports Domain
begin

text \<open>
  The contract an evaluator keeps towards alerting, shared by the state engine and the rules. An
  evaluator takes the previous record of an entity and a sample, and either ignores the sample or
  returns the next record with the events it emits. \<open>run_alerts\<close> feeds it a sequence of samples,
  keeping the record across ignored ones.
\<close>

type_synonym ('r, 'o) evaluator = "'r option \<Rightarrow> 'o \<Rightarrow> ('r \<times> event list) option"

fun run_alerts :: "('r, 'o) evaluator \<Rightarrow> 'r option \<Rightarrow> 'o list \<Rightarrow> 'r option \<times> event list" where
  "run_alerts ev p [] = (p, [])"
| "run_alerts ev p (x # xs) =
     (case ev p x of
        None \<Rightarrow> run_alerts ev p xs
      | Some (r, es) \<Rightarrow> (let (p', es') = run_alerts ev (Some r) xs in (p', es @ es')))"

text \<open>
  An event sequence that alternates between opening an alert and resolving it, given whether an
  alert is open at its start.
\<close>

fun alternating :: "bool \<Rightarrow> event list \<Rightarrow> bool" where
  "alternating b [] = True"
| "alternating b (e # es) = (e_Resolves e = b \<and> alternating (\<not> b) es)"

lemma alternating_append:
  "alternating b (es @ fs) \<longleftrightarrow> alternating b es \<and> alternating (b \<noteq> odd (length es)) fs"
proof (induction es arbitrary: b)
  case (Cons e es)
  then show ?case by (cases b; cases "even (length es)") auto
qed simp

locale alerting =
  fixes eval :: "('r, 'o) evaluator" and is_open :: "'r option \<Rightarrow> bool"
  assumes emits:
    "eval p x = Some (r, es) \<Longrightarrow>
       (if is_open p = is_open (Some r) then es = [] else \<exists>e. es = [e] \<and> e_Resolves e = is_open p)"
begin

lemma run_alternates:
  "run_alerts eval p xs = (p', es) \<Longrightarrow>
     alternating (is_open p) es \<and> (is_open p' \<longleftrightarrow> is_open p \<noteq> odd (length es))"
proof (induction xs arbitrary: p p' es)
  case (Cons x xs)
  show ?case
  proof (cases "eval p x")
    case None
    with Cons show ?thesis by simp
  next
    case (Some a)
    then obtain r es1 where a: "eval p x = Some (r, es1)" by (cases a) auto
    obtain q es2 where run: "run_alerts eval (Some r) xs = (q, es2)" by fastforce
    from Cons.prems a run have "p' = q" "es = es1 @ es2" by auto
    with Cons.IH [OF run] emits [OF a] show ?thesis
      by (auto simp: alternating_append split: if_splits)
  qed
qed simp

text \<open>The last event of a run says whether the alert is open after it.\<close>

lemma run_last_event:
  assumes "run_alerts eval p xs = (p', es)" "es \<noteq> []"
  shows "is_open p' \<longleftrightarrow> \<not> e_Resolves (last es)"
proof -
  from assms have alt: "alternating (is_open p) es" and op: "is_open p' \<longleftrightarrow> is_open p \<noteq> odd (length es)"
    using run_alternates by blast+
  obtain fs e where es: "es = fs @ [e]" using assms(2) by (cases es rule: rev_cases) auto
  from alt es have "e_Resolves e \<longleftrightarrow> is_open p \<noteq> odd (length fs)"
    by (simp add: alternating_append)
  with op es show ?thesis by auto
qed

end

end
