(* ===== verification/State_Engine.thy ===== *)
theory State_Engine
  imports Alert_Lifecycle
begin

text \<open>
  Package \<open>internal/state\<close>: state definitions with their validation (definition.go) and the pure
  evaluator of the health machine (engine.go). A nil pointer the code dereferences without a check
  makes the evaluator panic, which is the result \<open>None\<close> of \<open>judge\<close> and \<open>Evaluate\<close>; validated
  definitions never get there. The second half specifies the machine as a function of the accepted
  samples and shows that the incremental encoding implements it.
\<close>


section \<open>Definitions (definition.go)\<close>

record event_spec =
  es_Event :: string
  es_Severity :: severity
  es_Message :: string

record good_when =
  gw_Equals :: "bool option"

record threshold =
  th_BreachAbove :: "f64 option"
  th_ClearBelow :: "f64 option"
  th_BreachBelow :: "f64 option"
  th_ClearAbove :: "f64 option"

record state_def =
  sd_ID :: string
  sd_Metric :: string
  sd_KeyLabels :: "string list"
  sd_DeviceTypes :: "string list"
  sd_GoodWhen :: "good_when option"
  sd_Threshold :: "threshold option"
  sd_FailAfter :: int
  sd_FailFor :: duration
  sd_RecoverAfter :: int
  sd_RecoverFor :: duration
  sd_Stale :: bool
  sd_Alert :: event_spec
  sd_Recovery :: event_spec

text \<open>\<open>*a > *b\<close> on two pointers known to be set.\<close>

definition gt_opt :: "f64 option \<Rightarrow> f64 option \<Rightarrow> bool" where
  "gt_opt a b = (case (a, b) of (Some x, Some y) \<Rightarrow> f64_lt y x | _ \<Rightarrow> False)"

definition threshold_problems :: "threshold \<Rightarrow> string list" where
  "threshold_problems t =
     (let above = th_BreachAbove t \<noteq> None \<or> th_ClearBelow t \<noteq> None;
          below = th_BreachBelow t \<noteq> None \<or> th_ClearAbove t \<noteq> None
      in if above = below
           then [''threshold needs either breach_above+clear_below or breach_below+clear_above'']
         else if above \<and> (th_BreachAbove t = None \<or> th_ClearBelow t = None)
           then [''threshold needs both breach_above and clear_below'']
         else if above \<and> gt_opt (th_ClearBelow t) (th_BreachAbove t)
           then [''clear_below must not exceed breach_above'']
         else if below \<and> (th_BreachBelow t = None \<or> th_ClearAbove t = None)
           then [''threshold needs both breach_below and clear_above'']
         else if below \<and> gt_opt (th_BreachBelow t) (th_ClearAbove t)
           then [''clear_above must not be less than breach_below'']
         else [])"

definition validate_def :: "state_def \<Rightarrow> string list" where
  "validate_def d =
     (if sd_ID d = [] then [''id is required''] else [])
     @ (if sd_Metric d = [] then [''metric is required''] else [])
     @ (if (sd_GoodWhen d = None) = (sd_Threshold d = None)
        then [''exactly one of good_when or threshold is required''] else [])
     @ (case sd_GoodWhen d of Some g \<Rightarrow>
          if gw_Equals g = None then [''good_when.equals is required''] else [] | None \<Rightarrow> [])
     @ (case sd_Threshold d of Some t \<Rightarrow> threshold_problems t | None \<Rightarrow> [])
     @ (if sd_FailAfter d < 1 \<or> sd_RecoverAfter d < 1
        then [''fail_after and recover_after must be at least 1''] else [])
     @ (if sd_FailFor d < 0 \<or> sd_RecoverFor d < 0
        then [''fail_for and recover_for must not be negative''] else [])
     @ (if es_Event (sd_Alert d) = [] \<or> \<not> Severity_Valid (es_Severity (sd_Alert d))
        then [''alert.event and a valid alert.severity are required''] else [])
     @ (if es_Event (sd_Recovery d) = [] \<or> \<not> Severity_Valid (es_Severity (sd_Recovery d))
        then [''recovery.event and a valid recovery.severity are required''] else [])
     @ map (\<lambda>t. ''unknown device type '' @ quote_q t) (filter (\<lambda>t. \<not> DeviceType_Valid t) (sd_DeviceTypes d))"

definition appliesTo :: "state_def \<Rightarrow> string \<Rightarrow> bool" where
  "appliesTo d t = (sd_DeviceTypes d = [] \<or> list_ex (\<lambda>x. x = t) (sd_DeviceTypes d))"

record definitions =
  ds_all :: "state_def list"
  ds_byMetric :: "(string, state_def list) fmap"

definition at_metric :: "(string, 'a list) fmap \<Rightarrow> string \<Rightarrow> 'a list" where
  "at_metric m k = (case fmlookup m k of None \<Rightarrow> [] | Some xs \<Rightarrow> xs)"

text \<open>\<open>Parse\<close> after the YAML decoder: the loop over the decoded definitions.\<close>

fun parse_defs_loop :: "definitions \<Rightarrow> string set \<Rightarrow> state_def list \<Rightarrow> goerr + definitions" where
  "parse_defs_loop ds seen [] = Inr ds"
| "parse_defs_loop ds seen (d # rest) =
     (if validate_def d \<noteq> [] then 
        Inl (Errorf CategoryValidation
          (''state definition '' @ quote_q (sd_ID d) @ '': '' @ join_sep ''; '' (validate_def d)))
      else if sd_ID d \<in> seen then Inl (Errorf CategoryValidation (''duplicate state definition '' @ quote_q (sd_ID d)))
      else parse_defs_loop
             (ds\<lparr>ds_all := ds_all ds @ [d],
                 ds_byMetric := fmupd (sd_Metric d) (at_metric (ds_byMetric ds) (sd_Metric d) @ [d]) (ds_byMetric ds)\<rparr>)
             (insert (sd_ID d) seen) rest)"

definition Parse_defs :: "state_def list \<Rightarrow> goerr + definitions" where
  "Parse_defs doc = parse_defs_loop \<lparr>ds_all = [], ds_byMetric = fmempty\<rparr> {} doc"

definition For_defs :: "definitions \<Rightarrow> string \<Rightarrow> string \<Rightarrow> state_def list" where
  "For_defs ds metric t = filter (\<lambda>d. appliesTo d t) (at_metric (ds_byMetric ds) metric)"

definition Get_def :: "definitions \<Rightarrow> string \<Rightarrow> state_def option" where
  "Get_def ds i = find (\<lambda>d. sd_ID d = i) (ds_all ds)"


section \<open>Evaluation (engine.go)\<close>

datatype ignore_reason = NotIgnored | Duplicate | Stale | WrongType | NotTracked

record update =
  up_Record :: state_record
  up_Transitions :: "transition list"
  up_Events :: "event list"
  up_Ignored :: ignore_reason

definition zero_record :: state_record where
  "zero_record =
     \<lparr>r_Key = [], r_DeviceID = [], r_DefinitionID = [], r_Labels = fmempty, r_State = StateNone,
      r_Failures = 0, r_Successes = 0, r_Breached = False, r_BadSince = 0, r_GoodSince = 0,
      r_LastObservedAt = 0, r_LastSeenAt = 0, r_LastObservationID = [], r_LastTransitionAt = 0,
      r_LastValue = []\<rparr>"

definition key_labels :: "string list \<Rightarrow> strmap \<Rightarrow> strmap" where
  "key_labels ks labels =
     fold (\<lambda>k m. case fmlookup labels k of Some v \<Rightarrow> fmupd k v m | None \<Rightarrow> m) ks fmempty"

definition KeyFor :: "state_def \<Rightarrow> string \<Rightarrow> strmap \<Rightarrow> string \<times> strmap" where
  "KeyFor def deviceID labels =
     (let kl = key_labels (sd_KeyLabels def) labels
      in (sd_ID def @ ''/'' @ deviceID @ ''/'' @ LabelsKey kl, kl))"

definition numeric :: "goval \<Rightarrow> f64 option" where
  "numeric v = (case v of
     VFloat64 x \<Rightarrow> Some x | VFloat32 x \<Rightarrow> Some x | VInt x \<Rightarrow> Some (f64_of_int x)
   | VInt64 x \<Rightarrow> Some (f64_of_int x) | _ \<Rightarrow> None)"

definition fmtValue :: "goval \<Rightarrow> string" where
  "fmtValue v = (case v of VFloat64 x \<Rightarrow> format_f x | VBool b \<Rightarrow> show_bool b | VString s \<Rightarrow> s | _ \<Rightarrow> [])"

text \<open>
  One comparison of the hysteresis: whether the value counts as breached, given the side it was on
  before. \<open>None\<close> when a needed limit is a nil pointer.
\<close>

definition breach_step :: "threshold \<Rightarrow> bool \<Rightarrow> f64 \<Rightarrow> bool option" where
  "breach_step t breached f =
     (if th_BreachAbove t \<noteq> None then
        if breached then map_option (\<lambda>c. \<not> f64_lt f c) (th_ClearBelow t)
        else map_option (\<lambda>b. f64_lt b f) (th_BreachAbove t)
      else
        if breached then map_option (\<lambda>c. \<not> f64_lt c f) (th_ClearAbove t)
        else map_option (\<lambda>b. f64_lt f b) (th_BreachBelow t))"

text \<open>The result is \<open>(good, ok)\<close> and the updated record; \<open>None\<close> is a nil dereference.\<close>

definition judge :: "state_def \<Rightarrow> state_record \<Rightarrow> observation \<Rightarrow> ((bool \<times> bool) \<times> state_record) option" where
  "judge def rec ob =
     (case sd_GoodWhen def of
        Some g \<Rightarrow>
          (case o_Value ob of
             VBool b \<Rightarrow> map_option (\<lambda>eq. ((b = eq, True), rec)) (gw_Equals g)
           | _ \<Rightarrow> Some ((False, False), rec))
      | None \<Rightarrow>
          (case numeric (o_Value ob) of
             None \<Rightarrow> Some ((False, False), rec)
           | Some f \<Rightarrow>
               (case sd_Threshold def of
                  None \<Rightarrow> None
                | Some t \<Rightarrow>
                    map_option (\<lambda>br. ((\<not> br, True), rec\<lparr>r_Breached := br\<rparr>))
                      (breach_step t (r_Breached rec) f))))"

definition step_good :: "state_def \<Rightarrow> state_record \<Rightarrow> health \<Rightarrow> gotime \<Rightarrow> health \<times> state_record" where
  "step_good def rec cur tm =
     (let rec1 = rec\<lparr>r_Failures := 0, r_BadSince := 0\<rparr>
      in if cur = StateUp then (StateUp, rec1)
         else if cur = StateSuspect then (StateUp, rec1)
         else if cur = StateDown \<or> cur = StateRecovering then
           (let rec2 = (if r_Successes rec1 = 0 then rec1\<lparr>r_GoodSince := tm\<rparr> else rec1);
                rec3 = rec2\<lparr>r_Successes := r_Successes rec2 + 1\<rparr>
            in if sd_RecoverAfter def \<le> r_Successes rec3
                  \<and> sd_RecoverFor def \<le> time_sub tm (r_GoodSince rec3)
               then (StateUp, rec3\<lparr>r_Successes := 0, r_GoodSince := 0\<rparr>)
               else (StateRecovering, rec3))
         else (cur, rec1))"

definition step_bad :: "state_def \<Rightarrow> state_record \<Rightarrow> health \<Rightarrow> gotime \<Rightarrow> health \<times> state_record" where
  "step_bad def rec cur tm =
     (let rec1 = rec\<lparr>r_Successes := 0, r_GoodSince := 0\<rparr>;
          rec2 = (if r_Failures rec1 = 0 then rec1\<lparr>r_BadSince := tm\<rparr> else rec1);
          rec3 = rec2\<lparr>r_Failures := r_Failures rec2 + 1\<rparr>
      in if cur = StateDown \<or> cur = StateRecovering then (StateDown, rec3)
         else if sd_FailAfter def \<le> r_Failures rec3
                 \<and> sd_FailFor def \<le> time_sub tm (r_BadSince rec3)
              then (StateDown, rec3)
              else (StateSuspect, rec3))"

definition step :: "state_def \<Rightarrow> state_record \<Rightarrow> bool \<Rightarrow> gotime \<Rightarrow> health \<times> state_record" where
  "step def rec good tm =
     (if r_State rec = StateNone \<and> good then (StateUp, rec\<lparr>r_Failures := 0, r_Successes := 0\<rparr>)
      else let cur = (if r_State rec = StateNone then StateUp else r_State rec)
           in if good then step_good def rec cur tm else step_bad def rec cur tm)"

definition render :: "string \<Rightarrow> observation \<Rightarrow> string" where
  "render tmpl ob =
     (if tmpl = [] then []
      else replace_all
             ([(''{device}'', o_DeviceID ob), (''{value}'', fmtValue (o_Value ob))]
              @ map (\<lambda>(k, v). (''{'' @ k @ ''}'', v)) (fm_items (o_Labels ob))
              @ (if str_at (o_Metadata ob) ''hostname'' \<noteq> []
                 then [(''{hostname}'', str_at (o_Metadata ob) ''hostname'')] else []))
             tmpl)"

definition eventFor :: "state_def \<Rightarrow> string \<Rightarrow> health \<Rightarrow> health \<Rightarrow> observation \<Rightarrow> event option" where
  "eventFor def key from to ob =
     (let mk = (\<lambda>spec resolves.
           \<lparr>e_EventID = StableID [''evt'', o_DeviceID ob, sd_ID def, LabelsKey (o_Labels ob), es_Event spec,
                                   o_ObservationID ob],
            e_CorrelationID = o_CorrelationID ob, e_DeviceID = o_DeviceID ob, e_Type = es_Event spec,
            e_Severity = es_Severity spec, e_Message = render (es_Message spec) ob,
            e_Labels = o_Labels ob, e_OccurredAt = o_ObservedAt ob,
            e_ObservationID = o_ObservationID ob, e_Source = sd_ID def, e_AlertKey = key,
            e_Resolves = resolves\<rparr>)
      in if to = StateDown \<and> from \<noteq> StateRecovering then Some (mk (sd_Alert def) False)
         else if to = StateUp \<and> (from = StateRecovering \<or> from = StateDown)
           then Some (mk (sd_Recovery def) True)
         else None)"

text \<open>The bookkeeping \<open>Evaluate\<close> does on the record before the machine steps.\<close>

definition note_sample :: "state_record \<Rightarrow> observation \<Rightarrow> state_record" where
  "note_sample rec ob =
     (let rec1 = rec\<lparr>r_LastObservedAt := o_ObservedAt ob, r_LastObservationID := o_ObservationID ob,
                     r_LastValue := fmtValue (o_Value ob)\<rparr>
      in if str_at (o_Metadata ob) ''stale'' \<noteq> ''true'' then rec1\<lparr>r_LastSeenAt := o_ObservedAt ob\<rparr> else rec1)"

definition Evaluate :: "state_def \<Rightarrow> state_record option \<Rightarrow> observation \<Rightarrow> update option" where
  "Evaluate def prev ob =
     (let (key, keyLabels) = KeyFor def (o_DeviceID ob) (o_Labels ob);
          ignored = (\<lambda>rec why. \<lparr>up_Record = rec, up_Transitions = [], up_Events = [], up_Ignored = why\<rparr>);
          fresh = zero_record\<lparr>r_Key := key, r_DeviceID := o_DeviceID ob, r_DefinitionID := sd_ID def,
                              r_Labels := keyLabels\<rparr>;
          base = (case prev of Some p \<Rightarrow> p | None \<Rightarrow> zero_record);
          rec = (case prev of Some p \<Rightarrow> p | None \<Rightarrow> fresh)
      in if prev \<noteq> None \<and> r_LastObservationID base = o_ObservationID ob then Some (ignored base Duplicate)
         else if prev \<noteq> None \<and> o_ObservedAt ob \<le> r_LastObservedAt base then Some (ignored base Stale)
         else case judge def rec ob of
           None \<Rightarrow> None
         | Some ((good, ok), rec1) \<Rightarrow>
             if \<not> ok then Some (ignored base WrongType)
             else let from = r_State rec1;
                      (to, rec2) = step def (note_sample rec1 ob) good (o_ObservedAt ob)
                  in if to = from
                     then Some \<lparr>up_Record = rec2, up_Transitions = [], up_Events = [], up_Ignored = NotIgnored\<rparr>
                     else Some
                       \<lparr>up_Record = rec2\<lparr>r_State := to, r_LastTransitionAt := o_ObservedAt ob\<rparr>,
                        up_Transitions =
                          [\<lparr>t_TransitionID = StableID [''tr'', key, o_ObservationID ob], t_Key = key,
                            t_DeviceID = o_DeviceID ob, t_DefinitionID = sd_ID def, t_Labels = keyLabels,
                            t_From = from, t_To = to, t_At = o_ObservedAt ob,
                            t_ObservationID = o_ObservationID ob, t_CorrelationID = o_CorrelationID ob\<rparr>],
                        up_Events = (case eventFor def key from to ob of Some ev \<Rightarrow> [ev] | None \<Rightarrow> []),
                        up_Ignored = NotIgnored\<rparr>)"

definition stale_sample :: "state_def \<Rightarrow> state_record \<Rightarrow> gotime \<Rightarrow> observation option" where
  "stale_sample def rec stamp =
     (let i = StableID [''stale'', r_Key rec, show_int (unix_seconds stamp)]
      in map_option (\<lambda>val.
           \<lparr>o_ObservationID = i, o_CorrelationID = i, o_DeviceID = r_DeviceID rec, o_Source = ''sweeper'',
            o_Metric = sd_Metric def, o_Value = VBool val, o_Labels = r_Labels rec, o_ObservedAt = stamp,
            o_ReceivedAt = 0,
            o_Metadata = fmap_of_list [(''stale'', ''true''), (''last_seen_at'', rfc3339 (r_LastSeenAt rec))]\<rparr>)
         (case sd_GoodWhen def of Some g \<Rightarrow> map_option Not (gw_Equals g) | None \<Rightarrow> Some False))"

text \<open>The outer \<open>None\<close> is again a nil dereference of \<open>good_when.equals\<close>.\<close>

fun StaleSamples :: "definitions \<Rightarrow> state_record list \<Rightarrow> gotime \<Rightarrow> duration \<Rightarrow> duration \<Rightarrow> observation list option" where
  "StaleSamples defs [] now staleAfter bucket = Some []"
| "StaleSamples defs (rec # recs) now staleAfter bucket =
     (case Get_def defs (r_DefinitionID rec) of
        None \<Rightarrow> StaleSamples defs recs now staleAfter bucket
      | Some def \<Rightarrow>
          if \<not> sd_Stale def \<or> r_State rec = StateDown then StaleSamples defs recs now staleAfter bucket
          else if time_sub now (r_LastSeenAt rec) < staleAfter then StaleSamples defs recs now staleAfter bucket
          else case stale_sample def rec (time_truncate now bucket) of
            None \<Rightarrow> None
          | Some s \<Rightarrow> map_option (\<lambda>ss. s # ss) (StaleSamples defs recs now staleAfter bucket))"

section \<open>Validated definitions\<close>

lemma validate_def_thresholdD:
  assumes "validate_def d = []"
  shows "sd_GoodWhen d = None \<Longrightarrow> \<exists>t. sd_Threshold d = Some t \<and> threshold_problems t = []"
    and "sd_GoodWhen d = Some g \<Longrightarrow> sd_Threshold d = None \<and> (\<exists>b. gw_Equals g = Some b)"
  using assms by (auto simp: validate_def_def split: option.splits if_splits)

lemma validate_def_counts:
  "validate_def d = [] \<Longrightarrow> 1 \<le> sd_FailAfter d \<and> 1 \<le> sd_RecoverAfter d \<and> 0 \<le> sd_FailFor d \<and> 0 \<le> sd_RecoverFor d"
  by (auto simp: validate_def_def split: if_splits)

text \<open>A validated threshold has both limits of exactly one direction, the clearing one not beyond.\<close>

lemma threshold_okE:
  assumes "threshold_problems t = []"
  obtains (above) b c where "th_BreachAbove t = Some b" "th_ClearBelow t = Some c" "\<not> f64_lt b c"
        | (below) b c where "th_BreachAbove t = None" "th_BreachBelow t = Some b" "th_ClearAbove t = Some c"
                            "\<not> f64_lt c b"
  using assms by (auto simp: threshold_problems_def gt_opt_def Let_def split: if_splits option.splits)

lemma breach_step_total: "threshold_problems t = [] \<Longrightarrow> breach_step t b f \<noteq> None"
  by (erule threshold_okE) (auto simp: breach_step_def)

lemma judge_total:
  assumes "validate_def d = []"
  shows "judge d rec ob \<noteq> None"
proof (cases "sd_GoodWhen d")
  case None
  then obtain t where "sd_Threshold d = Some t" "threshold_problems t = []"
    using validate_def_thresholdD(1) [OF assms] by blast
  with None show ?thesis
    using breach_step_total [of t] by (auto simp: judge_def split: option.splits)
next
  case (Some g)
  then obtain b where "gw_Equals g = Some b"
    using validate_def_thresholdD(2) [OF assms] by blast
  with Some show ?thesis by (auto simp: judge_def split: goval.splits)
qed

lemma judge_frame:
  "judge d rec ob = Some (go, rec') \<Longrightarrow> rec' = rec\<lparr>r_Breached := r_Breached rec'\<rparr>"
  by (auto simp: judge_def split: option.splits goval.splits)

lemma Evaluate_total:
  assumes "validate_def d = []"
  shows "Evaluate d p ob \<noteq> None"
proof (cases p)
  case None
  then show ?thesis
    using judge_total [OF assms]
    by (auto simp: Evaluate_def Let_def KeyFor_def split: option.splits prod.splits)
next
  case (Some r)
  then show ?thesis
    using judge_total [OF assms, of r ob]
    by (auto simp: Evaluate_def Let_def KeyFor_def split: option.splits prod.splits)
qed

section \<open>Indexing\<close>

definition defs_ok :: "definitions \<Rightarrow> bool" where
  "defs_ok ds \<longleftrightarrow>
     list_all (\<lambda>d. validate_def d = []) (ds_all ds) \<and> distinct (map sd_ID (ds_all ds))
   \<and> (\<forall>m. at_metric (ds_byMetric ds) m = filter (\<lambda>d. sd_Metric d = m) (ds_all ds))"

lemma parse_defs_loop_ok:
  "parse_defs_loop ds seen doc = Inr ds' \<Longrightarrow> defs_ok ds \<Longrightarrow> seen = set (map sd_ID (ds_all ds)) \<Longrightarrow>
     defs_ok ds' \<and> ds_all ds' = ds_all ds @ doc"
proof (induction ds seen doc arbitrary: ds' rule: parse_defs_loop.induct)
  case (2 ds seen d rest)
  let ?ds = "ds\<lparr>ds_all := ds_all ds @ [d],
    ds_byMetric := fmupd (sd_Metric d) (at_metric (ds_byMetric ds) (sd_Metric d) @ [d]) (ds_byMetric ds)\<rparr>"
  from "2.prems"(1) have v: "validate_def d = []" "sd_ID d \<notin> seen"
    and run: "parse_defs_loop ?ds (insert (sd_ID d) seen) rest = Inr ds'"
    by (auto split: if_splits)
  have ok: "defs_ok ?ds"
    using "2.prems"(2,3) v by (auto simp: defs_ok_def at_metric_def)
  from "2.IH" [OF _ _ run ok] v "2.prems"(3) show ?case by auto
qed simp

lemma Parse_defs_ok: "Parse_defs doc = Inr ds \<Longrightarrow> defs_ok ds \<and> ds_all ds = doc"
  using parse_defs_loop_ok [of "\<lparr>ds_all = [], ds_byMetric = fmempty\<rparr>" "{}" doc ds]
  by (auto simp: Parse_defs_def defs_ok_def at_metric_def)

lemma For_defs_eq:
  "defs_ok ds \<Longrightarrow> For_defs ds m t = filter (\<lambda>d. sd_Metric d = m \<and> appliesTo d t) (ds_all ds)"
  by (simp add: For_defs_def defs_ok_def conj_commute)

lemma For_defs_valid: "defs_ok ds \<Longrightarrow> d \<in> set (For_defs ds m t) \<Longrightarrow> validate_def d = []"
  by (auto simp: For_defs_eq defs_ok_def list_all_iff)

section \<open>Frames of the machine\<close>

lemma step_frame:
  assumes "step d rec good tm = (to, rec')"
  shows "r_Key rec' = r_Key rec" "r_DeviceID rec' = r_DeviceID rec" "r_DefinitionID rec' = r_DefinitionID rec"
    "r_Labels rec' = r_Labels rec" "r_State rec' = r_State rec" "r_Breached rec' = r_Breached rec"
    "r_LastObservedAt rec' = r_LastObservedAt rec" "r_LastObservationID rec' = r_LastObservationID rec"
    "r_LastSeenAt rec' = r_LastSeenAt rec" "r_LastTransitionAt rec' = r_LastTransitionAt rec"
  using assms by (auto simp: step_def step_good_def step_bad_def Let_def split: if_splits)

lemma step_to_not_None: "step d rec good tm = (to, rec') \<Longrightarrow> to \<noteq> StateNone"
  by (auto simp: step_def step_good_def step_bad_def Let_def split: if_splits)

text \<open>The edges of the health machine.\<close>

fun health_edge :: "health \<Rightarrow> health \<Rightarrow> bool" where
  "health_edge StateNone to = (to \<in> {StateUp, StateSuspect, StateDown})"
| "health_edge StateUp to = (to \<in> {StateSuspect, StateDown})"
| "health_edge StateSuspect to = (to \<in> {StateUp, StateDown})"
| "health_edge StateDown to = (to \<in> {StateRecovering, StateUp})"
| "health_edge StateRecovering to = (to \<in> {StateDown, StateUp})"

lemma step_edge:
  "step d rec good tm = (to, rec') \<Longrightarrow> to \<noteq> r_State rec \<Longrightarrow> health_edge (r_State rec) to"
  by (cases "r_State rec"; cases good)
     (auto simp: step_def step_good_def step_bad_def Let_def split: if_splits)

section \<open>The alerting contract\<close>

definition alert_open :: "state_record option \<Rightarrow> bool" where
  "alert_open p = (case p of None \<Rightarrow> False | Some r \<Rightarrow> r_State r = StateDown \<or> r_State r = StateRecovering)"

definition apply_def :: "state_def \<Rightarrow> (state_record, observation) evaluator" where
  "apply_def d p ob = (case Evaluate d p ob of
      Some up \<Rightarrow> if up_Ignored up = NotIgnored then Some (up_Record up, up_Events up) else None
    | None \<Rightarrow> None)"

text \<open>What \<open>Evaluate\<close> does with a sample it applies, in one place.\<close>

definition base_record :: "state_def \<Rightarrow> state_record option \<Rightarrow> observation \<Rightarrow> state_record" where
  "base_record d p ob = (case p of Some r \<Rightarrow> r
     | None \<Rightarrow> zero_record\<lparr>r_Key := fst (KeyFor d (o_DeviceID ob) (o_Labels ob)), r_DeviceID := o_DeviceID ob,
                           r_DefinitionID := sd_ID d, r_Labels := snd (KeyFor d (o_DeviceID ob) (o_Labels ob))\<rparr>)"

lemma Evaluate_applied:
  assumes "Evaluate d p ob = Some up" "up_Ignored up = NotIgnored"
  obtains good rec1 to rec2 where
    "judge d (base_record d p ob) ob = Some ((good, True), rec1)"
    "step d (note_sample rec1 ob) good (o_ObservedAt ob) = (to, rec2)"
    "r_State (up_Record up) = to"
    "up_Record up = rec2\<lparr>r_State := to, r_LastTransitionAt := r_LastTransitionAt (up_Record up)\<rparr>"
    "up_Events up = (if to = r_State rec1 then []
       else case eventFor d (fst (KeyFor d (o_DeviceID ob) (o_Labels ob))) (r_State rec1) to ob of
              Some ev \<Rightarrow> [ev] | None \<Rightarrow> [])"
    "map t_From (up_Transitions up) = (if to = r_State rec1 then [] else [r_State rec1])"
    "map t_To (up_Transitions up) = (if to = r_State rec1 then [] else [to])"
    "\<forall>r. p = Some r \<longrightarrow> r_LastObservationID r \<noteq> o_ObservationID ob \<and> r_LastObservedAt r < o_ObservedAt ob"
proof -
  obtain good rec1 where j: "judge d (base_record d p ob) ob = Some ((good, True), rec1)"
    using assms by (auto simp: Evaluate_def base_record_def Let_def split: if_splits option.splits prod.splits)
  obtain to rec2 where st: "step d (note_sample rec1 ob) good (o_ObservedAt ob) = (to, rec2)"
    by fastforce
  have s1: "r_State (note_sample rec1 ob) = r_State rec1"
    by (simp add: note_sample_def Let_def)
  show thesis
    using assms j st step_frame(5) [OF st] s1
    by (intro that [OF j st])
       (auto simp: Evaluate_def base_record_def Let_def split: if_splits option.splits prod.splits)
qed


lemma judge_state: "judge d rec ob = Some (go, rec') \<Longrightarrow> r_State rec' = r_State rec"
  by (auto simp: judge_def split: option.splits goval.splits)

lemma base_record_state: "r_State (base_record d p ob) = (case p of None \<Rightarrow> StateNone | Some r \<Rightarrow> r_State r)"
  by (simp add: base_record_def zero_record_def split: option.splits)

lemma eventFor_cases:
  "eventFor d k from to ob = None \<longleftrightarrow>
     \<not> (to = StateDown \<and> from \<noteq> StateRecovering) \<and> \<not> (to = StateUp \<and> (from = StateRecovering \<or> from = StateDown))"
  "eventFor d k from to ob = Some e \<Longrightarrow> e_Resolves e \<longleftrightarrow> to = StateUp"
  "eventFor d k from to ob = Some e \<Longrightarrow> e_AlertKey e = k \<and> e_ObservationID e = o_ObservationID ob
     \<and> e_DeviceID e = o_DeviceID ob \<and> e_Source e = sd_ID d"
  by (auto simp: eventFor_def Let_def split: if_splits)

lemma apply_def_emits:
  assumes "apply_def d p ob = Some (r, es)"
  shows "if alert_open p = alert_open (Some r) then es = [] else \<exists>e. es = [e] \<and> e_Resolves e = alert_open p"
proof -
  from assms obtain up where up: "Evaluate d p ob = Some up" "up_Ignored up = NotIgnored"
      and r: "r = up_Record up" "es = up_Events up"
    by (auto simp: apply_def_def split: option.splits if_splits)
  from up obtain good rec1 to rec2 where
      j: "judge d (base_record d p ob) ob = Some ((good, True), rec1)"
    and st: "step d (note_sample rec1 ob) good (o_ObservedAt ob) = (to, rec2)"
    and to: "r_State (up_Record up) = to"
    and es: "up_Events up = (if to = r_State rec1 then []
       else case eventFor d (fst (KeyFor d (o_DeviceID ob) (o_Labels ob))) (r_State rec1) to ob of
              Some ev \<Rightarrow> [ev] | None \<Rightarrow> [])"
    by (rule Evaluate_applied)
  have "r_State (note_sample rec1 ob) = r_State rec1" by (simp add: note_sample_def Let_def)
  then have edge: "to \<noteq> r_State rec1 \<Longrightarrow> health_edge (r_State rec1) to"
    using step_edge [OF st] by simp
  have open_p: "alert_open p = (r_State rec1 = StateDown \<or> r_State rec1 = StateRecovering)"
    using judge_state [OF j] base_record_state [of d p ob]
    by (auto simp: alert_open_def split: option.splits)
  have open_r: "alert_open (Some r) = (to = StateDown \<or> to = StateRecovering)"
    using to r by (simp add: alert_open_def)
  show ?thesis
    unfolding open_p open_r r(2) es
    using edge step_to_not_None [OF st]
      eventFor_cases [of d "fst (KeyFor d (o_DeviceID ob) (o_Labels ob))" "r_State rec1" to ob]
    by (cases "r_State rec1"; cases to) (auto split: option.splits)
qed

interpretation state_alerts: alerting "apply_def d" alert_open for d
  by unfold_locales (rule apply_def_emits)

section \<open>The health machine as a function of the history\<close>

text \<open>
  The specification of the machine: what the verdicts so far, newest first, say about the entity.
  The record's counters and stamps are an incremental encoding of it.
\<close>

type_synonym verdict = "bool \<times> gotime"

definition run_of :: "bool \<Rightarrow> verdict list \<Rightarrow> verdict list" where
  "run_of g h = takeWhile (\<lambda>v. fst v = g) h"

definition sustained :: "int \<Rightarrow> duration \<Rightarrow> verdict list \<Rightarrow> bool" where
  "sustained n dur r \<longleftrightarrow> n \<le> int (length r) \<and> dur \<le> time_sub (snd (hd r)) (snd (last r))"

fun spec_open :: "state_def \<Rightarrow> verdict list \<Rightarrow> bool" where
  "spec_open d [] = False"
| "spec_open d (v # h) =
     (if spec_open d h then \<not> (fst v \<and> sustained (sd_RecoverAfter d) (sd_RecoverFor d) (run_of True (v # h)))
      else \<not> fst v \<and> sustained (sd_FailAfter d) (sd_FailFor d) (run_of False (v # h)))"

definition spec_state :: "state_def \<Rightarrow> verdict list \<Rightarrow> health" where
  "spec_state d h =
     (if h = [] then StateNone
      else if spec_open d h then (if fst (hd h) then StateRecovering else StateDown)
      else (if fst (hd h) then StateUp else StateSuspect))"

definition run_start :: "verdict list \<Rightarrow> gotime" where
  "run_start r = (if r = [] then 0 else snd (last r))"

definition encodes :: "state_def \<Rightarrow> state_record \<Rightarrow> verdict list \<Rightarrow> bool" where
  "encodes d rec h \<longleftrightarrow>
     r_State rec = spec_state d h
   \<and> r_Failures rec = int (length (run_of False h)) \<and> r_BadSince rec = run_start (run_of False h)
   \<and> r_Successes rec = (if spec_open d h then int (length (run_of True h)) else 0)
   \<and> r_GoodSince rec = (if spec_open d h then run_start (run_of True h) else 0)"

lemma run_of_Cons [simp]: "run_of g (v # h) = (if fst v = g then v # run_of g h else [])"
  by (simp add: run_of_def)

lemma run_of_Nil [simp]: "run_of g [] = []"
  by (simp add: run_of_def)

lemma run_start_Cons [simp]: "run_start (v # r) = (if r = [] then snd v else run_start r)"
  by (simp add: run_start_def)

lemma run_start_Nil [simp]: "run_start [] = 0"
  by (simp add: run_start_def)

lemma run_of_opposite: "run_of g h \<noteq> [] \<Longrightarrow> run_of (\<not> g) h = []"
  by (cases h) (auto split: if_splits)

lemma run_of_empty_iff: "run_of g h = [] \<longleftrightarrow> h = [] \<or> fst (hd h) \<noteq> g"
  by (cases h) auto

lemma sustained_Cons:
  "sustained n dur (v # r) \<longleftrightarrow> n \<le> int (length r) + 1 \<and> dur \<le> time_sub (snd v) (run_start (v # r))"
  by (auto simp: sustained_def run_start_def)

lemma step_good_encodes:
  assumes "encodes d rec h" "step d rec True tm = (to, rec')"
  shows "encodes d (rec'\<lparr>r_State := to\<rparr>) ((True, tm) # h)"
proof (cases h)
  case Nil
  then show ?thesis using assms
    by (auto simp: encodes_def spec_state_def step_def)
next
  case (Cons v h')
  show ?thesis
  proof (cases "spec_open d h")
    case True
    then have "r_State rec = (if fst v then StateRecovering else StateDown)"
      using assms(1) Cons by (simp add: encodes_def spec_state_def)
    then show ?thesis using assms True Cons
      by (cases "fst v") (auto simp: encodes_def spec_state_def step_def step_good_def Let_def sustained_Cons
            simp del: spec_open.simps(2) simp: spec_open.simps(2) [of d "(True, tm)" "v # h'"] split: if_splits)
  next
    case False
    then have "r_State rec = (if fst v then StateUp else StateSuspect)"
      using assms(1) Cons by (simp add: encodes_def spec_state_def)
    then show ?thesis using assms False Cons
      by (cases "fst v") (auto simp: encodes_def spec_state_def step_def step_good_def Let_def
            simp del: spec_open.simps(2) simp: spec_open.simps(2) [of d "(True, tm)" "v # h'"] split: if_splits)
  qed
qed

lemma step_bad_encodes:
  assumes "encodes d rec h" "step d rec False tm = (to, rec')"
  shows "encodes d (rec'\<lparr>r_State := to\<rparr>) ((False, tm) # h)"
proof (cases h)
  case Nil
  then show ?thesis using assms
    by (auto simp: encodes_def spec_state_def step_def step_bad_def Let_def sustained_Cons split: if_splits)
next
  case (Cons v h')
  show ?thesis
  proof (cases "spec_open d h")
    case True
    then have "r_State rec = (if fst v then StateRecovering else StateDown)"
      using assms(1) Cons by (simp add: encodes_def spec_state_def)
    then show ?thesis using assms True Cons
      by (cases "fst v") (auto simp: encodes_def spec_state_def step_def step_bad_def Let_def
            simp del: spec_open.simps(2) simp: spec_open.simps(2) [of d "(False, tm)" "v # h'"] split: if_splits)
  next
    case False
    then have "r_State rec = (if fst v then StateUp else StateSuspect)"
      using assms(1) Cons by (simp add: encodes_def spec_state_def)
    then show ?thesis using assms False Cons
      by (cases "fst v") (auto simp: encodes_def spec_state_def step_def step_bad_def Let_def sustained_Cons
            simp del: spec_open.simps(2) simp: spec_open.simps(2) [of d "(False, tm)" "v # h'"] split: if_splits)
  qed
qed

lemmas step_encodes = step_good_encodes step_bad_encodes


section \<open>Hysteresis and the accepted samples\<close>

text \<open>
  The sides of a threshold: a value breaches, or clears, and in between neither. The metric counts as
  breached when some value breached and none after it cleared.
\<close>

definition breaches :: "threshold \<Rightarrow> f64 \<Rightarrow> bool" where
  "breaches t f = (case th_BreachAbove t of Some b \<Rightarrow> f64_lt b f
                   | None \<Rightarrow> (case th_BreachBelow t of Some b \<Rightarrow> f64_lt f b | None \<Rightarrow> False))"

definition clears :: "threshold \<Rightarrow> f64 \<Rightarrow> bool" where
  "clears t f = (case th_BreachAbove t of Some b \<Rightarrow> (case th_ClearBelow t of Some c \<Rightarrow> f64_lt f c | None \<Rightarrow> False)
                 | None \<Rightarrow> (case th_ClearAbove t of Some c \<Rightarrow> f64_lt c f | None \<Rightarrow> False))"

definition spec_breached :: "threshold \<Rightarrow> f64 list \<Rightarrow> bool" where
  "spec_breached t vs \<longleftrightarrow> (\<exists>i<length vs. breaches t (vs ! i) \<and> (\<forall>j<i. \<not> clears t (vs ! j)))"

definition value_of :: "observation \<Rightarrow> f64" where
  "value_of ob = (case numeric (o_Value ob) of Some f \<Rightarrow> f | None \<Rightarrow> F_NaN)"

definition usable :: "state_def \<Rightarrow> observation \<Rightarrow> bool" where
  "usable d ob = (case sd_GoodWhen d of
      Some g \<Rightarrow> (case o_Value ob of VBool b \<Rightarrow> True | _ \<Rightarrow> False)
    | None \<Rightarrow> numeric (o_Value ob) \<noteq> None)"

text \<open>The verdict on the newest of the accepted samples, all given newest first.\<close>

definition spec_good :: "state_def \<Rightarrow> observation list \<Rightarrow> bool" where
  "spec_good d obs = (case sd_GoodWhen d of
      Some g \<Rightarrow> (case gw_Equals g of Some b \<Rightarrow> o_Value (hd obs) = VBool b | None \<Rightarrow> False)
    | None \<Rightarrow> (case sd_Threshold d of Some t \<Rightarrow> \<not> spec_breached t (map value_of obs) | None \<Rightarrow> False))"

fun spec_verdicts :: "state_def \<Rightarrow> observation list \<Rightarrow> verdict list" where
  "spec_verdicts d [] = []"
| "spec_verdicts d (ob # obs) = (spec_good d (ob # obs), o_ObservedAt ob) # spec_verdicts d obs"

text \<open>A sample is accepted when it has the definition's type and is newer than every accepted one.\<close>

definition accept :: "state_def \<Rightarrow> observation \<Rightarrow> observation list \<Rightarrow> observation list" where
  "accept d ob acc =
     (if usable d ob \<and> (acc = [] \<or> o_ObservationID (hd acc) \<noteq> o_ObservationID ob
                                   \<and> o_ObservedAt (hd acc) < o_ObservedAt ob)
      then ob # acc else acc)"

text \<open>What the store keeps of an entity after one more sample.\<close>

definition next_record :: "state_def \<Rightarrow> observation \<Rightarrow> state_record option \<Rightarrow> state_record option" where
  "next_record d ob p = (case apply_def d p ob of Some (r, es) \<Rightarrow> Some r | None \<Rightarrow> p)"

definition tracks :: "state_def \<Rightarrow> state_record option \<Rightarrow> observation list \<Rightarrow> bool" where
  "tracks d p acc = (case p of None \<Rightarrow> acc = []
     | Some r \<Rightarrow> acc \<noteq> [] \<and> encodes d r (spec_verdicts d acc)
         \<and> r_LastObservationID r = o_ObservationID (hd acc) \<and> r_LastObservedAt r = o_ObservedAt (hd acc)
         \<and> (\<forall>t. sd_GoodWhen d = None \<and> sd_Threshold d = Some t \<longrightarrow> r_Breached r = spec_breached t (map value_of acc)))"

lemma spec_breached_Nil [simp]: "\<not> spec_breached t []"
  by (simp add: spec_breached_def)

lemma spec_breached_Cons:
  "spec_breached t (v # vs) \<longleftrightarrow> breaches t v \<or> \<not> clears t v \<and> spec_breached t vs"
proof
  assume "spec_breached t (v # vs)"
  then obtain i where i: "i < length (v # vs)" "breaches t ((v # vs) ! i)" "\<forall>j<i. \<not> clears t ((v # vs) ! j)"
    by (auto simp: spec_breached_def)
  show "breaches t v \<or> \<not> clears t v \<and> spec_breached t vs"
  proof (cases i)
    case (Suc k)
    with i have "\<not> clears t v" "k < length vs" "breaches t (vs ! k)" "\<forall>j<k. \<not> clears t (vs ! j)"
      by (auto simp: nth_Cons split: nat.splits)
    then show ?thesis by (auto simp: spec_breached_def)
  qed (use i in simp)
next
  assume "breaches t v \<or> \<not> clears t v \<and> spec_breached t vs"
  then show "spec_breached t (v # vs)"
  proof
    assume "\<not> clears t v \<and> spec_breached t vs"
    then obtain i where "i < length vs" "breaches t (vs ! i)" "\<forall>j<i. \<not> clears t (vs ! j)" "\<not> clears t v"
      by (auto simp: spec_breached_def)
    then show ?thesis
      unfolding spec_breached_def by (intro exI [of _ "Suc i"]) (auto simp: nth_Cons split: nat.splits)
  qed (auto simp: spec_breached_def intro: exI [of _ 0])
qed

lemma breach_step_spec:
  assumes "threshold_problems t = []"
  shows "breach_step t b f = Some (breaches t f \<or> \<not> clears t f \<and> b)"
  using assms by (rule threshold_okE) (auto simp: breach_step_def breaches_def clears_def dest: f64_lt_trans)

lemma judge_spec:
  assumes "validate_def d = []" "tracks d p acc"
  shows "judge d (base_record d p ob) ob =
     Some (if usable d ob then ((spec_good d (ob # acc), True),
             (base_record d p ob)\<lparr>r_Breached := (case sd_GoodWhen d of Some g \<Rightarrow> r_Breached (base_record d p ob)
                 | None \<Rightarrow> \<not> spec_good d (ob # acc))\<rparr>)
           else ((False, False), base_record d p ob))"
proof (cases "sd_GoodWhen d")
  case (Some g)
  then obtain b where "gw_Equals g = Some b"
    using validate_def_thresholdD(2) [OF assms(1)] by blast
  with Some show ?thesis
    by (auto simp: judge_def usable_def spec_good_def split: goval.splits)
next
  case None
  then obtain t where t: "sd_Threshold d = Some t" "threshold_problems t = []"
    using validate_def_thresholdD(1) [OF assms(1)] by blast
  have "r_Breached (base_record d p ob) = spec_breached t (map value_of acc)"
    using assms(2) None t by (auto simp: tracks_def base_record_def zero_record_def split: option.splits)
  with None t show ?thesis
    by (auto simp: judge_def usable_def spec_good_def breach_step_spec spec_breached_Cons value_of_def
             split: option.splits)
qed

lemma tracks_base_encodes:
  "tracks d p acc \<Longrightarrow> encodes d (base_record d p ob) (spec_verdicts d acc)"
  by (auto simp: tracks_def base_record_def encodes_def zero_record_def spec_state_def split: option.splits)

lemma encodes_cong:
  "encodes d rec h \<Longrightarrow> r_State rec' = r_State rec \<Longrightarrow> r_Failures rec' = r_Failures rec \<Longrightarrow>
   r_Successes rec' = r_Successes rec \<Longrightarrow> r_BadSince rec' = r_BadSince rec \<Longrightarrow>
   r_GoodSince rec' = r_GoodSince rec \<Longrightarrow> encodes d rec' h"
  by (simp add: encodes_def)

lemma next_record_tracks:
  assumes "validate_def d = []" "tracks d p acc"
  shows "tracks d (next_record d ob p) (accept d ob acc)"
proof (cases "apply_def d p ob")
  case None
  from Evaluate_total [OF assms(1)] obtain up where up: "Evaluate d p ob = Some up" by blast
  with None have "up_Ignored up \<noteq> NotIgnored" by (auto simp: apply_def_def split: if_splits)
  with up have "accept d ob acc = acc"
    using assms(2) judge_spec [OF assms, of ob]
    by (auto simp: Evaluate_def accept_def tracks_def base_record_def Let_def split: if_splits option.splits prod.splits)
  with None assms(2) show ?thesis by (simp add: next_record_def)
next
  case (Some a)
  then obtain up where up: "Evaluate d p ob = Some up" "up_Ignored up = NotIgnored"
      and a: "a = (up_Record up, up_Events up)"
    by (auto simp: apply_def_def split: option.splits if_splits)
  from up obtain good rec1 to rec2 where
      j: "judge d (base_record d p ob) ob = Some ((good, True), rec1)"
    and st: "step d (note_sample rec1 ob) good (o_ObservedAt ob) = (to, rec2)"
    and rec: "up_Record up = rec2\<lparr>r_State := to, r_LastTransitionAt := r_LastTransitionAt (up_Record up)\<rparr>"
    and new: "\<forall>r. p = Some r \<longrightarrow> r_LastObservationID r \<noteq> o_ObservationID ob \<and> r_LastObservedAt r < o_ObservedAt ob"
    by (rule Evaluate_applied)
  from j judge_spec [OF assms, of ob] have
      us: "usable d ob" and good: "good = spec_good d (ob # acc)" and
      rec1: "rec1 = (base_record d p ob)\<lparr>r_Breached := r_Breached rec1\<rparr>" and
      br: "sd_GoodWhen d = None \<Longrightarrow> r_Breached rec1 = (\<not> good)"
    by (auto split: if_splits)
  have acc: "accept d ob acc = ob # acc"
    using us new assms(2) by (auto simp: accept_def tracks_def split: option.splits)
  have "encodes d (note_sample rec1 ob) (spec_verdicts d acc)"
    using tracks_base_encodes [OF assms(2), of ob]
    by (rule encodes_cong; subst rec1) (simp_all add: note_sample_def Let_def)
  then have "encodes d (rec2\<lparr>r_State := to\<rparr>) (spec_verdicts d (ob # acc))"
    using step_encodes st good by (cases good) auto
  then have "encodes d (up_Record up) (spec_verdicts d (ob # acc))"
    by (rule encodes_cong; subst rec; simp)
  moreover have "r_LastObservationID (up_Record up) = o_ObservationID ob"
      "r_LastObservedAt (up_Record up) = o_ObservedAt ob" "r_Breached (up_Record up) = r_Breached rec1"
    by (subst rec; simp add: step_frame [OF st] note_sample_def Let_def)+
  ultimately show ?thesis
    using br good by (auto simp: tracks_def acc next_record_def Some a spec_good_def)
qed

lemma fold_tracks:
  assumes "validate_def d = []"
  shows "tracks d p acc \<Longrightarrow> tracks d (fold (next_record d) obs p) (fold (accept d) obs acc)"
  by (induction obs arbitrary: p acc) (auto intro: next_record_tracks [OF assms])


lemma apply_def_stamps:
  assumes "apply_def d p ob = Some (r, es)"
  shows "r_LastObservationID r = o_ObservationID ob" "r_LastObservedAt r = o_ObservedAt ob"
    "r_Key r = r_Key (base_record d p ob)" "r_DeviceID r = r_DeviceID (base_record d p ob)"
    "r_DefinitionID r = r_DefinitionID (base_record d p ob)" "r_Labels r = r_Labels (base_record d p ob)"
    "\<forall>q. p = Some q \<longrightarrow> r_LastObservedAt q < o_ObservedAt ob"
proof -
  from assms obtain up where up: "Evaluate d p ob = Some up" "up_Ignored up = NotIgnored"
      and r: "r = up_Record up"
    by (auto simp: apply_def_def split: option.splits if_splits)
  from up obtain good rec1 to rec2 where
      j: "judge d (base_record d p ob) ob = Some ((good, True), rec1)"
    and st: "step d (note_sample rec1 ob) good (o_ObservedAt ob) = (to, rec2)"
    and rec: "up_Record up = rec2\<lparr>r_State := to, r_LastTransitionAt := r_LastTransitionAt (up_Record up)\<rparr>"
    and new: "\<forall>r. p = Some r \<longrightarrow> r_LastObservationID r \<noteq> o_ObservationID ob \<and> r_LastObservedAt r < o_ObservedAt ob"
    by (rule Evaluate_applied)
  show "r_LastObservationID r = o_ObservationID ob" "r_LastObservedAt r = o_ObservedAt ob"
    unfolding r by (subst rec; simp add: step_frame [OF st] note_sample_def Let_def)+
  from judge_frame [OF j] obtain b where "rec1 = (base_record d p ob)\<lparr>r_Breached := b\<rparr>" by blast
  then have f: "r_Key rec1 = r_Key (base_record d p ob)" "r_DeviceID rec1 = r_DeviceID (base_record d p ob)"
      "r_DefinitionID rec1 = r_DefinitionID (base_record d p ob)" "r_Labels rec1 = r_Labels (base_record d p ob)"
    by simp_all
  show "r_Key r = r_Key (base_record d p ob)" "r_DeviceID r = r_DeviceID (base_record d p ob)"
    "r_DefinitionID r = r_DefinitionID (base_record d p ob)" "r_Labels r = r_Labels (base_record d p ob)"
    unfolding r by (subst rec; simp add: step_frame [OF st] note_sample_def Let_def f)+
  show "\<forall>q. p = Some q \<longrightarrow> r_LastObservedAt q < o_ObservedAt ob" using new by blast
qed

lemma tracks_alert_open: "tracks d p acc \<Longrightarrow> alert_open p = spec_open d (spec_verdicts d acc)"
  by (auto simp: tracks_def alert_open_def encodes_def spec_state_def split: option.splits if_splits)

lemma apply_def_accepted:
  assumes "validate_def d = []" "tracks d p acc" "apply_def d p ob = Some (r, es)"
  shows "tracks d (Some r) (ob # acc)"
proof -
  have t: "tracks d (Some r) (accept d ob acc)"
    using next_record_tracks [OF assms(1,2), of ob] assms(3) by (simp add: next_record_def)
  have "accept d ob acc \<noteq> acc"
  proof
    assume "accept d ob acc = acc"
    with t have "acc \<noteq> []" "r_LastObservedAt r = o_ObservedAt (hd acc)" by (auto simp: tracks_def)
    moreover from this assms(2) obtain q where "p = Some q" "r_LastObservedAt q = o_ObservedAt (hd acc)"
      by (auto simp: tracks_def split: option.splits)
    ultimately show False using apply_def_stamps(2,7) [OF assms(3)] by simp
  qed
  with t show ?thesis by (auto simp: accept_def split: if_splits)
qed

lemma spec_open_change:
  assumes "spec_open d (v # h) \<noteq> spec_open d h"
  shows "if fst v then spec_open d h \<and> sustained (sd_RecoverAfter d) (sd_RecoverFor d) (run_of True (v # h))
         else \<not> spec_open d h \<and> sustained (sd_FailAfter d) (sd_FailFor d) (run_of False (v # h))"
  using assms by (auto split: if_splits)

text \<open>Every event an accepted sample emits has the sustained run behind it that its definition asks for.\<close>

lemma apply_def_event_sustained:
  assumes "validate_def d = []" "tracks d p acc" "apply_def d p ob = Some (r, es)" "e \<in> set es"
  shows "if e_Resolves e
         then sustained (sd_RecoverAfter d) (sd_RecoverFor d) (run_of True (spec_verdicts d (ob # acc)))
         else sustained (sd_FailAfter d) (sd_FailFor d) (run_of False (spec_verdicts d (ob # acc)))"
proof -
  have o: "alert_open p = spec_open d (spec_verdicts d acc)"
      "alert_open (Some r) = spec_open d (spec_verdicts d (ob # acc))"
    using tracks_alert_open [OF assms(2)] tracks_alert_open [OF apply_def_accepted [OF assms(1-3)]] by simp_all
  from state_alerts.emits [OF assms(3)] assms(4)
  have "alert_open p \<noteq> alert_open (Some r)" "e_Resolves e = alert_open p"
    by (auto split: if_splits)
  with o spec_open_change [of d "(spec_good d (ob # acc), o_ObservedAt ob)" "spec_verdicts d acc"]
  show ?thesis by (auto simp del: spec_open.simps run_of_Cons split: if_splits)
qed


section \<open>Silence\<close>

lemma stale_sample_total: "validate_def d = [] \<Longrightarrow> stale_sample d rec stamp \<noteq> None"
  using validate_def_thresholdD [of d] by (auto simp: stale_sample_def Let_def split: option.splits)

lemma Get_def_in: "Get_def ds i = Some d \<Longrightarrow> d \<in> set (ds_all ds) \<and> sd_ID d = i"
  by (auto simp: Get_def_def find_Some_iff)

lemma StaleSamples_total:
  assumes "defs_ok ds"
  shows "StaleSamples ds recs now after bucket \<noteq> None"
proof (induction recs)
  case (Cons rec recs)
  have "Get_def ds (r_DefinitionID rec) = Some d \<Longrightarrow> stale_sample d rec (time_truncate now bucket) \<noteq> None" for d
    using assms Get_def_in [of ds "r_DefinitionID rec" d] stale_sample_total [of d rec "time_truncate now bucket"]
    by (auto simp: defs_ok_def list_all_iff)
  with Cons show ?case by (auto split: option.splits)
qed simp

definition silent :: "definitions \<Rightarrow> gotime \<Rightarrow> duration \<Rightarrow> state_record \<Rightarrow> bool" where
  "silent ds now after rec = (case Get_def ds (r_DefinitionID rec) of None \<Rightarrow> False
     | Some d \<Rightarrow> sd_Stale d \<and> r_State rec \<noteq> StateDown \<and> after \<le> time_sub now (r_LastSeenAt rec))"

lemma StaleSamples_set:
  "StaleSamples ds recs now after bucket = Some ss \<Longrightarrow>
     set ss = {s. \<exists>rec \<in> set recs. silent ds now after rec
                 \<and> (\<exists>d. Get_def ds (r_DefinitionID rec) = Some d
                      \<and> stale_sample d rec (time_truncate now bucket) = Some s)}"
proof (induction recs arbitrary: ss)
  case (Cons rec recs)
  show ?case
  proof (cases "silent ds now after rec")
    case True
    then obtain d s ss' where "Get_def ds (r_DefinitionID rec) = Some d"
        "stale_sample d rec (time_truncate now bucket) = Some s" "ss = s # ss'"
        "StaleSamples ds recs now after bucket = Some ss'"
      using Cons.prems by (auto simp: silent_def split: option.splits)
    with True Cons.IH [of ss'] show ?thesis by (auto; force)
  next
    case False
    then have "StaleSamples ds recs now after bucket = Some ss"
      using Cons.prems by (auto simp: silent_def split: option.splits if_splits)
    with Cons.IH False show ?thesis by auto
  qed
qed simp

lemma silent_mono: "silent ds now after rec \<Longrightarrow> now \<le> now' \<Longrightarrow> silent ds now' after rec"
  using time_sub_mono [of now now'] by (auto simp: silent_def split: option.splits intro: order_trans)

lemma judge_stale_good_when:
  assumes "sd_GoodWhen d = Some g" "stale_sample d rec stamp = Some s"
  shows "judge d rec' s = Some ((False, True), rec')"
  using assms by (auto simp: stale_sample_def judge_def Let_def)

lemma stale_sample_unusable: "sd_GoodWhen d = None \<Longrightarrow> stale_sample d rec stamp = Some s \<Longrightarrow> \<not> usable d s"
  by (auto simp: stale_sample_def usable_def numeric_def Let_def)

lemma Evaluate_unusable:
  assumes "\<not> usable d ob" "Evaluate d p ob = Some up"
  shows "up_Ignored up \<noteq> NotIgnored \<and> (\<forall>r. p = Some r \<longrightarrow> up_Record up = r) \<and> up_Events up = []"
  using assms
  by (auto simp: Evaluate_def judge_def usable_def Let_def split: if_splits option.splits prod.splits goval.splits)

section \<open>Properties\<close>

text \<open>
  (C1) The health machine implements its specification: after any sequence of samples, the stored
  record is absent exactly when no sample was accepted, and otherwise its state, its failure and
  success counters and their start times are those the accepted samples determine, where a sample is
  accepted when it has the right type and is newer than the last accepted one, its verdict is
  \<open>good_when\<close> or the hysteresis of the threshold over all accepted values, and an alert opens after
  a sustained run of bad verdicts and closes after a sustained run of good ones.
\<close>

theorem state_machine_refines_spec:
  assumes "validate_def d = []"
  shows "case fold (next_record d) obs None of
           None \<Rightarrow> fold (accept d) obs [] = []
         | Some r \<Rightarrow> fold (accept d) obs [] \<noteq> [] \<and> encodes d r (spec_verdicts d (fold (accept d) obs []))"
  using fold_tracks [OF assms, of None "[]" obs] by (auto simp: tracks_def split: option.splits)

text \<open>
  (C2) Debouncing: whatever came before, an event a sample emits that opens an alert has the
  configured number of consecutive bad verdicts behind it, spanning at least \<open>fail_for\<close>; an event
  that resolves one has \<open>recover_after\<close> consecutive good verdicts spanning \<open>recover_for\<close>.
\<close>

theorem events_are_debounced:
  assumes "validate_def d = []" "fold (next_record d) obs None = p" "fold (accept d) obs [] = acc"
    and "Evaluate d p ob = Some up" "up_Ignored up = NotIgnored" "e \<in> set (up_Events up)"
  shows "if e_Resolves e
         then sustained (sd_RecoverAfter d) (sd_RecoverFor d) (run_of True (spec_verdicts d (ob # acc)))
         else sustained (sd_FailAfter d) (sd_FailFor d) (run_of False (spec_verdicts d (ob # acc)))"
proof (rule apply_def_event_sustained)
  show "tracks d p acc" using fold_tracks [OF assms(1), of None "[]" obs] assms(2,3) by (simp add: tracks_def)
  show "apply_def d p ob = Some (up_Record up, up_Events up)" using assms by (simp add: apply_def_def)
qed (use assms in auto)

text \<open>
  (C3) The events of one entity alternate: starting without a record the first opens an alert, every
  opening event is followed by a resolving one before the next opens, and the alert is open after the
  run exactly when the last event opened it.
\<close>

theorem state_events_alternate:
  assumes "run_alerts (apply_def d) None obs = (p, es)"
  shows "alternating False es \<and> (alert_open p \<longleftrightarrow> odd (length es))"
  using state_alerts.run_alternates [OF assms] by (simp add: alert_open_def)

text \<open>
  Redelivery of a sample is harmless: once it has been applied, evaluating the same sample again
  is ignored as a duplicate, with no transition and no event, and leaves the record as it is.
\<close>

theorem redelivery_ignored:
  assumes "Evaluate d p ob = Some up" "up_Ignored up = NotIgnored"
  shows "Evaluate d (Some (up_Record up)) ob =
           Some \<lparr>up_Record = up_Record up, up_Transitions = [], up_Events = [], up_Ignored = Duplicate\<rparr>"
proof -
  have "apply_def d p ob = Some (up_Record up, up_Events up)" using assms by (simp add: apply_def_def)
  from apply_def_stamps(1) [OF this] show ?thesis by (simp add: Evaluate_def Let_def KeyFor_def)
qed

text \<open>
  (C4) A definitions file that parses yields only validated definitions with distinct ids; the index
  by metric finds exactly the definitions of the file for the metric and the device type, in file
  order; and evaluating any of them on any sample, and synthesising stale samples, never panics.
\<close>

theorem parsed_definitions_total:
  assumes "Parse_defs doc = Inr ds"
  shows "distinct (map sd_ID doc)
       \<and> For_defs ds m t = filter (\<lambda>d. sd_Metric d = m \<and> appliesTo d t) doc
       \<and> (\<forall>d \<in> set (For_defs ds m t). validate_def d = [] \<and> Evaluate d p ob \<noteq> None)
       \<and> StaleSamples ds recs now after bucket \<noteq> None"
  using Parse_defs_ok [OF assms] For_defs_eq [of ds m t] For_defs_valid [of ds _ m t] Evaluate_total [of _ p ob]
    StaleSamples_total [of ds recs now after bucket]
  by (auto simp: defs_ok_def)

text \<open>
  (C5) Silence counts as failure for boolean metrics: when the sweep finds an entity of a
  \<open>stale\<close> definition with \<open>good_when\<close> silent for \<open>staleAfter\<close> and not down, it synthesises a
  sample for it, and that sample is judged bad.
\<close>

theorem silence_is_bad:
  assumes "Parse_defs doc = Inr ds" "StaleSamples ds recs now after bucket = Some ss"
    and "rec \<in> set recs" "Get_def ds (r_DefinitionID rec) = Some d" "sd_Stale d" "sd_GoodWhen d = Some g"
    and "r_State rec \<noteq> StateDown" "after \<le> time_sub now (r_LastSeenAt rec)"
  shows "\<exists>s \<in> set ss. o_DeviceID s = r_DeviceID rec \<and> o_Labels s = r_Labels rec
            \<and> o_ObservedAt s = time_truncate now bucket \<and> judge d rec s = Some ((False, True), rec)"
proof -
  have "validate_def d = []"
    using Parse_defs_ok [OF assms(1)] Get_def_in [OF assms(4)] by (auto simp: defs_ok_def list_all_iff)
  then obtain s where s: "stale_sample d rec (time_truncate now bucket) = Some s"
    using stale_sample_total by blast
  have "silent ds now after rec" using assms by (simp add: silent_def)
  then have "s \<in> set ss" using StaleSamples_set [OF assms(2)] s assms(3,4) by auto
  moreover have "o_DeviceID s = r_DeviceID rec" "o_Labels s = r_Labels rec" "o_ObservedAt s = time_truncate now bucket"
    using s by (auto simp: stale_sample_def Let_def)
  ultimately show ?thesis using judge_stale_good_when [OF assms(6) s] by blast
qed

text \<open>
  (C6) For a threshold definition silence never counts: the synthetic sample is a boolean, which the
  threshold cannot judge, so it is ignored and the record stays as it is, however long the silence.
\<close>

theorem silence_ignored_by_threshold:
  assumes "sd_GoodWhen d = None" "stale_sample d rec stamp = Some s" "Evaluate d (Some rec) s = Some up"
  shows "up_Ignored up \<noteq> NotIgnored \<and> up_Record up = rec \<and> up_Events up = []"
  using Evaluate_unusable [OF stale_sample_unusable [OF assms(1,2)] assms(3)] by simp

text \<open>
  Sweeping twice in the same bucket repeats itself: everything the earlier sweep synthesised,
  observation ids included, the later one synthesises again from the same records.
\<close>

theorem sweep_repeats_in_bucket:
  assumes "StaleSamples ds recs now after bucket = Some ss" "StaleSamples ds recs now' after bucket = Some ss'"
    and "now \<le> now'" "time_truncate now bucket = time_truncate now' bucket"
  shows "set ss \<subseteq> set ss'"
  unfolding StaleSamples_set [OF assms(1)] StaleSamples_set [OF assms(2)] assms(4)
  using silent_mono [OF _ assms(3)] by blast

section \<open>Witnesses\<close>

definition ex_spec :: event_spec where
  "ex_spec = \<lparr>es_Event = ''device_down'', es_Severity = SeverityCritical, es_Message = []\<rparr>"

definition ex_reach :: state_def where
  "ex_reach = \<lparr>sd_ID = ''reach'', sd_Metric = ''device.reachable'', sd_KeyLabels = [], sd_DeviceTypes = [],
     sd_GoodWhen = Some \<lparr>gw_Equals = Some True\<rparr>, sd_Threshold = None, sd_FailAfter = 2, sd_FailFor = 10,
     sd_RecoverAfter = 1, sd_RecoverFor = 0, sd_Stale = True, sd_Alert = ex_spec, sd_Recovery = ex_spec\<rparr>"

definition ex_temp :: state_def where
  "ex_temp = ex_reach\<lparr>sd_ID := ''temp'', sd_Metric := ''device.temperature'', sd_GoodWhen := None,
     sd_Threshold := Some \<lparr>th_BreachAbove = Some (F_Fin 80), th_ClearBelow = Some (F_Fin 70),
        th_BreachBelow = None, th_ClearAbove = None\<rparr>\<rparr>"

definition ex_ob :: "string \<Rightarrow> gotime \<Rightarrow> goval \<Rightarrow> observation" where
  "ex_ob i tm v = \<lparr>o_ObservationID = i, o_CorrelationID = i, o_DeviceID = ''r1'', o_Source = ''snmp'',
     o_Metric = ''device.reachable'', o_Value = v, o_Labels = fmempty, o_ObservedAt = tm, o_ReceivedAt = tm,
     o_Metadata = fmempty\<rparr>"

definition ex_rec :: state_record where
  "ex_rec = zero_record\<lparr>r_Key := ''k'', r_DefinitionID := ''reach'', r_DeviceID := ''r1'', r_State := StateUp\<rparr>"

lemmas ex_defs = ex_spec_def ex_reach_def ex_temp_def ex_ob_def ex_rec_def zero_record_def

lemma ex_reach_valid: "validate_def ex_reach = []" by code_simp

lemma ex_temp_valid: "validate_def ex_temp = []" by code_simp

text \<open>The record after a sample, computed without the event and transition ids.\<close>

lemma next_record_eq [code]:
  "next_record d ob p =
     (if (case p of Some r \<Rightarrow> r_LastObservationID r = o_ObservationID ob \<or> o_ObservedAt ob \<le> r_LastObservedAt r
                  | None \<Rightarrow> False) then p
      else case judge d (base_record d p ob) ob of
             Some ((good, ok), r1) \<Rightarrow>
               if ok then (case step d (note_sample r1 ob) good (o_ObservedAt ob) of (to, r2) \<Rightarrow>
                 Some (if to = r_State r1 then r2 else r2\<lparr>r_State := to, r_LastTransitionAt := o_ObservedAt ob\<rparr>))
               else p
           | None \<Rightarrow> p)"
  by (auto simp: next_record_def apply_def_def Evaluate_def base_record_def KeyFor_def Let_def
           split: option.splits prod.splits if_splits)

lemma next_record_opens:
  assumes "\<not> alert_open p" "alert_open (next_record d ob p)"
  obtains up e where "Evaluate d p ob = Some up" "up_Ignored up = NotIgnored" "e \<in> set (up_Events up)"
    "\<not> e_Resolves e"
proof -
  from assms obtain r es where a: "apply_def d p ob = Some (r, es)" "alert_open (Some r)"
    by (auto simp: next_record_def split: option.splits)
  then obtain up where up: "Evaluate d p ob = Some up" "up_Ignored up = NotIgnored" "es = up_Events up"
    by (auto simp: apply_def_def split: option.splits if_splits)
  from state_alerts.emits [OF a(1)] a(2) assms(1) obtain e where "es = [e]" "\<not> e_Resolves e"
    by auto
  then have "e \<in> set (up_Events up)" using up(3) by (metis list.set_intros(1))
  from up(1,2) this \<open>\<not> e_Resolves e\<close> show thesis by (rule that)
qed

definition ex_obs :: "observation list" where
  "ex_obs = [ex_ob ''a'' 5 (VBool True), ex_ob ''b'' 15 (VBool False)]"

theorem state_machine_refines_spec_witness:
  "case fold (next_record ex_reach) ex_obs None of
      None \<Rightarrow> False
    | Some r \<Rightarrow> r_State r = StateSuspect
        \<and> encodes ex_reach r (spec_verdicts ex_reach (fold (accept ex_reach) ex_obs []))"
proof -
  have "map_option r_State (fold (next_record ex_reach) ex_obs None) = Some StateSuspect" by code_simp
  then show ?thesis
    using state_machine_refines_spec [OF ex_reach_valid, of ex_obs] by (auto split: option.splits)
qed

theorem events_are_debounced_witness:
  "\<exists>up e. Evaluate ex_reach (fold (next_record ex_reach) ex_obs None) (ex_ob ''c'' 25 (VBool False)) = Some up
     \<and> e \<in> set (up_Events up) \<and> \<not> e_Resolves e
     \<and> sustained 2 10 (run_of False (spec_verdicts ex_reach (ex_ob ''c'' 25 (VBool False) # fold (accept ex_reach) ex_obs [])))"
proof -
  have "\<not> alert_open (fold (next_record ex_reach) ex_obs None)"
    "alert_open (next_record ex_reach (ex_ob ''c'' 25 (VBool False)) (fold (next_record ex_reach) ex_obs None))"
    by code_simp+
  then obtain up e where
      "Evaluate ex_reach (fold (next_record ex_reach) ex_obs None) (ex_ob ''c'' 25 (VBool False)) = Some up"
      "up_Ignored up = NotIgnored" "e \<in> set (up_Events up)" "\<not> e_Resolves e"
    by (rule next_record_opens)
  then show ?thesis
    using events_are_debounced [OF ex_reach_valid refl refl, of ex_obs "ex_ob ''c'' 25 (VBool False)" up e]
    by (auto simp: ex_reach_def simp del: run_of_Cons)
qed

theorem state_events_alternate_witness:
  "\<exists>p es. run_alerts (apply_def ex_reach) None ex_obs = (p, es) \<and> alternating False es"
  using state_events_alternate [of ex_reach ex_obs] by (cases "run_alerts (apply_def ex_reach) None ex_obs") auto

theorem redelivery_ignored_witness:
  "\<exists>up. Evaluate ex_reach None (ex_ob ''a'' 5 (VBool True)) = Some up
     \<and> up_Ignored up = NotIgnored
     \<and> (\<exists>u. Evaluate ex_reach (Some (up_Record up)) (ex_ob ''a'' 5 (VBool True)) = Some u
          \<and> up_Ignored u = Duplicate \<and> up_Record u = up_Record up)"
proof -
  have "next_record ex_reach (ex_ob ''a'' 5 (VBool True)) None \<noteq> None" by code_simp
  then obtain up where "Evaluate ex_reach None (ex_ob ''a'' 5 (VBool True)) = Some up" "up_Ignored up = NotIgnored"
    by (auto simp: next_record_def apply_def_def split: option.splits if_splits)
  then show ?thesis using redelivery_ignored [of ex_reach None "ex_ob ''a'' 5 (VBool True)" up] by auto
qed

definition ex_definitions :: definitions where
  "ex_definitions = \<lparr>ds_all = [ex_reach, ex_temp],
     ds_byMetric = fmap_of_list [(''device.temperature'', [ex_temp]), (''device.reachable'', [ex_reach])]\<rparr>"

lemma ex_Parse: "Parse_defs [ex_reach, ex_temp] = Inr ex_definitions"
  by (simp add: Parse_defs_def ex_reach_valid ex_temp_valid ex_definitions_def at_metric_def)
     (simp add: ex_defs fmap_of_list.rep_eq)

theorem parsed_definitions_total_witness:
  "For_defs ex_definitions ''device.reachable'' ''router'' = [ex_reach]"
  using parsed_definitions_total [OF ex_Parse, of "''device.reachable''" "''router''"]
  by (simp add: ex_reach_def ex_temp_def appliesTo_def)

lemma ex_Get_def: "Get_def ex_definitions (r_DefinitionID ex_rec) = Some ex_reach"
  by (simp add: ex_definitions_def ex_defs Get_def_def)

lemma ex_StaleSamples: "\<exists>ss. StaleSamples ex_definitions [ex_rec] now after bucket = Some ss"
  using StaleSamples_total [of ex_definitions] Parse_defs_ok [OF ex_Parse] by blast

theorem silence_is_bad_witness:
  "\<exists>ss. StaleSamples ex_definitions [ex_rec] 100 60 30 = Some ss
      \<and> (\<exists>s \<in> set ss. o_ObservedAt s = 90 \<and> judge ex_reach ex_rec s = Some ((False, True), ex_rec))"
proof -
  obtain ss where ss: "StaleSamples ex_definitions [ex_rec] 100 60 30 = Some ss"
    using ex_StaleSamples by blast
  have "60 \<le> time_sub 100 (r_LastSeenAt ex_rec)" "time_truncate 100 30 = 90" by code_simp+
  then show ?thesis
    using silence_is_bad [OF ex_Parse ss _ ex_Get_def, of "\<lparr>gw_Equals = Some True\<rparr>"] ss
    by (auto simp: ex_defs)
qed

theorem silence_ignored_by_threshold_witness:
  "\<exists>s up. stale_sample ex_temp ex_rec 90 = Some s \<and> Evaluate ex_temp (Some ex_rec) s = Some up
     \<and> up_Ignored up \<noteq> NotIgnored \<and> up_Record up = ex_rec"
proof -
  obtain s up where "stale_sample ex_temp ex_rec 90 = Some s" "Evaluate ex_temp (Some ex_rec) s = Some up"
    using stale_sample_total [OF ex_temp_valid, of ex_rec 90] Evaluate_total [OF ex_temp_valid] by blast
  then show ?thesis
    using silence_ignored_by_threshold [of ex_temp ex_rec 90 s up] by (auto simp: ex_temp_def)
qed

theorem sweep_repeats_in_bucket_witness:
  "\<exists>ss ss'. StaleSamples ex_definitions [ex_rec] 100 60 30 = Some ss
     \<and> StaleSamples ex_definitions [ex_rec] 110 60 30 = Some ss' \<and> set ss \<subseteq> set ss'"
proof -
  obtain ss ss' where "StaleSamples ex_definitions [ex_rec] 100 60 30 = Some ss"
      "StaleSamples ex_definitions [ex_rec] 110 60 30 = Some ss'"
    using ex_StaleSamples by metis
  then show ?thesis
    using sweep_repeats_in_bucket [of ex_definitions "[ex_rec]" 100 60 30 ss 110 ss']
    by (simp add: time_truncate_def)
qed

end
