(* ===== verification/Rules.thy ===== *)
theory Rules
  imports State_Engine
begin

text \<open>
  Package \<open>internal/rules\<close> (rules.go): monitoring rules over a window of a series, their
  validation and index, and the pure evaluator. As in the state engine, a nil pointer that is
  dereferenced or an index into an empty slice is \<open>None\<close>.
\<close>


section \<open>Rules\<close>

record rule_match =
  m_DeviceType :: "string list"
  m_Metric :: string
  m_Site :: string
  m_Tags :: "string list"

record rule_condition =
  rc_Transitions :: int
  rc_Within :: duration
  rc_AverageOver :: duration
  rc_MaxOver :: duration
  rc_MinOver :: duration
  rc_GreaterThan :: "f64 option"
  rc_LessThan :: "f64 option"
  rc_MinSamples :: int

record rule =
  ru_ID :: string
  ru_Description :: string
  ru_Match :: rule_match
  ru_Condition :: rule_condition
  ru_Severity :: severity
  ru_Event :: string
  ru_ClearEvent :: string
  ru_Message :: string

definition Window :: "rule \<Rightarrow> duration" where
  "Window r =
     (let c = ru_Condition r
      in if 0 < rc_Transitions c then rc_Within c
         else if 0 < rc_AverageOver c then rc_AverageOver c
         else if 0 < rc_MaxOver c then rc_MaxOver c
         else rc_MinOver c)"

definition agg_windows :: "rule_condition \<Rightarrow> duration list" where
  "agg_windows c = filter (\<lambda>d. d \<noteq> 0) [rc_AverageOver c, rc_MaxOver c, rc_MinOver c]"

definition validate_rule :: "rule \<Rightarrow> string list" where
  "validate_rule r =
     (let c = ru_Condition r;
          counts = 0 < rc_Transitions c \<or> 0 < rc_Within c;
          aggs = length (agg_windows c);
          kinds = (if counts then 1 else 0) + (if aggs = 1 then 1 else 0 :: nat)
      in (if ru_ID r = [] then [''id is required''] else [])
       @ (if m_Metric (ru_Match r) = [] then [''match.metric is required''] else [])
       @ map (\<lambda>t. ''unknown device type '' @ quote_q t)
             (filter (\<lambda>t. \<not> DeviceType_Valid t) (m_DeviceType (ru_Match r)))
       @ (if \<not> Severity_Valid (ru_Severity r) then [''severity must be info, warning or critical''] else [])
       @ (if counts \<and> (rc_Transitions c < 1 \<or> rc_Within c \<le> 0)
          then [''transitions needs both a count >= 1 and a within window''] else [])
       @ map (\<lambda>_. ''aggregate windows must be positive'') (filter (\<lambda>d. d < 0) (agg_windows c))
       @ (if 1 < aggs then [''use only one of average_over, max_over, min_over''] else [])
       @ (if aggs = 1 then
            (if (rc_GreaterThan c = None) = (rc_LessThan c = None)
             then [''an aggregate needs exactly one of greater_than or less_than''] else [])
          else
            (if rc_GreaterThan c \<noteq> None \<or> rc_LessThan c \<noteq> None
             then [''greater_than/less_than need average_over, max_over or min_over''] else []))
       @ (if kinds \<noteq> 1 then [''condition must be exactly one of transitions+within or an aggregate''] else [])
       @ (if rc_MinSamples c < 0 then [''min_samples must not be negative''] else []))"

definition eventName :: "rule \<Rightarrow> string" where
  "eventName r = (if ru_Event r \<noteq> [] then ru_Event r else ''rule.triggered'')"

definition clearEventName :: "rule \<Rightarrow> string" where
  "clearEventName r = (if ru_ClearEvent r \<noteq> [] then ru_ClearEvent r else ''rule.cleared'')"

record rules =
  rs_all :: "rule list"
  rs_byMetric :: "(string, rule list) fmap"

text \<open>\<open>Parse\<close> after the YAML decoder.\<close>

fun parse_rules_loop :: "rules \<Rightarrow> string set \<Rightarrow> rule list \<Rightarrow> goerr + rules" where
  "parse_rules_loop rs seen [] = Inr rs"
| "parse_rules_loop rs seen (r # rest) =
     (if validate_rule r \<noteq> [] then
        Inl (Errorf CategoryValidation (''rule '' @ quote_q (ru_ID r) @ '': '' @ join_sep ''; '' (validate_rule r)))
      else if ru_ID r \<in> seen then Inl (Errorf CategoryValidation (''duplicate rule id '' @ quote_q (ru_ID r)))
      else parse_rules_loop
             (rs\<lparr>rs_all := rs_all rs @ [r],
                 rs_byMetric := fmupd (m_Metric (ru_Match r))
                   (at_metric (rs_byMetric rs) (m_Metric (ru_Match r)) @ [r]) (rs_byMetric rs)\<rparr>)
             (insert (ru_ID r) seen) rest)"

definition Parse_rules :: "rule list \<Rightarrow> goerr + rules" where
  "Parse_rules doc = parse_rules_loop \<lparr>rs_all = [], rs_byMetric = fmempty\<rparr> {} doc"

definition matches_device :: "rule \<Rightarrow> device \<Rightarrow> bool" where
  "matches_device r dev \<longleftrightarrow>
     \<not> (m_DeviceType (ru_Match r) \<noteq> [] \<and> \<not> list_ex (\<lambda>x. x = d_DeviceType dev) (m_DeviceType (ru_Match r)))
   \<and> \<not> (m_Site (ru_Match r) \<noteq> [] \<and> m_Site (ru_Match r) \<noteq> d_Site dev)
   \<and> list_all (HasTag dev) (m_Tags (ru_Match r))"

text \<open>\<open>None\<close> is the nil set of rules, for which \<open>For\<close> returns nothing.\<close>

definition For_rules :: "rules option \<Rightarrow> string \<Rightarrow> device \<Rightarrow> rule list" where
  "For_rules rs metric dev = (case rs of
     None \<Rightarrow> [] | Some s \<Rightarrow> filter (\<lambda>r. matches_device r dev) (at_metric (rs_byMetric s) metric))"

definition KeyFor_rule :: "rule \<Rightarrow> string \<Rightarrow> strmap \<Rightarrow> string \<times> strmap" where
  "KeyFor_rule r deviceID labels = (''rule:'' @ ru_ID r @ ''/'' @ deviceID @ ''/'' @ LabelsKey labels, labels)"


section \<open>Conditions\<close>

definition truthy :: "sample \<Rightarrow> bool" where
  "truthy s = (case smp_Bool s of Some b \<Rightarrow> b | None \<Rightarrow> \<not> f64_eq (smp_Num s) (F_Fin 0))"

fun count_flips :: "sample list \<Rightarrow> int" where
  "count_flips (x # y # rest) = (if truthy y \<noteq> truthy x then 1 else 0) + count_flips (y # rest)"
| "count_flips _ = 0"

definition average :: "sample list \<Rightarrow> f64" where
  "average ss =
     (if ss = [] then F_NaN
      else f64_div_rat (foldl (\<lambda>sum s. f64_add sum (smp_Num s)) (F_Fin 0) ss) (of_nat (length ss)))"

text \<open>\<open>None\<close> when \<open>samples[0]\<close> of an empty slice or a nil limit is read.\<close>

definition measure_samples :: "rule_condition \<Rightarrow> sample list \<Rightarrow> f64 option" where
  "measure_samples c ss =
     (if 0 < rc_AverageOver c then Some (average ss)
      else if ss = [] then None
      else if 0 < rc_MaxOver c then Some (foldl (\<lambda>acc s. f64_max acc (smp_Num s)) (smp_Num (hd ss)) ss)
      else Some (foldl (\<lambda>acc s. f64_min acc (smp_Num s)) (smp_Num (hd ss)) ss))"

definition condition :: "rule_condition \<Rightarrow> sample list \<Rightarrow> (bool \<times> f64) option" where
  "condition c ss =
     (if 0 < rc_Transitions c then
        Some (rc_Transitions c \<le> count_flips ss, f64_of_int (count_flips ss))
      else
        (let minSamples = (if rc_MinSamples c = 0 then 3 else rc_MinSamples c)
         in if int (length ss) < minSamples then Some (False, F_Fin 0)
            else case measure_samples c ss of
                   None \<Rightarrow> None
                 | Some measured \<Rightarrow>
                     (case rc_GreaterThan c of
                        Some g \<Rightarrow> Some (f64_lt g measured, measured)
                      | None \<Rightarrow> map_option (\<lambda>l. (f64_lt measured l, measured)) (rc_LessThan c))))"

definition render_rule :: "rule \<Rightarrow> bool \<Rightarrow> observation \<Rightarrow> f64 \<Rightarrow> string" where
  "render_rule r clear ob measured =
     (if ru_Message r = [] then
        ''rule '' @ ru_ID r @ (if clear then '' cleared on '' else '' triggered on '') @ o_DeviceID ob
      else replace_all
             ([(''{device}'', o_DeviceID ob), (''{value}'', format_g6 measured), (''{rule}'', ru_ID r)]
              @ map (\<lambda>(k, v). (''{'' @ k @ ''}'', v)) (fm_items (o_Labels ob)))
             (ru_Message r))"

definition prevState :: "state_record option \<Rightarrow> health" where
  "prevState p = (case p of None \<Rightarrow> StateUp | Some r \<Rightarrow> r_State r)"


section \<open>Evaluation\<close>

text \<open>The record a rule starts from, and the bookkeeping of one evaluation.\<close>

definition rule_record :: "rule \<Rightarrow> state_record option \<Rightarrow> observation \<Rightarrow> f64 \<Rightarrow> state_record" where
  "rule_record r prev ob measured =
     (case prev of
        Some p \<Rightarrow> p
      | None \<Rightarrow> zero_record\<lparr>r_Key := fst (KeyFor_rule r (o_DeviceID ob) (o_Labels ob)), r_DeviceID := o_DeviceID ob,
                 r_DefinitionID := ''rule:'' @ ru_ID r, r_Labels := o_Labels ob, r_State := StateUp\<rparr>)
       \<lparr>r_LastObservedAt := o_ObservedAt ob, r_LastObservationID := o_ObservationID ob,
        r_LastSeenAt := o_ObservedAt ob, r_LastValue := format_g6 measured\<rparr>"

definition rule_event :: "rule \<Rightarrow> bool \<Rightarrow> observation \<Rightarrow> f64 \<Rightarrow> event" where
  "rule_event r resolves ob measured =
     (let name = (if resolves then clearEventName r else eventName r);
          evLabels = fmupd ''rule_id'' (ru_ID r) (o_Labels ob)
      in \<lparr>e_EventID = StableID [''evt'', o_DeviceID ob, ru_ID r, LabelsKey evLabels, name, o_ObservationID ob],
          e_CorrelationID = o_CorrelationID ob, e_DeviceID = o_DeviceID ob, e_Type = name,
          e_Severity = (if resolves then SeverityInfo else ru_Severity r),
          e_Message = render_rule r resolves ob measured, e_Labels = evLabels, e_OccurredAt = o_ObservedAt ob,
          e_ObservationID = o_ObservationID ob, e_Source = ''rule:'' @ ru_ID r,
          e_AlertKey = fst (KeyFor_rule r (o_DeviceID ob) (o_Labels ob)), e_Resolves = resolves\<rparr>)"

definition Evaluate_rule :: "rule \<Rightarrow> state_record option \<Rightarrow> sample list \<Rightarrow> observation \<Rightarrow> update option" where
  "Evaluate_rule r prev samples ob =
     (let key = fst (KeyFor_rule r (o_DeviceID ob) (o_Labels ob));
          base = (case prev of Some p \<Rightarrow> p | None \<Rightarrow> zero_record);
          ignored = (\<lambda>why. Some \<lparr>up_Record = base, up_Transitions = [], up_Events = [], up_Ignored = why\<rparr>)
      in if prev \<noteq> None \<and> r_LastObservationID base = o_ObservationID ob then ignored Duplicate
         else if prev \<noteq> None \<and> o_ObservedAt ob \<le> r_LastObservedAt base then ignored Stale
         else case condition (ru_Condition r) samples of
           None \<Rightarrow> None
         | Some (holds, measured) \<Rightarrow>
             (let active = (prev \<noteq> None \<and> r_State base = StateDown);
                  rec = rule_record r prev ob measured
              in if active = holds then
                   Some \<lparr>up_Record = (if prev = None then rec\<lparr>r_LastTransitionAt := o_ObservedAt ob\<rparr> else rec),
                         up_Transitions = [], up_Events = [], up_Ignored = NotIgnored\<rparr>
                 else
                   (let rec' = rec\<lparr>r_State := (if holds then StateDown else StateUp), r_LastTransitionAt := o_ObservedAt ob\<rparr>
                    in Some
                      \<lparr>up_Record = rec',
                       up_Transitions =
                         [\<lparr>t_TransitionID = StableID [''tr'', key, o_ObservationID ob], t_Key = key,
                           t_DeviceID = o_DeviceID ob, t_DefinitionID = r_DefinitionID rec', t_Labels = r_Labels rec',
                           t_From = prevState prev, t_To = r_State rec', t_At = o_ObservedAt ob,
                           t_ObservationID = o_ObservationID ob, t_CorrelationID = o_CorrelationID ob\<rparr>],
                       up_Events = [rule_event r (\<not> holds) ob measured],
                       up_Ignored = NotIgnored\<rparr>)))"


section \<open>Validated rules\<close>

lemma validate_rule_kind:
  assumes "validate_rule r = []"
  obtains (transitions) "1 \<le> rc_Transitions (ru_Condition r)" "0 < rc_Within (ru_Condition r)"
      "agg_windows (ru_Condition r) = []"
  | (aggregate) w where "rc_Transitions (ru_Condition r) \<le> 0" "agg_windows (ru_Condition r) = [w]" "0 < w"
      "(rc_GreaterThan (ru_Condition r) = None) \<noteq> (rc_LessThan (ru_Condition r) = None)"
      "0 \<le> rc_MinSamples (ru_Condition r)"
proof (cases "0 < rc_Transitions (ru_Condition r) \<or> 0 < rc_Within (ru_Condition r)")
  case True
  with assms have "agg_windows (ru_Condition r) = []"
    by (cases "agg_windows (ru_Condition r)") (auto simp: validate_rule_def Let_def split: if_splits)
  with True assms show ?thesis
    by (intro transitions) (auto simp: validate_rule_def Let_def split: if_splits)
next
  case False
  with assms have one: "length (agg_windows (ru_Condition r)) = 1"
    by (auto simp: validate_rule_def Let_def split: if_splits)
  then obtain w where w: "agg_windows (ru_Condition r) = [w]" by (auto simp: length_Suc_conv)
  then have "w \<in> set (agg_windows (ru_Condition r))" by simp
  then have "w \<noteq> 0" by (auto simp: agg_windows_def split: if_splits)
  with w False assms show ?thesis
    by (intro aggregate [of w]) (auto simp: validate_rule_def Let_def split: if_splits)
qed

lemma condition_total:
  assumes "validate_rule r = []"
  shows "condition (ru_Condition r) ss \<noteq> None"
  using assms
proof (cases rule: validate_rule_kind)
  case transitions
  then show ?thesis by (simp add: condition_def)
next
  case (aggregate w)
  then show ?thesis
    by (auto simp: condition_def measure_samples_def Let_def split: option.splits)
qed

lemma Evaluate_rule_total: "validate_rule r = [] \<Longrightarrow> Evaluate_rule r p ss ob \<noteq> None"
  using condition_total [of r ss] by (auto simp: Evaluate_rule_def Let_def split: option.splits)

definition rules_ok :: "rules \<Rightarrow> bool" where
  "rules_ok rs \<longleftrightarrow>
     list_all (\<lambda>r. validate_rule r = []) (rs_all rs) \<and> distinct (map ru_ID (rs_all rs))
   \<and> (\<forall>m. at_metric (rs_byMetric rs) m = filter (\<lambda>r. m_Metric (ru_Match r) = m) (rs_all rs))"

lemma parse_rules_loop_ok:
  "parse_rules_loop rs seen doc = Inr rs' \<Longrightarrow> rules_ok rs \<Longrightarrow> seen = set (map ru_ID (rs_all rs)) \<Longrightarrow>
     rules_ok rs' \<and> rs_all rs' = rs_all rs @ doc"
proof (induction rs seen doc arbitrary: rs' rule: parse_rules_loop.induct)
  case (2 rs seen r rest)
  let ?rs = "rs\<lparr>rs_all := rs_all rs @ [r], rs_byMetric := fmupd (m_Metric (ru_Match r))
     (at_metric (rs_byMetric rs) (m_Metric (ru_Match r)) @ [r]) (rs_byMetric rs)\<rparr>"
  from "2.prems"(1) have v: "validate_rule r = []" "ru_ID r \<notin> seen"
    and run: "parse_rules_loop ?rs (insert (ru_ID r) seen) rest = Inr rs'"
    by (auto split: if_splits)
  have ok: "rules_ok ?rs"
    using "2.prems"(2,3) v by (auto simp: rules_ok_def at_metric_def)
  from "2.IH" [OF _ _ run ok] v "2.prems"(3) show ?case by auto
qed simp

lemma Parse_rules_ok: "Parse_rules doc = Inr rs \<Longrightarrow> rules_ok rs \<and> rs_all rs = doc"
  using parse_rules_loop_ok [of "\<lparr>rs_all = [], rs_byMetric = fmempty\<rparr>" "{}" doc rs]
  by (auto simp: Parse_rules_def rules_ok_def at_metric_def)

lemma For_rules_valid: "rules_ok rs \<Longrightarrow> r \<in> set (For_rules (Some rs) m dev) \<Longrightarrow> validate_rule r = []"
  by (auto simp: For_rules_def rules_ok_def list_all_iff)

lemma For_rules_None [simp]: "For_rules None m dev = []"
  by (simp add: For_rules_def)

section \<open>What the conditions mean\<close>

lemma count_flips_card:
  "count_flips ss = int (card {i. Suc i < length ss \<and> truthy (ss ! i) \<noteq> truthy (ss ! Suc i)})"
proof (induction ss rule: count_flips.induct)
  case (1 x y rest)
  let ?D = "\<lambda>ss. {i. Suc i < length ss \<and> truthy (ss ! i) \<noteq> truthy (ss ! Suc i)}"
  have fin: "finite (?D zs)" for zs by (rule finite_subset [of _ "{..<length zs}"]) auto
  have "?D (x # y # rest) = (if truthy y \<noteq> truthy x then {0} else {}) \<union> Suc ` ?D (y # rest)"
  proof (rule set_eqI)
    fix i
    show "i \<in> ?D (x # y # rest) \<longleftrightarrow> i \<in> (if truthy y \<noteq> truthy x then {0} else {}) \<union> Suc ` ?D (y # rest)"
      by (cases i) auto
  qed
  then have "card (?D (x # y # rest)) = (if truthy y \<noteq> truthy x then 1 else 0) + card (?D (y # rest))"
    using fin [of "y # rest"] by (auto simp: card_image card_insert_if)
  with 1 show ?case by simp
qed auto

lemma fold_max_gt:
  "\<forall>s \<in> set ss. smp_Num s \<noteq> F_NaN \<Longrightarrow> a \<noteq> F_NaN \<Longrightarrow>
     foldl (\<lambda>acc s. f64_max acc (smp_Num s)) a ss \<noteq> F_NaN
   \<and> (f64_lt g (foldl (\<lambda>acc s. f64_max acc (smp_Num s)) a ss) \<longleftrightarrow> f64_lt g a \<or> (\<exists>s \<in> set ss. f64_lt g (smp_Num s)))"
  by (induction ss arbitrary: a) (auto simp: f64_max_gt_iff)

lemma fold_min_lt:
  "\<forall>s \<in> set ss. smp_Num s \<noteq> F_NaN \<Longrightarrow> a \<noteq> F_NaN \<Longrightarrow>
     foldl (\<lambda>acc s. f64_min acc (smp_Num s)) a ss \<noteq> F_NaN
   \<and> (f64_lt (foldl (\<lambda>acc s. f64_min acc (smp_Num s)) a ss) g \<longleftrightarrow> f64_lt a g \<or> (\<exists>s \<in> set ss. f64_lt (smp_Num s) g))"
  by (induction ss arbitrary: a) (auto simp: f64_min_lt_iff)

section \<open>The alerting contract\<close>

definition rule_open :: "state_record option \<Rightarrow> bool" where
  "rule_open p = (case p of None \<Rightarrow> False | Some r \<Rightarrow> r_State r = StateDown)"

definition apply_rule :: "rule \<Rightarrow> (state_record, sample list \<times> observation) evaluator" where
  "apply_rule r p = (\<lambda>(ss, ob). case Evaluate_rule r p ss ob of
      Some up \<Rightarrow> if up_Ignored up = NotIgnored then Some (up_Record up, up_Events up) else None
    | None \<Rightarrow> None)"

lemma Evaluate_rule_level:
  assumes "Evaluate_rule r p ss ob = Some up" "up_Ignored up = NotIgnored"
  obtains holds measured where "condition (ru_Condition r) ss = Some (holds, measured)"
    "r_State (up_Record up) = StateDown \<longleftrightarrow> holds"
    "up_Events up = (if rule_open p = holds then [] else [rule_event r (\<not> holds) ob measured])"
    "length (up_Transitions up) = (if rule_open p = holds then 0 else 1)"
    "r_LastObservationID (up_Record up) = o_ObservationID ob" "r_LastObservedAt (up_Record up) = o_ObservedAt ob"
    "r_Key (up_Record up) = (case p of None \<Rightarrow> fst (KeyFor_rule r (o_DeviceID ob) (o_Labels ob)) | Some q \<Rightarrow> r_Key q)"
  using assms
  by (cases p) (auto simp: Evaluate_rule_def rule_open_def rule_record_def zero_record_def Let_def
     split: if_splits option.splits)

lemma apply_rule_emits:
  assumes "apply_rule r p x = Some (rec, es)"
  shows "if rule_open p = rule_open (Some rec) then es = [] else \<exists>e. es = [e] \<and> e_Resolves e = rule_open p"
proof -
  obtain ss ob where x: "x = (ss, ob)" by fastforce
  from assms obtain up where up: "Evaluate_rule r p ss ob = Some up" "up_Ignored up = NotIgnored"
      and rec: "rec = up_Record up" "es = up_Events up"
    by (auto simp: apply_rule_def x split: option.splits if_splits)
  from up show ?thesis
    by (rule Evaluate_rule_level) (auto simp: rec rule_open_def rule_event_def Let_def split: option.splits)
qed

interpretation rule_alerts: alerting "apply_rule r" rule_open for r
  by unfold_locales (rule apply_rule_emits)

section \<open>Windowed conditions as quantifiers\<close>

lemma f64_max_lt_iff:
  assumes "x \<noteq> F_NaN" "y \<noteq> F_NaN"
  shows "f64_lt (f64_max x y) t \<longleftrightarrow> f64_lt x t \<and> f64_lt y t"
  using assms f64_lt_linear [of x y] by (auto simp: f64_max_def dest: f64_lt_trans)

lemma f64_min_gt_iff:
  assumes "x \<noteq> F_NaN" "y \<noteq> F_NaN"
  shows "f64_lt t (f64_min x y) \<longleftrightarrow> f64_lt t x \<and> f64_lt t y"
  using assms f64_lt_linear [of x y] by (auto simp: f64_min_def dest: f64_lt_trans)

lemma fold_max_lt:
  "\<forall>s \<in> set ss. smp_Num s \<noteq> F_NaN \<Longrightarrow> a \<noteq> F_NaN \<Longrightarrow>
     f64_lt (foldl (\<lambda>acc s. f64_max acc (smp_Num s)) a ss) g \<longleftrightarrow> f64_lt a g \<and> (\<forall>s \<in> set ss. f64_lt (smp_Num s) g)"
  by (induction ss arbitrary: a) (auto simp: f64_max_lt_iff)

lemma fold_min_gt:
  "\<forall>s \<in> set ss. smp_Num s \<noteq> F_NaN \<Longrightarrow> a \<noteq> F_NaN \<Longrightarrow>
     f64_lt g (foldl (\<lambda>acc s. f64_min acc (smp_Num s)) a ss) \<longleftrightarrow> f64_lt g a \<and> (\<forall>s \<in> set ss. f64_lt g (smp_Num s))"
  by (induction ss arbitrary: a) (auto simp: f64_min_gt_iff)

definition beyond :: "rule_condition \<Rightarrow> f64 \<Rightarrow> bool" where
  "beyond c x = (case rc_GreaterThan c of Some g \<Rightarrow> f64_lt g x
                 | None \<Rightarrow> (case rc_LessThan c of Some l \<Rightarrow> f64_lt x l | None \<Rightarrow> False))"

text \<open>
  What a condition asks of a window, without folds: enough status changes; or enough samples, and
  their mean beyond the limit, or some or all of them beyond it.
\<close>

definition spec_condition :: "rule_condition \<Rightarrow> sample list \<Rightarrow> bool" where
  "spec_condition c ss =
     (if 0 < rc_Transitions c then
        rc_Transitions c \<le> int (card {i. Suc i < length ss \<and> truthy (ss ! i) \<noteq> truthy (ss ! Suc i)})
      else (if rc_MinSamples c = 0 then 3 else rc_MinSamples c) \<le> int (length ss)
        \<and> (if 0 < rc_AverageOver c then beyond c (average ss)
           else if (0 < rc_MaxOver c) = (rc_GreaterThan c \<noteq> None) then \<exists>s \<in> set ss. beyond c (smp_Num s)
           else \<forall>s \<in> set ss. beyond c (smp_Num s)))"

lemma condition_spec:
  assumes "validate_rule r = []" "\<forall>s \<in> set ss. smp_Num s \<noteq> F_NaN"
  shows "map_option fst (condition (ru_Condition r) ss) = Some (spec_condition (ru_Condition r) ss)"
  using assms(1)
proof (cases rule: validate_rule_kind)
  case transitions
  then show ?thesis by (simp add: condition_def spec_condition_def count_flips_card)
next
  case (aggregate w)
  let ?c = "ru_Condition r"
  show ?thesis
  proof (cases "int (length ss) < (if rc_MinSamples ?c = 0 then 3 else rc_MinSamples ?c)")
    case True
    with aggregate show ?thesis by (auto simp: condition_def spec_condition_def Let_def)
  next
    case False
    with aggregate(5) have ne: "ss \<noteq> []" by (auto split: if_splits)
    then obtain s0 rest where ss: "ss = s0 # rest" by (cases ss) auto
    have nan: "smp_Num (hd ss) \<noteq> F_NaN" using assms(2) ne by auto
    have hd: "hd ss \<in> set ss" using ne by simp
    note folds = fold_max_gt [OF assms(2) nan] fold_min_lt [OF assms(2) nan] fold_max_lt [OF assms(2) nan] fold_min_gt [OF assms(2) nan]
    show ?thesis
    proof (cases "rc_GreaterThan ?c")
      case None
      with aggregate(4) obtain l where l: "rc_LessThan ?c = Some l" by auto
      with None False aggregate(1) ne hd show ?thesis
        by (auto simp: condition_def spec_condition_def measure_samples_def beyond_def Let_def folds)
    next
      case (Some g)
      with False aggregate(1) ne hd show ?thesis
        by (auto simp: condition_def spec_condition_def measure_samples_def beyond_def Let_def folds)
    qed
  qed
qed

section \<open>Properties\<close>

text \<open>
  (C10) A rule is level-triggered and reports edges: after a sample it applies, its record is down
  exactly when its condition holds over the window, it emits one event when that differs from before
  and none otherwise, and it does so exactly when the condition as stated in the rules file (status
  changes, or a mean, maximum or minimum beyond a limit with enough samples) holds.
\<close>

theorem rule_level_triggered:
  assumes "validate_rule r = []" "\<forall>s \<in> set ss. smp_Num s \<noteq> F_NaN"
    and "Evaluate_rule r p ss ob = Some up" "up_Ignored up = NotIgnored"
  shows "(r_State (up_Record up) = StateDown \<longleftrightarrow> spec_condition (ru_Condition r) ss)
       \<and> length (up_Events up) = (if rule_open p = spec_condition (ru_Condition r) ss then 0 else 1)
       \<and> (\<forall>e \<in> set (up_Events up). e_Resolves e = rule_open p)"
proof -
  from condition_spec [OF assms(1,2)] obtain m where
    "condition (ru_Condition r) ss = Some (spec_condition (ru_Condition r) ss, m)" by auto
  with assms(3,4) show ?thesis
    by (rule_tac Evaluate_rule_level [OF assms(3,4)]) (auto simp: rule_event_def Let_def)
qed

text \<open>
  The events of a rule for one entity alternate, starting with one that opens its alert, and
  the alert is open after a run exactly when the number of events is odd.
\<close>

theorem rule_events_alternate:
  assumes "run_alerts (apply_rule r) None xs = (p, es)"
  shows "alternating False es \<and> (rule_open p \<longleftrightarrow> odd (length es))"
  using rule_alerts.run_alternates [OF assms] by (simp add: rule_open_def)

text \<open>
  A rules file that parses yields validated rules with distinct ids, found exactly by metric
  and device, and evaluating one never reads a missing limit or the first element of an empty window.
\<close>

theorem parsed_rules_total:
  assumes "Parse_rules doc = Inr rs"
  shows "distinct (map ru_ID doc)
       \<and> For_rules (Some rs) m dev = filter (\<lambda>r. m_Metric (ru_Match r) = m \<and> matches_device r dev) doc
       \<and> (\<forall>r \<in> set (For_rules (Some rs) m dev). validate_rule r = [] \<and> Evaluate_rule r p ss ob \<noteq> None)"
proof -
  have ok: "rules_ok rs" "rs_all rs = doc" using Parse_rules_ok [OF assms] by auto
  have "For_rules (Some rs) m dev = filter (\<lambda>r. m_Metric (ru_Match r) = m \<and> matches_device r dev) doc"
    using ok by (auto simp: For_rules_def rules_ok_def intro: filter_cong)
  then show ?thesis
    using ok For_rules_valid [OF ok(1)] Evaluate_rule_total [of _ p ss ob] unfolding rules_ok_def by blast
qed

section \<open>Witnesses\<close>

definition ex_rule :: rule where
  "ex_rule = \<lparr>ru_ID = ''hot'', ru_Description = [],
     ru_Match = \<lparr>m_DeviceType = [], m_Metric = ''device.temperature'', m_Site = [], m_Tags = []\<rparr>,
     ru_Condition = \<lparr>rc_Transitions = 0, rc_Within = 0, rc_AverageOver = 0, rc_MaxOver = 300, rc_MinOver = 0,
       rc_GreaterThan = Some (F_Fin 80), rc_LessThan = None, rc_MinSamples = 2\<rparr>,
     ru_Severity = SeverityWarning, ru_Event = [], ru_ClearEvent = [], ru_Message = []\<rparr>"

definition ex_device :: device where
  "ex_device = \<lparr>d_ID = ''r1'', d_Hostname = ''r1'', d_ManagementAddress = ''10.0.0.1'', d_DeviceType = ''router'',
     d_Vendor = [], d_Model = [], d_SerialNumber = [], d_Site = ''lab'', d_Tags = [''automation''], d_Capabilities = [],
     d_CredentialsRef = [], d_Enabled = True, d_LastSeen = 0,
     d_Collection = \<lparr>c_Protocol = ''snmp'', c_Profile = [], c_Interval = 0\<rparr>, d_Attributes = fmempty\<rparr>"

definition ex_samples :: "sample list" where
  "ex_samples = [\<lparr>smp_At = 1, smp_Num = F_Fin 70, smp_Bool = None\<rparr>, \<lparr>smp_At = 2, smp_Num = F_Fin 90, smp_Bool = None\<rparr>]"

lemma ex_rule_valid: "validate_rule ex_rule = []" by code_simp

lemma ex_rule_holds: "spec_condition (ru_Condition ex_rule) ex_samples"
  by (simp add: ex_rule_def ex_samples_def spec_condition_def beyond_def)

theorem rule_level_triggered_witness:
  "\<exists>up. Evaluate_rule ex_rule None ex_samples (ex_ob ''a'' 2 (VFloat64 (F_Fin 90))) = Some up
     \<and> up_Ignored up = NotIgnored \<and> r_State (up_Record up) = StateDown \<and> length (up_Events up) = 1"
proof -
  obtain up where up: "Evaluate_rule ex_rule None ex_samples (ex_ob ''a'' 2 (VFloat64 (F_Fin 90))) = Some up"
    using Evaluate_rule_total [OF ex_rule_valid] by blast
  moreover from this have "up_Ignored up = NotIgnored"
    by (auto simp: Evaluate_rule_def Let_def split: option.splits if_splits)
  ultimately show ?thesis
    using rule_level_triggered [OF ex_rule_valid _ up] ex_rule_holds by (auto simp: ex_samples_def rule_open_def)
qed

theorem rule_events_alternate_witness:
  "\<exists>p es. run_alerts (apply_rule ex_rule) None [(ex_samples, ex_ob ''a'' 2 (VFloat64 (F_Fin 90)))] = (p, es)
     \<and> alternating False es"
proof -
  obtain p es where "run_alerts (apply_rule ex_rule) None [(ex_samples, ex_ob ''a'' 2 (VFloat64 (F_Fin 90)))] = (p, es)"
    by fastforce
  with rule_events_alternate [OF this] show ?thesis by blast
qed

lemma ex_Parse_rules: "\<exists>rs. Parse_rules [ex_rule] = Inr rs"
  by (simp add: Parse_rules_def ex_rule_valid)

theorem parsed_rules_total_witness:
  "\<exists>rs. Parse_rules [ex_rule] = Inr rs \<and> For_rules (Some rs) ''device.temperature'' ex_device = [ex_rule]"
proof -
  obtain rs where "Parse_rules [ex_rule] = Inr rs" using ex_Parse_rules by blast
  with parsed_rules_total [OF this, of "''device.temperature''"] show ?thesis
    by (auto simp: ex_rule_def matches_device_def)
qed

end
