(* ===== verification/Schema.thy ===== *)
theory Schema
  imports Domain Go_Json
begin

text \<open>
  Package \<open>internal/schema\<close> (schema.go): validation of observations at the trust boundary, and
  encoding and decoding of messages. The JSON decoder is a parameter of \<open>Decode\<close>: it returns its
  error text, or the value and whether more data follows. Encoding is the value itself together with
  the cases in which \<open>json.Marshal\<close> refuses it: a number that is not finite and a year that RFC 3339
  cannot hold.
\<close>


section \<open>Schema identifiers and limits\<close>

definition ObservationV1 :: string where "ObservationV1 = ''observation.v1''"
definition InventoryV1 :: string where "InventoryV1 = ''inventory.v1''"
definition EventV1 :: string where "EventV1 = ''event.v1''"
definition AutomationRequestV1 :: string where "AutomationRequestV1 = ''automation.request.v1''"
definition AutomationResultV1 :: string where "AutomationResultV1 = ''automation.result.v1''"
definition DeadLetterV1 :: string where "DeadLetterV1 = ''deadletter.v1''"

record limits =
  l_MaxMessageBytes :: int
  l_MaxLabels :: int
  l_MaxMetadata :: int
  l_MaxKeyLen :: int
  l_MaxValueLen :: int
  l_MaxMetricLen :: int
  l_MaxFutureSkew :: duration

definition DefaultLimits :: limits where
  "DefaultLimits = \<lparr>l_MaxMessageBytes = 65536, l_MaxLabels = 16, l_MaxMetadata = 32, l_MaxKeyLen = 64,
     l_MaxValueLen = 1024, l_MaxMetricLen = 128, l_MaxFutureSkew = 5 * minute\<rparr>"


section \<open>Names\<close>

definition word_char :: "char \<Rightarrow> bool" where
  "word_char c \<longleftrightarrow> is_alnum c \<or> c = CHR ''_''"

text \<open>The segments of a dotted name.\<close>

fun split_dots :: "string \<Rightarrow> string list" where
  "split_dots [] = [[]]"
| "split_dots (c # cs) =
     (if c = CHR ''.'' then [] # split_dots cs
      else case split_dots cs of seg # segs \<Rightarrow> (c # seg) # segs | [] \<Rightarrow> [[c]])"

text \<open>\<open>^[A-Za-z][A-Za-z0-9_]*(\.[A-Za-z0-9_]+)*$\<close>\<close>

definition metricPattern :: "string \<Rightarrow> bool" where
  "metricPattern s = (case split_dots s of
     seg # segs \<Rightarrow> seg \<noteq> [] \<and> is_alpha (hd seg) \<and> list_all word_char seg
        \<and> list_all (\<lambda>x. x \<noteq> [] \<and> list_all word_char x) segs
   | [] \<Rightarrow> False)"

text \<open>\<open>^[A-Za-z_][A-Za-z0-9_.-]*$\<close>\<close>

definition keyPattern :: "string \<Rightarrow> bool" where
  "keyPattern s = (case s of
     [] \<Rightarrow> False
   | c # cs \<Rightarrow> (is_alpha c \<or> c = CHR ''_'') \<and> list_all (\<lambda>x. word_char x \<or> x = CHR ''.'' \<or> x = CHR ''-'') cs)"


section \<open>Validation\<close>

text \<open>The entries of a map are visited in key order; the code visits them in no fixed order.\<close>

definition checkMap :: "string \<Rightarrow> strmap \<Rightarrow> int \<Rightarrow> limits \<Rightarrow> string list" where
  "checkMap name m maxN l =
     (if maxN < int (length (fm_items m))
      then [name @ '' has '' @ show_int (int (length (fm_items m))) @ '' entries, max '' @ show_int maxN] else [])
     @ concat (map (\<lambda>(k, v).
         (if l_MaxKeyLen l < int (length k) \<or> \<not> keyPattern k
          then [name @ '' key '' @ quote_q k @ '' is invalid''] else [])
         @ (if l_MaxValueLen l < int (length v)
            then [name @ '' value for '' @ quote_q k @ '' exceeds '' @ show_int (l_MaxValueLen l) @ '' bytes''] else []))
       (fm_items m))"

definition value_problems :: "goval \<Rightarrow> limits \<Rightarrow> string list" where
  "value_problems v l = (case v of
     VNil \<Rightarrow> [''value is required'']
   | VBool _ \<Rightarrow> []
   | VString s \<Rightarrow> if l_MaxValueLen l < int (length s)
                 then [''string value exceeds '' @ show_int (l_MaxValueLen l) @ '' bytes''] else []
   | VFloat64 x \<Rightarrow> if \<not> f64_finite x then [''numeric value must be finite''] else []
   | VOther ty \<Rightarrow> [''value has unsupported type '' @ ty @ '' (want number, boolean or string)'']
   | _ \<Rightarrow> [])"

definition observation_problems :: "limits \<Rightarrow> gotime \<Rightarrow> observation \<Rightarrow> string list" where
  "observation_problems l now ob =
     (if o_ObservationID ob = [] then [''observation_id is required''] else [])
     @ (if o_CorrelationID ob = [] then [''correlation_id is required''] else [])
     @ (if o_DeviceID ob = [] then [''device_id is required''] else [])
     @ (if o_Source ob = [] then [''source is required''] else [])
     @ (if o_Metric ob = [] \<or> l_MaxMetricLen l < int (length (o_Metric ob)) \<or> \<not> metricPattern (o_Metric ob)
        then [''metric '' @ quote_q (o_Metric ob) @ '' is not a valid metric name''] else [])
     @ value_problems (o_Value ob) l
     @ (if o_ObservedAt ob = 0 then [''observed_at is required'']
        else if now + l_MaxFutureSkew l < o_ObservedAt ob
          then [''observed_at '' @ rfc3339 (o_ObservedAt ob) @ '' is more than ''
                @ show_duration (l_MaxFutureSkew l) @ '' in the future'']
        else [])
     @ checkMap ''labels'' (o_Labels ob) (l_MaxLabels l) l
     @ checkMap ''metadata'' (o_Metadata ob) (l_MaxMetadata l) l"

definition Validate :: "limits \<Rightarrow> gotime \<Rightarrow> observation \<Rightarrow> goerr option" where
  "Validate l now ob =
     (let p = observation_problems l now ob
      in if p \<noteq> [] then Some (Errorf CategoryValidation
                          (''invalid observation '' @ quote_q (o_ObservationID ob) @ '': '' @ join_sep ''; '' p))
         else None)"


section \<open>Encoding and decoding\<close>

definition json_value :: "goval \<Rightarrow> bool" where
  "json_value v = (case v of VFloat64 x \<Rightarrow> f64_finite x | VFloat32 x \<Rightarrow> f64_finite x | _ \<Rightarrow> True)"

definition json_observation :: "observation \<Rightarrow> bool" where
  "json_observation ob \<longleftrightarrow> json_value (o_Value ob) \<and> json_time (o_ObservedAt ob) \<and> json_time (o_ReceivedAt ob)"

definition json_event :: "event \<Rightarrow> bool" where
  "json_event e \<longleftrightarrow> json_time (e_OccurredAt e)"

definition json_request :: "automation_request \<Rightarrow> bool" where
  "json_request q \<longleftrightarrow> json_time (q_NotBefore q) \<and> json_time (q_CreatedAt q)"

definition json_result :: "automation_result \<Rightarrow> bool" where
  "json_result u \<longleftrightarrow> json_time (u_StartedAt u) \<and> json_time (u_FinishedAt u)"

definition Encode :: "('a \<Rightarrow> bool) \<Rightarrow> 'a \<Rightarrow> goerr + 'a" where
  "Encode marshals v =
     (if marshals v then Inr v
      else Inl (EDomain CategoryValidation ''encode'' (EPlain ''json: unsupported value'')))"

type_synonym 'a json_decoder = "string \<Rightarrow> string + 'a \<times> bool"

definition Decode :: "'a json_decoder \<Rightarrow> string \<Rightarrow> int \<Rightarrow> goerr + 'a" where
  "Decode json data maxBytes =
     (if 0 < maxBytes \<and> maxBytes < int (length data)
      then Inl (Errorf CategoryValidation
             (''message is '' @ show_int (int (length data)) @ '' bytes, limit '' @ show_int maxBytes))
      else case json data of
             Inl err \<Rightarrow> Inl (Errorf CategoryValidation (''malformed message: '' @ err))
           | Inr (v, trailing) \<Rightarrow>
               if trailing then Inl (Errorf CategoryValidation ''malformed message: trailing data'') else Inr v)"

definition DecodeObservation :: "observation json_decoder \<Rightarrow> limits \<Rightarrow> gotime \<Rightarrow> string \<Rightarrow> goerr + observation" where
  "DecodeObservation json l now data =
     (case Decode json data (l_MaxMessageBytes l) of
        Inl e \<Rightarrow> Inl e
      | Inr ob \<Rightarrow> (case Validate l now ob of Some e \<Rightarrow> Inl e | None \<Rightarrow> Inr ob))"


section \<open>Properties of validation\<close>

lemma Validate_None_iff: "Validate l now ob = None \<longleftrightarrow> observation_problems l now ob = []"
  by (simp add: Validate_def Let_def)

lemma Validate_category: "Validate l now ob = Some e \<Longrightarrow> CategoryOf e = CategoryValidation"
  by (auto simp: Validate_def Let_def split: if_splits)

lemma Decode_category: "Decode json data n = Inl e \<Longrightarrow> CategoryOf e = CategoryValidation"
  by (auto simp: Decode_def split: if_splits sum.splits)

lemma Encode_category: "Encode f v = Inl e \<Longrightarrow> CategoryOf e = CategoryValidation"
  by (auto simp: Encode_def split: if_splits)

lemma DecodeObservation_Inl: "DecodeObservation json l now data = Inl e \<Longrightarrow> CategoryOf e = CategoryValidation"
  by (auto simp: DecodeObservation_def dest: Decode_category Validate_category split: sum.splits option.splits)

lemma DecodeObservation_Inr: "DecodeObservation json l now data = Inr ob \<Longrightarrow> Validate l now ob = None"
  by (auto simp: DecodeObservation_def split: sum.splits option.splits)

lemma checkMap_Nil:
  assumes "checkMap name m maxN l = []" "fmlookup m k = Some v"
  shows "keyPattern k \<and> int (length k) \<le> l_MaxKeyLen l \<and> int (length v) \<le> l_MaxValueLen l"
proof -
  have "(k, v) \<in> set (fm_items m)" using assms(2) by (simp add: set_fm_items)
  with assms(1) show ?thesis by (force simp: checkMap_def split: if_splits)
qed

text \<open>A key that passes never contains the characters the series key is built from.\<close>

lemma keyPattern_chars: "keyPattern k \<Longrightarrow> CHR ''='' \<notin> set k \<and> CHR '','' \<notin> set k \<and> CHR 0x00 \<notin> set k"
  by (cases k) (auto simp: keyPattern_def word_char_def char_class_defs in_range_def list_all_iff)

end
