(* ===== verification/Normalize.thy ===== *)
theory Normalize
  imports Schema
begin

text \<open>
  Package \<open>internal/normalize\<close> (normalize.go): the table that turns source-specific metrics into
  canonical ones. The label mapping of an entry is a Go map that the code ranges over, and Go leaves
  the order of such a loop open; the order is the parameter \<open>ord\<close> of \<open>Normalize\<close>, which lists the
  entries of the map in some order.
\<close>


section \<open>Mappings\<close>

record conv =
  cv_Kind :: string
  cv_Factor :: f64
  cv_TrueValues :: "f64 list"
  cv_Map :: strmap

record mapping =
  mp_Raw :: string
  mp_CanonMetric :: string
  mp_Unit :: string
  mp_Convert :: conv
  mp_LabelMap :: "strmap option"

type_synonym normalizer = "(string, mapping) fmap"

definition lower_word :: "char \<Rightarrow> bool" where
  "lower_word c \<longleftrightarrow> is_lower c \<or> is_digit c \<or> c = CHR ''_''"

text \<open>\<open>^[a-z][a-z0-9_]*(\.[a-z0-9_]+)*$\<close>\<close>

definition metricRe :: "string \<Rightarrow> bool" where
  "metricRe s = (case split_dots s of
     seg # segs \<Rightarrow> seg \<noteq> [] \<and> is_lower (hd seg) \<and> list_all lower_word seg
        \<and> list_all (\<lambda>x. x \<noteq> [] \<and> list_all lower_word x) segs
   | [] \<Rightarrow> False)"

text \<open>The problems of one entry, given whether its raw metric was mapped before.\<close>

definition mapping_problems :: "int \<Rightarrow> bool \<Rightarrow> mapping \<Rightarrow> string list" where
  "mapping_problems i dup m =
     (let at_i = ''mappings['' @ show_int i @ '']''; loc = at_i @ '' ('' @ mp_Raw m @ '')''; c = mp_Convert m
      in (if mp_Raw m = [] then [at_i @ '': raw is required'']
          else if \<not> metricRe (mp_CanonMetric m)
            then [loc @ '': canonical metric must be lower-case dotted, e.g. system.cpu.utilization''] else [])
       @ (if dup then [loc @ '': duplicate mapping for raw metric''] else [])
       @ (if cv_Kind c = ''identity'' then []
          else if cv_Kind c = ''scale''
            then (if f64_eq (cv_Factor c) (F_Fin 0) then [loc @ '': scale needs a non-zero factor''] else [])
          else if cv_Kind c = ''bool''
            then (if cv_TrueValues c = [] then [loc @ '': bool needs true_values''] else [])
          else if cv_Kind c = ''enum''
            then (if cv_Map c = fmempty then [loc @ '': enum needs a map''] else [])
          else [loc @ '': unknown convert kind '' @ quote_q (cv_Kind c)]))"

definition default_kind :: "mapping \<Rightarrow> mapping" where
  "default_kind m = (if cv_Kind (mp_Convert m) = []
     then m\<lparr>mp_Convert := (mp_Convert m)\<lparr>cv_Kind := ''identity''\<rparr>\<rparr> else m)"

fun parse_mappings_loop :: "int \<Rightarrow> normalizer \<Rightarrow> string list \<Rightarrow> mapping list \<Rightarrow> normalizer \<times> string list" where
  "parse_mappings_loop i n ps [] = (n, ps)"
| "parse_mappings_loop i n ps (m # ms) =
     (let m' = default_kind m
      in parse_mappings_loop (i + 1) (fmupd (mp_Raw m') m' n)
           (ps @ mapping_problems i (fmlookup n (mp_Raw m') \<noteq> None) m') ms)"

definition Parse_mappings :: "mapping list \<Rightarrow> goerr + normalizer" where
  "Parse_mappings doc =
     (case parse_mappings_loop 0 fmempty [] doc of
        (n, ps) \<Rightarrow> if ps \<noteq> [] then Inl (Errorf CategoryValidation (join_sep ''; '' ps)) else Inr n)"


section \<open>Conversion\<close>

definition number :: "goval \<Rightarrow> f64 option" where
  "number v = (case v of
     VFloat64 x \<Rightarrow> Some x | VFloat32 x \<Rightarrow> Some x | VInt x \<Rightarrow> Some (f64_of_int x) | VInt32 x \<Rightarrow> Some (f64_of_int x)
   | VInt64 x \<Rightarrow> Some (f64_of_int x) | VUint32 x \<Rightarrow> Some (f64_of_int x) | VUint64 x \<Rightarrow> Some (f64_of_int x) | _ \<Rightarrow> None)"

text \<open>The verb \<open>%T\<close>.\<close>

definition type_name :: "goval \<Rightarrow> string" where
  "type_name v = (case v of
     VNil \<Rightarrow> ''<nil>'' | VBool _ \<Rightarrow> ''bool'' | VString _ \<Rightarrow> ''string'' | VFloat64 _ \<Rightarrow> ''float64'' | VFloat32 _ \<Rightarrow> ''float32''
   | VInt _ \<Rightarrow> ''int'' | VInt32 _ \<Rightarrow> ''int32'' | VInt64 _ \<Rightarrow> ''int64'' | VUint32 _ \<Rightarrow> ''uint32'' | VUint64 _ \<Rightarrow> ''uint64''
   | VOther t \<Rightarrow> t)"

definition convert :: "conv \<Rightarrow> goval \<Rightarrow> string + goval" where
  "convert c v =
     (if cv_Kind c = ''identity'' then Inr v
      else if cv_Kind c = ''scale'' then
        (case number v of
           None \<Rightarrow> Inl (''scale needs a numeric value, got '' @ type_name v)
         | Some f \<Rightarrow> Inr (VFloat64 (f64_mul f (cv_Factor c))))
      else if cv_Kind c = ''bool'' then
        (case v of
           VBool b \<Rightarrow> Inr (VBool b)
         | _ \<Rightarrow> (case number v of
                  None \<Rightarrow> Inl (''bool conversion needs a numeric value, got '' @ type_name v)
                | Some f \<Rightarrow> Inr (VBool (list_ex (f64_eq f) (cv_TrueValues c)))))
      else if cv_Kind c = ''enum'' then
        (case number v of
           None \<Rightarrow> Inl (''enum needs a numeric value, got '' @ type_name v)
         | Some f \<Rightarrow> (case fmlookup (cv_Map c) (format_f f) of
                       None \<Rightarrow> Inl (''enum has no entry for '' @ format_v f)
                     | Some s \<Rightarrow> Inr (VString s)))
      else Inl (''unknown convert kind '' @ quote_q (cv_Kind c)))"

datatype norm_result = Mapped | Passthrough

definition map_labels :: "(string \<times> string) list \<Rightarrow> strmap \<Rightarrow> strmap" where
  "map_labels entries labels =
     fold (\<lambda>(from, to) out. case fmlookup labels from of Some v \<Rightarrow> fmupd to v out | None \<Rightarrow> out) entries fmempty"

definition Normalize :: "(strmap \<Rightarrow> (string \<times> string) list) \<Rightarrow> normalizer \<Rightarrow> observation \<Rightarrow> goerr + observation \<times> norm_result" where
  "Normalize ord n ob =
     (case fmlookup n (o_Metric ob) of
        None \<Rightarrow> Inr (ob, Passthrough)
      | Some m \<Rightarrow>
          (case convert (mp_Convert m) (o_Value ob) of
             Inl err \<Rightarrow> Inl (Errorf CategoryValidation
               (''normalize '' @ o_Metric ob @ '' ('' @ o_ObservationID ob @ ''): '' @ err))
           | Inr v \<Rightarrow>
               (let labels = (case mp_LabelMap m of None \<Rightarrow> o_Labels ob | Some lm \<Rightarrow> map_labels (ord lm) (o_Labels ob));
                    md = fmupd ''raw_metric'' (o_Metric ob) (o_Metadata ob);
                    md' = (if mp_Unit m \<noteq> [] then fmupd ''unit'' (mp_Unit m) md else md)
                in Inr (ob\<lparr>o_Metric := mp_CanonMetric m, o_Value := v, o_Labels := labels, o_Metadata := md'\<rparr>, Mapped))))"

definition RawMetrics :: "normalizer \<Rightarrow> string list" where
  "RawMetrics n = sorted_keys n"


section \<open>Independence of the map order\<close>

lemma map_labels_lookup:
  assumes "distinct (map snd es)"
  shows "fmlookup (map_labels es labels) t = Some v \<longleftrightarrow> (\<exists>f. (f, t) \<in> set es \<and> fmlookup labels f = Some v)"
proof -
  let ?step = "\<lambda>(from, to) out. case fmlookup labels from of Some v \<Rightarrow> fmupd to v out | None \<Rightarrow> out"
  have "distinct (map snd es) \<Longrightarrow> t \<notin> snd ` set es \<Longrightarrow> fmlookup (fold ?step es out) t = fmlookup out t" for es out
    by (induction es arbitrary: out) (auto split: option.splits)
  then have skip: "t \<notin> snd ` set es \<Longrightarrow> distinct (map snd es) \<Longrightarrow> fmlookup (fold ?step es out) t = fmlookup out t" for es out
    by blast
  have "fmlookup (fold ?step es out) t = Some v \<longleftrightarrow>
          (\<exists>f. (f, t) \<in> set es \<and> fmlookup labels f = Some v)
          \<or> (\<nexists>f w. (f, t) \<in> set es \<and> fmlookup labels f = Some w) \<and> fmlookup out t = Some v"
    if "distinct (map snd es)" for out
    using that
  proof (induction es arbitrary: out)
    case (Cons e es)
    obtain f u where e: "e = (f, u)" by fastforce
    show ?case
    proof (cases "u = t")
      case True
      with Cons.prems e have nt: "t \<notin> snd ` set es" by auto
      then have "\<nexists>f. (f, t) \<in> set es" by force
      with True e Cons.prems skip [OF nt] show ?thesis by (auto split: option.splits)
    next
      case False
      with Cons.IH Cons.prems e show ?thesis by (auto split: option.splits)
    qed
  qed simp
  from this [OF assms, of fmempty] show ?thesis by (simp add: map_labels_def)
qed

definition lists_entries :: "(strmap \<Rightarrow> (string \<times> string) list) \<Rightarrow> bool" where
  "lists_entries ord \<longleftrightarrow> (\<forall>m. distinct (ord m) \<and> set (ord m) = set (fm_items m))"

definition one_target :: "mapping \<Rightarrow> bool" where
  "one_target m = (case mp_LabelMap m of None \<Rightarrow> True | Some lm \<Rightarrow> distinct (map snd (fm_items lm)))"

lemma lists_entries_targets:
  assumes "lists_entries ord" "distinct (map snd (fm_items lm))"
  shows "distinct (map snd (ord lm))"
proof -
  have "inj_on snd (set (fm_items lm))" using assms(2) by (simp add: distinct_map)
  with assms(1) show ?thesis by (simp add: lists_entries_def distinct_map)
qed

lemma map_labels_order:
  assumes "lists_entries ord" "lists_entries ord'" "distinct (map snd (fm_items lm))"
  shows "map_labels (ord lm) labels = map_labels (ord' lm) labels"
proof (rule fmap_ext)
  fix t
  have "set (ord lm) = set (ord' lm)" using assms(1,2) by (simp add: lists_entries_def)
  then have "fmlookup (map_labels (ord lm) labels) t = Some v \<longleftrightarrow> fmlookup (map_labels (ord' lm) labels) t = Some v" for v
    using lists_entries_targets [OF assms(1,3)] lists_entries_targets [OF assms(2,3)] by (simp add: map_labels_lookup)
  then show "fmlookup (map_labels (ord lm) labels) t = fmlookup (map_labels (ord' lm) labels) t"
    by (metis not_None_eq)
qed


section \<open>Frames and errors\<close>

lemma Normalize_frame:
  assumes "Normalize ord n ob = Inr (ob', r)"
  shows "o_ObservationID ob' = o_ObservationID ob" "o_CorrelationID ob' = o_CorrelationID ob"
    "o_DeviceID ob' = o_DeviceID ob" "o_Source ob' = o_Source ob" "o_ObservedAt ob' = o_ObservedAt ob"
    "o_ReceivedAt ob' = o_ReceivedAt ob"
  using assms by (auto simp: Normalize_def Let_def split: option.splits sum.splits)

lemma Normalize_category: "Normalize ord n ob = Inl e \<Longrightarrow> CategoryOf e = CategoryValidation"
  by (auto simp: Normalize_def Let_def split: option.splits sum.splits)


section \<open>A mapping whose labels clash\<close>

definition clash_mapping :: mapping where
  "clash_mapping = \<lparr>mp_Raw = ''ifOperStatus'', mp_CanonMetric = ''interface.up'', mp_Unit = [],
     mp_Convert = \<lparr>cv_Kind = ''bool'', cv_Factor = F_Fin 0, cv_TrueValues = [F_Fin 1], cv_Map = fmempty\<rparr>,
     mp_LabelMap = Some (fmap_of_list [(''ifDescr'', ''interface''), (''ifName'', ''interface'')])\<rparr>"

definition clash_observation :: observation where
  "clash_observation = \<lparr>o_ObservationID = ''o1'', o_CorrelationID = ''c1'', o_DeviceID = ''sw1'', o_Source = ''snmp'',
     o_Metric = ''ifOperStatus'', o_Value = VFloat64 (F_Fin 1),
     o_Labels = fmap_of_list [(''ifDescr'', ''GigabitEthernet0/1''), (''ifName'', ''Gi0/1'')],
     o_ObservedAt = 1, o_ReceivedAt = 1, o_Metadata = fmempty\<rparr>"


section \<open>Properties\<close>

text \<open>
  The normalized stream is a function of the raw one: when no two raw labels of a mapping have
  the same canonical label, the result does not depend on the order in which Go ranges over the
  label map.
\<close>

theorem normalize_deterministic:
  assumes "lists_entries ord" "lists_entries ord'" "\<forall>k m. fmlookup n k = Some m \<longrightarrow> one_target m"
  shows "Normalize ord n ob = Normalize ord' n ob"
  using map_labels_order [OF assms(1,2)] assms(3)
  by (auto simp: Normalize_def one_target_def Let_def split: option.splits sum.splits)



section \<open>Witnesses\<close>

definition ex_mapping :: mapping where
  "ex_mapping = clash_mapping\<lparr>mp_LabelMap := Some (fmap_of_list [(''ifName'', ''interface'')])\<rparr>"

theorem normalize_deterministic_witness:
  "Normalize fm_items (fmupd ''ifOperStatus'' ex_mapping fmempty) clash_observation =
   Normalize (\<lambda>m. rev (fm_items m)) (fmupd ''ifOperStatus'' ex_mapping fmempty) clash_observation"
proof (rule normalize_deterministic)
  have "fm_items (fmap_of_list [(''ifName'', ''interface'')] :: strmap) = [(''ifName'', ''interface'')]" by code_simp
  then show "\<forall>k m. fmlookup (fmupd ''ifOperStatus'' ex_mapping fmempty) k = Some m \<longrightarrow> one_target m"
    by (simp add: one_target_def ex_mapping_def)
qed (simp_all add: lists_entries_def)

end
