(* ===== verification/Inventory.thy ===== *)
theory Inventory
  imports Domain
begin

text \<open>
  Packages \<open>internal/inventory\<close> (inventory.go) and \<open>internal/enrich\<close> (enrich.go): the registry of
  devices and the stage that attaches its context to observations. The registry's methods hold its
  lock, so each is one step on the map of devices.
\<close>


section \<open>The inventory file\<close>

text \<open>
  \<open>Parse\<close> after the YAML decoder: every device with the \<open>enabled\<close> flag the second pass found, which
  defaults to true.
\<close>

fun parse_inventory_loop :: "string set \<Rightarrow> (device \<times> bool option) list \<Rightarrow> goerr + device list" where
  "parse_inventory_loop seen [] = Inr []"
| "parse_inventory_loop seen ((d, flag) # rest) =
     (let d' = (if flag = None then d\<lparr>d_Enabled := True\<rparr> else d)
      in case Device_Validate d' of
           Some e \<Rightarrow> Inl e
         | None \<Rightarrow>
             if d_ID d' \<in> seen then Inl (Errorf CategoryValidation (''duplicate device id '' @ quote_q (d_ID d')))
             else (case parse_inventory_loop (insert (d_ID d') seen) rest of
                     Inl e \<Rightarrow> Inl e | Inr ds \<Rightarrow> Inr (d' # ds)))"

definition Parse_inventory :: "(device \<times> bool option) list \<Rightarrow> goerr + device list" where
  "Parse_inventory doc = parse_inventory_loop {} doc"


section \<open>The registry\<close>

type_synonym registry = "(string, device) fmap"

definition Replace :: "device list \<Rightarrow> registry \<Rightarrow> registry" where
  "Replace devices reg =
     fold (\<lambda>d next.
        let d' = (case fmlookup reg (d_ID d) of
                    Some old \<Rightarrow> if d_LastSeen d = 0 then d\<lparr>d_LastSeen := d_LastSeen old\<rparr> else d
                  | None \<Rightarrow> d)
        in fmupd (d_ID d) d' next) devices fmempty"

definition NewRegistry :: "device list \<Rightarrow> registry" where
  "NewRegistry devices = Replace devices fmempty"

definition Get_device :: "registry \<Rightarrow> string \<Rightarrow> device option" where
  "Get_device reg i = fmlookup reg i"

record device_query =
  dq_Site :: string
  dq_DeviceType :: string
  dq_Tag :: string
  dq_Enabled :: "bool option"

definition query_matches :: "device_query \<Rightarrow> device \<Rightarrow> bool" where
  "query_matches q d \<longleftrightarrow>
     \<not> (dq_Site q \<noteq> [] \<and> d_Site d \<noteq> dq_Site q)
   \<and> \<not> (dq_DeviceType q \<noteq> [] \<and> d_DeviceType d \<noteq> dq_DeviceType q)
   \<and> \<not> (dq_Tag q \<noteq> [] \<and> \<not> HasTag d (dq_Tag q))
   \<and> \<not> (case dq_Enabled q of Some b \<Rightarrow> d_Enabled d \<noteq> b | None \<Rightarrow> False)"

definition Lookup :: "registry \<Rightarrow> device_query \<Rightarrow> device list" where
  "Lookup reg q = sort_key d_ID (filter (query_matches q) (map snd (fm_items reg)))"

definition List_devices :: "registry \<Rightarrow> device list" where
  "List_devices reg = Lookup reg \<lparr>dq_Site = [], dq_DeviceType = [], dq_Tag = [], dq_Enabled = None\<rparr>"

definition Touch :: "string \<Rightarrow> gotime \<Rightarrow> registry \<Rightarrow> registry" where
  "Touch i tm reg =
     (case fmlookup reg i of
        Some d \<Rightarrow> if d_LastSeen d < tm then fmupd i (d\<lparr>d_LastSeen := tm\<rparr>) reg else reg
      | None \<Rightarrow> reg)"


section \<open>Enrichment\<close>

definition ErrDeviceDisabled :: goerr where
  "ErrDeviceDisabled = ESentinel ''device disabled''"

definition set_meta :: "string \<Rightarrow> string \<Rightarrow> strmap \<Rightarrow> strmap" where
  "set_meta k v md = (if v \<noteq> [] then fmupd k v md else md)"

definition Enrich :: "registry \<Rightarrow> observation \<Rightarrow> goerr + observation \<times> device" where
  "Enrich reg ob =
     (case Get_device reg (o_DeviceID ob) of
        None \<Rightarrow> Inl (Errorf CategoryValidation
          (''observation '' @ o_ObservationID ob @ '' references unregistered device '' @ quote_q (o_DeviceID ob)))
      | Some dev \<Rightarrow>
          if \<not> d_Enabled dev then Inl ErrDeviceDisabled
          else
            (let md1 = set_meta ''hostname'' (d_Hostname dev) (o_Metadata ob);
                 md2 = set_meta ''device_type'' (d_DeviceType dev) md1;
                 md3 = set_meta ''site'' (d_Site dev) md2;
                 md4 = set_meta ''vendor'' (d_Vendor dev) md3;
                 md5 = set_meta ''model'' (d_Model dev) md4;
                 md6 = set_meta ''tags'' (join_sep '','' (d_Tags dev)) md5;
                 iface = str_at (o_Labels ob) ''interface'';
                 md7 = (if iface \<noteq> []
                        then set_meta ''interface_description''
                               (str_at (d_Attributes dev) (''interface.'' @ iface @ ''.description'')) md6
                        else md6)
             in Inr (ob\<lparr>o_Metadata := md7\<rparr>, dev)))"


section \<open>Properties of the registry\<close>

lemma parse_inventory_loop_ok:
  "parse_inventory_loop seen doc = Inr ds \<Longrightarrow>
     distinct (map d_ID ds) \<and> set (map d_ID ds) \<inter> seen = {} \<and> list_all (\<lambda>d. device_problems d = []) ds
   \<and> ds = map (\<lambda>(d, flag). if flag = None then d\<lparr>d_Enabled := True\<rparr> else d) doc"
proof (induction seen doc arbitrary: ds rule: parse_inventory_loop.induct)
  case (2 seen d flag rest)
  let ?d = "if flag = None then d\<lparr>d_Enabled := True\<rparr> else d"
  from "2.prems" obtain es where v: "Device_Validate ?d = None" "d_ID ?d \<notin> seen"
      and es: "parse_inventory_loop (insert (d_ID ?d) seen) rest = Inr es" "ds = ?d # es"
    by (auto simp: Let_def split: option.splits if_splits sum.splits)
  have "device_problems ?d = []" using v(1) by (auto simp: Device_Validate_def split: if_splits)
  moreover from "2.IH" [OF refl v es(1)] have "distinct (map d_ID es)" "set (map d_ID es) \<inter> insert (d_ID ?d) seen = {}"
    "list_all (\<lambda>d. device_problems d = []) es"
    "es = map (\<lambda>(d, flag). if flag = None then d\<lparr>d_Enabled := True\<rparr> else d) rest" by blast+
  ultimately show ?case using v(2) es(2) by auto
qed simp

definition kept_device :: "registry \<Rightarrow> device \<Rightarrow> device" where
  "kept_device reg d = (case fmlookup reg (d_ID d) of
      Some old \<Rightarrow> if d_LastSeen d = 0 then d\<lparr>d_LastSeen := d_LastSeen old\<rparr> else d | None \<Rightarrow> d)"

lemma Replace_fold: "Replace devices reg = fold (\<lambda>d. fmupd (d_ID d) (kept_device reg d)) devices fmempty"
  by (simp add: Replace_def kept_device_def Let_def)

lemma fold_fmupd_other: "i \<notin> k ` set ds \<Longrightarrow> fmlookup (fold (\<lambda>d. fmupd (k d) (f d)) ds m) i = fmlookup m i"
  by (induction ds arbitrary: m) auto

lemma fold_fmupd_lookup:
  "distinct (map k ds) \<Longrightarrow> d \<in> set ds \<Longrightarrow> fmlookup (fold (\<lambda>d. fmupd (k d) (f d)) ds m) (k d) = Some (f d)"
proof (induction ds arbitrary: m)
  case (Cons x xs)
  show ?case
  proof (cases "x = d")
    case True
    with Cons.prems have "k d \<notin> k ` set xs" by auto
    from fold_fmupd_other [OF this, of f "fmupd (k d) (f d) m"] True show ?thesis by simp
  qed (use Cons in auto)
qed simp

lemma str_at_set_meta: "k \<noteq> k' \<Longrightarrow> str_at (set_meta k' v md) k = str_at md k"
  by (simp add: set_meta_def str_at_def)

lemma Enrich_frame:
  assumes "Enrich reg ob = Inr (ob', dev)"
  shows "\<exists>md. ob' = ob\<lparr>o_Metadata := md\<rparr>" "fmlookup reg (o_DeviceID ob) = Some dev" "d_Enabled dev"
    "str_at (o_Metadata ob') ''stale'' = str_at (o_Metadata ob) ''stale''"
  using assms
  by (auto simp: Enrich_def Get_device_def str_at_set_meta Let_def split: option.splits if_splits)

lemma Enrich_frame_fields:
  assumes "Enrich reg ob = Inr (ob', dev)"
  shows "o_ObservationID ob' = o_ObservationID ob" "o_DeviceID ob' = o_DeviceID ob" "o_Metric ob' = o_Metric ob"
    "o_Value ob' = o_Value ob" "o_Labels ob' = o_Labels ob" "o_ObservedAt ob' = o_ObservedAt ob"
    "o_Source ob' = o_Source ob" "o_CorrelationID ob' = o_CorrelationID ob"
  using Enrich_frame(1) [OF assms] by auto

lemma Enrich_Inl:
  "Enrich reg ob = Inl e \<longleftrightarrow>
     (case fmlookup reg (o_DeviceID ob) of
        None \<Rightarrow> e = Errorf CategoryValidation
          (''observation '' @ o_ObservationID ob @ '' references unregistered device '' @ quote_q (o_DeviceID ob))
      | Some dev \<Rightarrow> \<not> d_Enabled dev \<and> e = ErrDeviceDisabled)"
  by (auto simp: Enrich_def Get_device_def Let_def split: option.splits)

lemma err_is_disabled: "err_is (Errorf c m) ErrDeviceDisabled = False" "err_is ErrDeviceDisabled ErrDeviceDisabled"
  by (simp_all add: Errorf_def ErrDeviceDisabled_def)


section \<open>Properties\<close>

text \<open>
  An inventory file that parses lists the devices of its entries in order, each valid and under
  its own id, with \<open>enabled\<close> true where the entry does not say.
\<close>

theorem parsed_inventory_valid:
  assumes "Parse_inventory doc = Inr ds"
  shows "ds = map (\<lambda>(d, flag). if flag = None then d\<lparr>d_Enabled := True\<rparr> else d) doc
       \<and> distinct (map d_ID ds) \<and> list_all (\<lambda>d. Device_Validate d = None) ds"
  using parse_inventory_loop_ok [of "{}" doc ds] assms
  by (auto simp: Parse_inventory_def Device_Validate_def list_all_iff)

text \<open>
  Reloading the inventory keeps what was observed: after replacing the devices exactly the new
  ones are known, each as given except that a device that was known keeps its last-seen time when the
  new entry has none.
\<close>

theorem registry_keeps_last_seen:
  assumes "distinct (map d_ID devices)"
  shows "(\<forall>i. Get_device (Replace devices reg) i \<noteq> None \<longleftrightarrow> i \<in> d_ID ` set devices)
       \<and> list_all (\<lambda>d. Get_device (Replace devices reg) (d_ID d) =
            Some (case Get_device reg (d_ID d) of
                    Some old \<Rightarrow> d\<lparr>d_LastSeen := (if d_LastSeen d = 0 then d_LastSeen old else d_LastSeen d)\<rparr>
                  | None \<Rightarrow> d)) devices"
proof -
  have known: "d \<in> set devices \<Longrightarrow> Get_device (Replace devices reg) (d_ID d) = Some (kept_device reg d)" for d
    using fold_fmupd_lookup [OF assms, of d "kept_device reg"] by (simp add: Get_device_def Replace_fold)
  moreover have "i \<notin> d_ID ` set devices \<Longrightarrow> Get_device (Replace devices reg) i = None" for i
    using fold_fmupd_other [of i d_ID devices "kept_device reg" fmempty] by (simp add: Get_device_def Replace_fold)
  ultimately have "Get_device (Replace devices reg) i \<noteq> None \<longleftrightarrow> i \<in> d_ID ` set devices" for i
    by (metis imageE option.distinct(1))
  with known show ?thesis
    by (auto simp: list_all_iff kept_device_def Get_device_def split: option.splits)
qed

text \<open>
  Touching a device never moves its last-seen time backwards and never changes any other device.
\<close>

theorem touch_monotone:
  "case Get_device reg j of
     None \<Rightarrow> Get_device (Touch i tm reg) j = None
   | Some d \<Rightarrow> Get_device (Touch i tm reg) j = Some (if i = j then d\<lparr>d_LastSeen := max (d_LastSeen d) tm\<rparr> else d)"
  by (auto simp: Get_device_def Touch_def max_def split: option.splits)


section \<open>Witnesses\<close>

definition ex_dev :: "string \<Rightarrow> gotime \<Rightarrow> device" where
  "ex_dev i seen = \<lparr>d_ID = i, d_Hostname = i, d_ManagementAddress = ''10.0.0.1'', d_DeviceType = ''router'',
     d_Vendor = [], d_Model = [], d_SerialNumber = [], d_Site = ''lab'', d_Tags = [], d_Capabilities = [],
     d_CredentialsRef = [], d_Enabled = False, d_LastSeen = seen,
     d_Collection = \<lparr>c_Protocol = ''snmp'', c_Profile = [], c_Interval = 0\<rparr>, d_Attributes = fmempty\<rparr>"

theorem parsed_inventory_valid_witness:
  "\<exists>ds. Parse_inventory [(ex_dev ''r1'' 0, None), (ex_dev ''r2'' 0, Some False)] = Inr ds
     \<and> map d_Enabled ds = [True, False]"
proof -
  have "device_problems ((ex_dev ''r1'' 0)\<lparr>d_Enabled := True\<rparr>) = []" "device_problems (ex_dev ''r2'' 0) = []"
    by code_simp+
  then obtain ds where ds: "Parse_inventory [(ex_dev ''r1'' 0, None), (ex_dev ''r2'' 0, Some False)] = Inr ds"
    by (auto simp: Parse_inventory_def Device_Validate_def) (simp add: ex_dev_def)
  with parsed_inventory_valid [OF ds] show ?thesis by (auto simp: ex_dev_def)
qed

theorem registry_keeps_last_seen_witness:
  "Get_device (Replace [ex_dev ''r1'' 0] (fmupd ''r1'' (ex_dev ''r1'' 7) fmempty)) ''r1'' = Some (ex_dev ''r1'' 7)"
  using registry_keeps_last_seen [of "[ex_dev ''r1'' 0]" "fmupd ''r1'' (ex_dev ''r1'' 7) fmempty"]
  by (simp add: ex_dev_def Get_device_def)

end
