(* ===== verification/Subjects.thy ===== *)
theory Subjects
  imports Prelude
begin

text \<open>
  Subject and header names of \<open>internal/messaging/subjects.go\<close>, the names the components share on the
  wire.
\<close>

definition SubjectRawPrefix :: string where "SubjectRawPrefix = ''telemetry.raw''"
definition SubjectNormalized :: string where "SubjectNormalized = ''telemetry.normalized''"
definition SubjectInventoryObserved :: string where "SubjectInventoryObserved = ''inventory.observed''"
definition SubjectEventDevice :: string where "SubjectEventDevice = ''events.device''"
definition SubjectEventAlert :: string where "SubjectEventAlert = ''events.alert''"
definition SubjectAutomationRequest :: string where "SubjectAutomationRequest = ''automation.request''"
definition SubjectAutomationResult :: string where "SubjectAutomationResult = ''automation.result''"
definition SubjectDeadLetter :: string where "SubjectDeadLetter = ''system.deadletter''"

definition HeaderMsgID :: string where "HeaderMsgID = ''Nats-Msg-Id''"
definition HeaderCorrelationID :: string where "HeaderCorrelationID = ''X-Correlation-Id''"
definition HeaderSchema :: string where "HeaderSchema = ''X-Schema''"

definition message_headers :: "string \<Rightarrow> string \<Rightarrow> strmap" where
  "message_headers schema_id correlation = fmap_of_list [(HeaderSchema, schema_id), (HeaderCorrelationID, correlation)]"

end
