(* ===== verification/Pipeline.thy ===== *)
theory Pipeline
  imports Mem_Store Rules Normalize Inventory Subjects
begin

text \<open>
  Package \<open>internal/pipeline\<close> (pipeline.go, relay.go): stage A (decode, normalize, transform,
  validate), stage B (enrich, duplicate gate, state definitions, rules, events, all in one unit of
  work), the stale sweep and the outbox relay. The script hooks are the parameter \<open>extensions\<close>, the
  interface \<open>Extensions\<close> of the code. The body of stage B is written against the transaction
  interface; \<open>Process\<close> runs it on the in-memory store.
\<close>


section \<open>The processor\<close>

record extensions =
  ext_Transform :: "observation \<Rightarrow> goerr + observation \<times> bool"
  ext_Enrich :: "observation \<Rightarrow> device \<Rightarrow> goerr + observation"

record processor =
  pr_Limits :: limits
  pr_Normalizer :: normalizer
  pr_Inventory :: registry
  pr_States :: definitions
  pr_Rules :: "rules option"
  pr_Ext :: "extensions option"
  pr_StaleAfter :: duration
  pr_SweepInterval :: duration
  pr_StartedAt :: gotime

section \<open>Stage A\<close>

record normalized =
  nz_Observation :: observation
  nz_Payload :: "observation option"
  nz_Mapped :: bool
  nz_Dropped :: bool

text \<open>
  \<open>vnow\<close> and \<open>vnow'\<close> are the validator's clock at its two checks, \<open>now\<close> the processor's.
\<close>

definition NormalizeMessage ::
    "observation json_decoder \<Rightarrow> (strmap \<Rightarrow> (string \<times> string) list) \<Rightarrow> processor \<Rightarrow> gotime \<Rightarrow> gotime \<Rightarrow> gotime \<Rightarrow>
     string \<Rightarrow> goerr + normalized" where
  "NormalizeMessage json ord p vnow now vnow' data =
     bind_res (DecodeObservation json (pr_Limits p) vnow data) (\<lambda>obs.
     let obs1 = (if o_ReceivedAt obs = 0 then obs\<lparr>o_ReceivedAt := now\<rparr> else obs) in
     bind_res (Normalize ord (pr_Normalizer p) obs1) (\<lambda>(norm, res).
     bind_res (case pr_Ext p of None \<Rightarrow> Inr (norm, True) | Some ext \<Rightarrow> ext_Transform ext norm) (\<lambda>(next, keep).
     if \<not> keep
     then Inr \<lparr>nz_Observation = norm, nz_Payload = None, nz_Mapped = False, nz_Dropped = True\<rparr>
     else case Validate (pr_Limits p) vnow' next of
            Some e \<Rightarrow> Inl e
          | None \<Rightarrow>
              bind_res (Encode json_observation next) (\<lambda>payload.
              Inr \<lparr>nz_Observation = next, nz_Payload = Some payload, nz_Mapped = (res = Mapped), nz_Dropped = False\<rparr>))))"


section \<open>Stage B\<close>

record proc_outcome =
  oc_Duplicate :: bool
  oc_Dropped :: string
  oc_Transitions :: int
  oc_Events :: "event list"
  oc_Ignored :: int

definition empty_outcome :: proc_outcome where
  "empty_outcome = \<lparr>oc_Duplicate = False, oc_Dropped = [], oc_Transitions = 0, oc_Events = [], oc_Ignored = 0\<rparr>"

definition event_message :: "string \<Rightarrow> string \<Rightarrow> event \<Rightarrow> outbox_message" where
  "event_message subject msgID ev =
     \<lparr>om_ID = 0, om_Subject = subject, om_MsgID = msgID, om_Payload = PEvent ev,
      om_Headers = message_headers EventV1 (e_CorrelationID ev)\<rparr>"

definition recordEvent :: "'s txops \<Rightarrow> event \<Rightarrow> ('s, unit) prog" where
  "recordEvent tx ev =
     bind_tx (tx_InsertEvent tx ev) (\<lambda>inserted.
     if \<not> inserted then return_tx ()
     else bind_tx (lift_tx (Encode json_event ev)) (\<lambda>payload.
          bind_tx (tx_Enqueue tx (event_message SubjectEventDevice (e_EventID ev) payload)) (\<lambda>_.
          if e_AlertKey ev = [] then return_tx ()
          else bind_tx (if e_Resolves ev then tx_ResolveAlert tx ev else tx_OpenAlert tx ev) (\<lambda>changed.
               if \<not> changed then return_tx ()
               else tx_Enqueue tx (event_message SubjectEventAlert (e_EventID ev @ ''.alert'') payload)))))"

definition apply_update :: "'s txops \<Rightarrow> update \<Rightarrow> proc_outcome \<Rightarrow> ('s, proc_outcome) prog" where
  "apply_update tx up out =
     (if up_Ignored up \<noteq> NotIgnored then return_tx (out\<lparr>oc_Ignored := oc_Ignored out + 1\<rparr>)
      else bind_tx (tx_PutState tx (up_Record up)) (\<lambda>_.
           bind_tx (each_tx (\<lambda>tr out. bind_tx (tx_InsertTransition tx tr) (\<lambda>_.
                      return_tx (out\<lparr>oc_Transitions := oc_Transitions out + 1\<rparr>))) (up_Transitions up) out)
             (each_tx (\<lambda>ev out. bind_tx (recordEvent tx ev) (\<lambda>_.
                return_tx (out\<lparr>oc_Events := oc_Events out @ [ev]\<rparr>))) (up_Events up))))"

text \<open>An evaluator that dereferences nil panics in the middle of the unit of work.\<close>

definition apply_evaluated :: "'s txops \<Rightarrow> update option \<Rightarrow> proc_outcome \<Rightarrow> ('s, proc_outcome) prog" where
  "apply_evaluated tx u out = (case u of None \<Rightarrow> panic_tx | Some up \<Rightarrow> apply_update tx up out)"

definition process_definition :: "'s txops \<Rightarrow> observation \<Rightarrow> state_def \<Rightarrow> proc_outcome \<Rightarrow> ('s, proc_outcome) prog" where
  "process_definition tx ob def out =
     bind_tx (tx_GetState tx (fst (KeyFor def (o_DeviceID ob) (o_Labels ob)))) (\<lambda>prev.
     apply_evaluated tx (Evaluate def prev ob) out)"

definition skips_rule :: "state_record option \<Rightarrow> observation \<Rightarrow> bool" where
  "skips_rule prev ob = (case prev of
      None \<Rightarrow> False
    | Some r \<Rightarrow> r_LastObservationID r = o_ObservationID ob \<or> \<not> r_LastObservedAt r < o_ObservedAt ob)"

definition process_rule :: "'s txops \<Rightarrow> observation \<Rightarrow> rule \<Rightarrow> proc_outcome \<Rightarrow> ('s, proc_outcome) prog" where
  "process_rule tx ob r out =
     bind_tx (tx_GetState tx (fst (KeyFor_rule r (o_DeviceID ob) (o_Labels ob)))) (\<lambda>prev.
     if skips_rule prev ob then return_tx (out\<lparr>oc_Ignored := oc_Ignored out + 1\<rparr>)
     else bind_tx (tx_Samples tx (o_DeviceID ob) (o_Metric ob) (LabelsKey (o_Labels ob))
                     (o_ObservedAt ob - Window r) (o_ObservedAt ob)) (\<lambda>samples.
          apply_evaluated tx (Evaluate_rule r prev samples ob) out))"

definition process_body ::
    "'s txops \<Rightarrow> state_def list \<Rightarrow> rule list \<Rightarrow> observation \<Rightarrow> ('s, proc_outcome) prog" where
  "process_body tx defs rules ob =
     bind_tx (tx_InsertObservation tx ob) (\<lambda>inserted.
     if \<not> inserted then return_tx (empty_outcome\<lparr>oc_Duplicate := True\<rparr>)
     else bind_tx (if o_Source ob \<noteq> ''sweeper'' then tx_TouchDevice tx (o_DeviceID ob) (o_ObservedAt ob)
                   else return_tx ()) (\<lambda>_.
          bind_tx (each_tx (process_definition tx ob) defs empty_outcome)
            (each_tx (process_rule tx ob) rules)))"

definition enrich_observation :: "processor \<Rightarrow> observation \<Rightarrow> goerr + observation \<times> device" where
  "enrich_observation p ob =
     bind_res (Enrich (pr_Inventory p) ob) (\<lambda>(enriched, dev).
     case pr_Ext p of
       None \<Rightarrow> Inr (enriched, dev)
     | Some ext \<Rightarrow> bind_res (ext_Enrich ext enriched dev) (\<lambda>next. Inr (next, dev)))"

text \<open>
  \<open>errors.Is(err, ErrDeviceDisabled)\<close> is asked of the enricher's error only; an error of the script
  hook is returned as it is.
\<close>

definition Process :: "processor \<Rightarrow> goerr option \<Rightarrow> observation \<Rightarrow> (mem_store, proc_outcome) prog" where
  "Process p ctx ob s =
     (case Enrich (pr_Inventory p) ob of
        Inl e \<Rightarrow> if err_is e ErrDeviceDisabled then (Done (empty_outcome\<lparr>oc_Dropped := ''device_disabled''\<rparr>), s)
                 else (Fails e, s)
      | Inr _ \<Rightarrow>
          (case enrich_observation p ob of
             Inl e \<Rightarrow> (Fails e, s)
           | Inr (enriched, dev) \<Rightarrow>
               Do ctx (process_body memTx (For_defs (pr_States p) (o_Metric enriched) (d_DeviceType dev))
                         (For_rules (pr_Rules p) (o_Metric enriched) dev) enriched) s))"

definition PersistEvent :: "goerr option \<Rightarrow> event \<Rightarrow> (mem_store, unit) prog" where
  "PersistEvent ctx ev = Do ctx (recordEvent memTx ev)"


section \<open>The stale sweep\<close>

definition placeholder :: "processor \<Rightarrow> device \<Rightarrow> state_def \<Rightarrow> state_record" where
  "placeholder p dev def =
     zero_record\<lparr>r_Key := fst (KeyFor def (d_ID dev) fmempty), r_DeviceID := d_ID dev, r_DefinitionID := sd_ID def,
                 r_Labels := snd (KeyFor def (d_ID dev) fmempty), r_LastSeenAt := pr_StartedAt p\<rparr>"

definition sweep_records :: "processor \<Rightarrow> device list \<Rightarrow> state_record list \<Rightarrow> state_record list" where
  "sweep_records p devices recs =
     recs @ concat (map (\<lambda>dev.
       if \<not> d_Enabled dev \<or> c_Protocol (d_Collection dev) \<noteq> ''snmp'' then []
       else map (placeholder p dev)
              (filter (\<lambda>def. sd_Stale def \<and> fst (KeyFor def (d_ID dev) fmempty) \<notin> set (map r_Key recs)) (ds_all (pr_States p))))
       devices)"

text \<open>The loop over the synthetic samples, with the number processed so far.\<close>

fun sweep_samples :: "processor \<Rightarrow> goerr option \<Rightarrow> observation list \<Rightarrow> int \<Rightarrow> mem_store \<Rightarrow> (int \<times> unit outcome) \<times> mem_store" where
  "sweep_samples p ctx [] n s = ((n, Done ()), s)"
| "sweep_samples p ctx (smp # smps) n s =
     (case Process p ctx smp s of
        (Done _, s') \<Rightarrow> sweep_samples p ctx smps (n + 1) s'
      | (Fails e, s') \<Rightarrow> ((n, Fails e), s')
      | (Panics, s') \<Rightarrow> ((n, Panics), s'))"

definition Sweep :: "processor \<Rightarrow> goerr option \<Rightarrow> gotime \<Rightarrow> device list \<Rightarrow> mem_store \<Rightarrow> (int \<times> unit outcome) \<times> mem_store" where
  "Sweep p ctx now devices s =
     (case StaleSamples (pr_States p) (sweep_records p devices (ListStates s)) now (pr_StaleAfter p) (pr_SweepInterval p) of
        None \<Rightarrow> ((0, Panics), s)
      | Some smps \<Rightarrow> sweep_samples p ctx smps 0 s)"


section \<open>The outbox relay\<close>

record relay_msg =
  xm_Subject :: string
  xm_MsgID :: string
  xm_Payload :: payload
  xm_Headers :: strmap

definition relay_msg_of :: "outbox_message \<Rightarrow> relay_msg" where
  "relay_msg_of m = \<lparr>xm_Subject = om_Subject m, xm_MsgID = om_MsgID m, xm_Payload = om_Payload m, xm_Headers = om_Headers m\<rparr>"

lemma drain_decreases:
  assumes "DrainOutbox sz publish (s, w) = ((n, None), (s', w'))" "\<not> n < sz" "\<not> sz \<le> 0"
  shows "length (pending (ms_outbox s')) < length (pending (ms_outbox s))"
  using assms
  by (auto simp: DrainOutbox_spec Let_def pending_publish_first split: if_splits prod.splits option.splits)

text \<open>
  The messaging client acts on its own world \<open>'w\<close>. A batch size is positive when \<open>Drain\<close> enters the
  loop; the third way out of the loop is for the other sizes, which do not occur.
\<close>

function relay_loop ::
    "int \<Rightarrow> (relay_msg list \<Rightarrow> 'w \<Rightarrow> goerr option \<times> 'w) \<Rightarrow> int \<Rightarrow> mem_store \<times> 'w \<Rightarrow> (int \<times> goerr option) \<times> mem_store \<times> 'w" where
  "relay_loop sz pub cnt sw =
     (case DrainOutbox sz (\<lambda>batch. pub (map relay_msg_of batch)) sw of
        ((n, err), sw') \<Rightarrow>
          if err \<noteq> None \<or> n < sz \<or> sz \<le> 0 then ((cnt + n, err), sw')
          else relay_loop sz pub (cnt + n) sw')"
  by pat_completeness auto
termination
  by (relation "measure (\<lambda>(sz, pub, cnt, s, w). length (pending (ms_outbox s)))")
     (auto dest!: sym [of "((_, None), _)"] drain_decreases)

declare relay_loop.simps [simp del]

definition Drain ::
    "int \<Rightarrow> (relay_msg list \<Rightarrow> 'w \<Rightarrow> goerr option \<times> 'w) \<Rightarrow> mem_store \<times> 'w \<Rightarrow> (int \<times> goerr option) \<times> mem_store \<times> 'w" where
  "Drain batchSize pub sw = relay_loop (if batchSize \<le> 0 then 100 else batchSize) pub 0 sw"


section \<open>What the body of stage B keeps\<close>

context tx_invariant
begin

lemma recordEvent_keeps [keeps_intros]: "keeps I (recordEvent tx ev)"
  unfolding recordEvent_def by (intro keeps_intros allI)

lemma apply_update_keeps [keeps_intros]: "keeps I (apply_update tx up out)"
  unfolding apply_update_def by (intro keeps_intros allI)

lemma apply_evaluated_keeps [keeps_intros]: "keeps I (apply_evaluated tx u out)"
  unfolding apply_evaluated_def by (intro keeps_intros allI)

lemma process_definition_keeps [keeps_intros]: "keeps I (process_definition tx ob def out)"
  unfolding process_definition_def by (intro keeps_intros allI)

lemma process_rule_keeps [keeps_intros]: "keeps I (process_rule tx ob r out)"
  unfolding process_rule_def by (intro keeps_intros allI)

lemma process_body_keeps: "keeps I (process_body tx defs rules ob)"
  unfolding process_body_def by (intro keeps_intros allI)

end

lemma Process_cases:
  assumes "Process p ctx ob s = (r, s')"
  obtains (early) "s' = s" "r \<noteq> Panics"
            "\<forall>out. r = Done out \<longrightarrow> oc_Dropped out = ''device_disabled'' \<and> oc_Events out = []"
        | (run) ob' dev where "enrich_observation p ob = Inr (ob', dev)"
            "Do ctx (process_body memTx (For_defs (pr_States p) (o_Metric ob') (d_DeviceType dev))
               (For_rules (pr_Rules p) (o_Metric ob') dev) ob') s = (r, s')"
  using assms
  by (auto simp: Process_def empty_outcome_def split: sum.splits if_splits)

section \<open>Alerts follow states\<close>

definition alerts_match :: "mem_store \<Rightarrow> bool" where
  "alerts_match s \<longleftrightarrow> (\<forall>k. k \<noteq> [] \<longrightarrow> AlertFiring_for k s = alert_open (fmlookup (ms_states s) k))"

text \<open>
  An update is coherent with the states it was computed from when its events, if any, concern its own
  key and say what its record says.
\<close>

definition coherent :: "(string, state_record) fmap \<Rightarrow> update \<Rightarrow> bool" where
  "coherent st up \<longleftrightarrow> up_Ignored up = NotIgnored \<longrightarrow>
     (r_Key (up_Record up) \<noteq> []
      \<and> (case up_Events up of
           [] \<Rightarrow> alert_open (fmlookup st (r_Key (up_Record up))) = alert_open (Some (up_Record up))
         | [e] \<Rightarrow> e_AlertKey e = r_Key (up_Record up) \<and> e_Resolves e = (\<not> alert_open (Some (up_Record up)))
         | _ \<Rightarrow> False))"

lemma key_not_empty: "fst (KeyFor def i labels) \<noteq> []" "fst (KeyFor_rule r i labels) \<noteq> []"
  by (simp_all add: KeyFor_def KeyFor_rule_def Let_def)

lemma Evaluate_coherent:
  assumes "Evaluate def (fmlookup st k) ob = Some up" "k = fst (KeyFor def (o_DeviceID ob) (o_Labels ob))"
    and "\<forall>k r. fmlookup st k = Some r \<longrightarrow> r_Key r = k"
  shows "coherent st up"
proof (cases "up_Ignored up = NotIgnored")
  case True
  have a: "apply_def def (fmlookup st k) ob = Some (up_Record up, up_Events up)"
    using True assms(1) by (simp add: apply_def_def)
  have key: "r_Key (up_Record up) = k"
    using apply_def_stamps(3) [OF a] assms(2,3) by (auto simp: base_record_def zero_record_def split: option.splits)
  have "\<exists>from to. up_Events up = (if to = from then []
       else case eventFor def (fst (KeyFor def (o_DeviceID ob) (o_Labels ob))) from to ob of
              Some ev \<Rightarrow> [ev] | None \<Rightarrow> [])"
    using assms(1) True by (rule Evaluate_applied) blast
  then have "\<forall>e \<in> set (up_Events up). e_AlertKey e = k"
    using assms(2) by (elim exE) (force dest: eventFor_cases(3) split: option.split_asm if_split_asm)
  with state_alerts.emits [OF a] key key_not_empty(1) [of def] assms(2) show ?thesis
    by (auto simp: coherent_def split: if_splits list.splits)
qed (simp add: coherent_def)

lemma Evaluate_rule_coherent:
  assumes "Evaluate_rule r (fmlookup st k) ss ob = Some up" "k = fst (KeyFor_rule r (o_DeviceID ob) (o_Labels ob))"
    and "\<forall>k r. fmlookup st k = Some r \<longrightarrow> r_Key r = k"
  shows "coherent st up"
proof (cases "up_Ignored up = NotIgnored")
  case True
  from assms(1) True show ?thesis
    using assms(2,3) key_not_empty(2) [of r "o_DeviceID ob" "o_Labels ob"]
    by (auto simp: coherent_def Evaluate_rule_def rule_record_def rule_event_def alert_open_def zero_record_def Let_def
             split: option.splits if_splits)
qed (simp add: coherent_def)


section \<open>The effect of a unit of work on alerts and states\<close>

lemma each_transitions:
  "each_tx (\<lambda>tr out. bind_tx (InsertTransition tr) (\<lambda>_. return_tx (out\<lparr>oc_Transitions := oc_Transitions out + 1\<rparr>))) trs out t
     = (Done out', t') \<Longrightarrow>
   ms_states (tx_s t') = ms_states (tx_s t) \<and> ms_alerts (tx_s t') = ms_alerts (tx_s t)
   \<and> ms_events (tx_s t') = ms_events (tx_s t) \<and> oc_Events out' = oc_Events out"
  by (induction trs arbitrary: out t)
     (fastforce simp: bind_tx_def return_tx_def InsertTransition_def Let_def split: if_splits)+

lemma resolved_not_firing:
  assumes "alerts_ok as" "find_index (firing_for k) as = Some i"
  shows "list_ex (firing_for j) (as[i := (as ! i)\<lparr>a_Status := AlertResolved, a_ResolvedAt := tm\<rparr>])
         = (j \<noteq> k \<and> list_ex (firing_for j) as)"
proof -
  have i: "i < length as" "firing_for k (as ! i)"
    using find_index_SomeD [OF assms(2)] by auto
  define xs a ys where "xs = take i as" and "a = as ! i" and "ys = drop (Suc i) as"
  have as: "as = xs @ a # ys" and len: "length xs = i"
    using i(1) by (simp_all add: xs_def a_def ys_def id_take_nth_drop [symmetric])
  have "\<not> firing_for k b" if "b \<in> set xs \<union> set ys" for b
    using assms(1) that i(2) by (force simp: as alerts_ok_def firing_for_def nth_append len image_iff)
  then show ?thesis
    using i(2) len by (auto simp: as nth_append firing_for_def list_ex_iff)
qed

lemma list_ex_alert_of [simp]: "firing_for k (alert_of e) \<longleftrightarrow> k = e_AlertKey e"
  by (auto simp: firing_for_def alert_of_def)

lemma no_firing: "find_index (firing_for k) as = None \<Longrightarrow> \<not> list_ex (firing_for k) as"
  by (simp add: list_ex_iff)

lemma recordEvent_effect:
  assumes "recordEvent memTx ev t = (Done (), t')" "fmlookup (ms_events (tx_s t)) (e_EventID ev) = None"
    and "alerts_ok (ms_alerts (tx_s t))"
  shows "ms_states (tx_s t') = ms_states (tx_s t)"
    and "ms_events (tx_s t') = fmupd (e_EventID ev) ev (ms_events (tx_s t))"
    and "AlertFiring_for k (tx_s t') =
          (if k \<noteq> [] \<and> k = e_AlertKey ev then \<not> e_Resolves ev else AlertFiring_for k (tx_s t))"
  using assms
  by (auto simp: recordEvent_def bind_tx_def return_tx_def lift_tx_def fail_tx_def InsertEvent_def Enqueue_def
      Let_def AlertFiring_for_def OpenAlert_def ResolveAlert_def resolved_not_firing no_firing simp del: find_index_None
      split: if_splits sum.splits option.splits)


text \<open>
  \<open>fresh_events s evs\<close>: the events have identifiers of their own, which no stored event has. The
  identifiers are hashes of the definition, the key, the transition and the observation, so this
  fails only on a collision.
\<close>

definition fresh_events :: "mem_store \<Rightarrow> event list \<Rightarrow> bool" where
  "fresh_events s evs \<longleftrightarrow> distinct (map e_EventID evs) \<and> list_all (\<lambda>e. fmlookup (ms_events s) (e_EventID e) = None) evs"

definition following :: "mem_store \<Rightarrow> proc_outcome \<Rightarrow> mem_tx \<Rightarrow> bool" where
  "following s out t \<longleftrightarrow>
     store_inv (tx_s t)
   \<and> (\<forall>i. fmlookup (ms_events (tx_s t)) i \<noteq> None \<longrightarrow> fmlookup (ms_events s) i \<noteq> None \<or> i \<in> e_EventID ` set (oc_Events out))
   \<and> (fresh_events s (oc_Events out) \<longrightarrow> alerts_match (tx_s t))"

lemma one_event:
  assumes "each_tx (\<lambda>ev out. bind_tx (recordEvent memTx ev) (\<lambda>_. return_tx (out\<lparr>oc_Events := oc_Events out @ [ev]\<rparr>))) [e] out t
           = (Done out', t')"
  shows "recordEvent memTx e t = (Done (), t')" "oc_Events out' = oc_Events out @ [e]"
  using assms by (auto simp: bind_tx_def return_tx_def split: prod.splits outcome.splits)

lemma apply_update_following:
  assumes run: "apply_update memTx up out t = (Done out', t')"
    and J: "following s out t" and co: "coherent (ms_states (tx_s t)) up"
  shows "following s out' t'"
proof (cases "up_Ignored up = NotIgnored")
  case False
  with run J show ?thesis by (auto simp: apply_update_def return_tx_def following_def)
next
  case True
  have inv: "store_inv (tx_s t')"
    using keepsD [OF inv.apply_update_keeps _ run] J by (simp add: following_def)
  define k where "k = r_Key (up_Record up)"
  define t1 where "t1 = snd (PutState (up_Record up) t)"
  have t1: "ms_alerts (tx_s t1) = ms_alerts (tx_s t)" "ms_events (tx_s t1) = ms_events (tx_s t)"
      "ms_states (tx_s t1) = fmupd k (up_Record up) (ms_states (tx_s t))"
    by (simp_all add: t1_def PutState_def Let_def k_def)
  from run True obtain out2 t2 where
      tr: "each_tx (\<lambda>tr out. bind_tx (InsertTransition tr) (\<lambda>_. return_tx (out\<lparr>oc_Transitions := oc_Transitions out + 1\<rparr>)))
             (up_Transitions up) out t1 = (Done out2, t2)"
    and ev: "each_tx (\<lambda>ev out. bind_tx (recordEvent memTx ev) (\<lambda>_. return_tx (out\<lparr>oc_Events := oc_Events out @ [ev]\<rparr>)))
             (up_Events up) out2 t2 = (Done out', t')"
    by (auto simp: apply_update_def bind_tx_def [of "PutState _"] bind_tx_def [of "each_tx _ _ _"] PutState_def Let_def t1_def
             split: prod.splits outcome.splits)
  note t2 = each_transitions [OF tr, unfolded t1]
  have firing2: "AlertFiring_for j (tx_s t2) = AlertFiring_for j (tx_s t)" for j
    using t2 by (simp add: AlertFiring_for_def)
  have aok: "alerts_ok (ms_alerts (tx_s t2))"
    using J t2 by (simp add: following_def store_inv_def)
  have k: "k \<noteq> []" using co True by (simp add: coherent_def k_def)
  from co True consider (none) "up_Events up = []" "alert_open (fmlookup (ms_states (tx_s t)) k) = alert_open (Some (up_Record up))"
    | (one) e where "up_Events up = [e]" "e_AlertKey e = k" "e_Resolves e = (\<not> alert_open (Some (up_Record up)))"
    by (auto simp: coherent_def k_def split: list.splits)
  then show ?thesis
  proof cases
    case none
    with ev have "out' = out2" "t' = t2" by (simp_all add: return_tx_def)
    with none(2) inv J t2 firing2 show ?thesis
      by (auto simp: following_def alerts_match_def)
  next
    case one
    note e = one_event [OF ev [unfolded one(1)]]
    show ?thesis
    proof (cases "fmlookup (ms_events (tx_s t)) (e_EventID e) = None")
      case True
      then have fresh: "fmlookup (ms_events (tx_s t2)) (e_EventID e) = None" using t2 by simp
      show ?thesis
        using inv J recordEvent_effect [OF e(1) fresh aok] e(2) t2 firing2 one k
        by (auto simp: following_def alerts_match_def fresh_events_def split: if_splits)
    next
      case False
      then have stays: "t' = t2" using e(1) t2
        by (auto simp: recordEvent_def bind_tx_def InsertEvent_def return_tx_def Let_def)
      have "\<not> fresh_events s (oc_Events out')"
        using False J e(2) t2 by (force simp: fresh_events_def following_def)
      with inv J stays e(2) t2 show ?thesis by (auto simp: following_def)
    qed
  qed
qed


lemma each_following:
  assumes "\<And>x out out' t t'. x \<in> set xs \<Longrightarrow> body x out t = (Done out', t') \<Longrightarrow> following s out t \<Longrightarrow> following s out' t'"
    and "each_tx body xs out t = (Done out', t')" "following s out t"
  shows "following s out' t'"
  using assms
  by (induction xs arbitrary: out t)
     (fastforce simp: bind_tx_def return_tx_def split: prod.splits outcome.splits)+

lemma process_definition_following:
  assumes "process_definition memTx ob def out t = (Done out', t')" "following s out t"
  shows "following s out' t'"
proof -
  from assms(1) obtain up where up: "Evaluate def (fmlookup (ms_states (tx_s t)) (fst (KeyFor def (o_DeviceID ob) (o_Labels ob)))) ob = Some up"
      and run: "apply_update memTx up out t = (Done out', t')"
    by (auto simp: process_definition_def bind_tx_def GetState_def apply_evaluated_def panic_tx_def split: option.splits)
  have "coherent (ms_states (tx_s t)) up"
    using Evaluate_coherent [OF up refl] assms(2) by (simp add: following_def store_inv_def)
  from apply_update_following [OF run assms(2) this] show ?thesis .
qed

lemma process_rule_following:
  assumes "process_rule memTx ob r out t = (Done out', t')" "following s out t"
  shows "following s out' t'"
proof (cases "skips_rule (fmlookup (ms_states (tx_s t)) (fst (KeyFor_rule r (o_DeviceID ob) (o_Labels ob)))) ob")
  case True
  with assms show ?thesis
    by (auto simp: process_rule_def bind_tx_def GetState_def return_tx_def following_def)
next
  case False
  with assms(1) obtain ss up where
      up: "Evaluate_rule r (fmlookup (ms_states (tx_s t)) (fst (KeyFor_rule r (o_DeviceID ob) (o_Labels ob)))) ss ob = Some up"
      and run: "apply_update memTx up out t = (Done out', t')"
    by (auto simp: process_rule_def bind_tx_def GetState_def Samples_def apply_evaluated_def panic_tx_def split: option.splits)
  have "coherent (ms_states (tx_s t)) up"
    using Evaluate_rule_coherent [OF up refl] assms(2) by (simp add: following_def store_inv_def)
  from apply_update_following [OF run assms(2) this] show ?thesis .
qed

lemma process_body_following:
  assumes "process_body memTx defs rules ob \<lparr>tx_s = s, tx_undo = []\<rparr> = (Done out, t)"
    and "store_inv s" "alerts_match s"
  shows "following s out t"
proof (cases "fmlookup (ms_observation s) (o_ObservationID ob) = None")
  case False
  with assms show ?thesis
    by (auto simp: process_body_def bind_tx_def InsertObservation_def return_tx_def following_def empty_outcome_def)
next
  case True
  define t1 where "t1 = snd (InsertObservation ob \<lparr>tx_s = s, tx_undo = []\<rparr>)"
  define t2 where "t2 = snd ((if o_Source ob \<noteq> ''sweeper'' then TouchDevice (o_DeviceID ob) (o_ObservedAt ob) else return_tx ()) t1)"
  have frame: "ms_alerts (tx_s t2) = ms_alerts s" "ms_states (tx_s t2) = ms_states s" "ms_events (tx_s t2) = ms_events s"
    by (auto simp: t2_def t1_def TouchDevice_def InsertObservation_def return_tx_def Let_def split: option.splits)
  have "store_inv (tx_s t1)"
    using keepsD [OF inv.InsertObservation_keeps, of "\<lparr>tx_s = s, tx_undo = []\<rparr>" ob _ t1] assms(2)
    by (simp add: t1_def prod_eq_iff)
  then have "store_inv (tx_s t2)"
    using inv.TouchDevice_keeps [of "o_DeviceID ob" "o_ObservedAt ob"]
    by (simp add: t2_def keeps_def return_tx_def)
  with frame assms(3) have start: "following s empty_outcome t2"
    by (simp add: following_def alerts_match_def AlertFiring_for_def)
  from assms(1) True obtain out1 t3 where
      d: "each_tx (process_definition memTx ob) defs empty_outcome t2 = (Done out1, t3)" and
      r: "each_tx (process_rule memTx ob) rules out1 t3 = (Done out, t)"
    by (auto simp: process_body_def bind_tx_def t1_def t2_def InsertObservation_def TouchDevice_def return_tx_def Let_def
             split: prod.splits outcome.splits option.splits if_splits)
  have "following s out1 t3"
    by (rule each_following [OF _ d start]) (rule process_definition_following)
  then show ?thesis
    by (rule each_following [OF _ r, rotated]) (rule process_rule_following)
qed

section \<open>No panic with a parsed configuration\<close>

definition calm :: "('s, 'a) prog \<Rightarrow> bool" where
  "calm m \<longleftrightarrow> (\<forall>s. fst (m s) \<noteq> Panics)"

named_theorems calm_intros \<open>freedom from panics, one rule per program construct\<close>

lemma calm_return [calm_intros]: "calm (return_tx a)"
  by (simp add: calm_def return_tx_def)

lemma calm_lift [calm_intros]: "calm (lift_tx r)"
  by (auto simp: calm_def lift_tx_def fail_tx_def return_tx_def split: sum.splits)

lemma calm_bind [calm_intros]: "calm m \<Longrightarrow> (\<And>a. calm (f a)) \<Longrightarrow> calm (bind_tx m f)"
  by (auto simp: calm_def bind_tx_def split: prod.splits outcome.splits; metis fst_conv)

lemma calm_each: "(\<And>x acc. x \<in> set xs \<Longrightarrow> calm (body x acc)) \<Longrightarrow> calm (each_tx body xs acc)"
  by (induction xs arbitrary: acc) (auto intro!: calm_intros)

lemma calm_if [calm_intros]: "calm m \<Longrightarrow> calm n \<Longrightarrow> calm (if b then m else n)"
  by simp

lemma calm_memTx [calm_intros]:
  "calm (InsertObservation ob)" "calm (TouchDevice i tm)" "calm (Samples i m l from to)" "calm (GetState k)"
  "calm (PutState r)" "calm (InsertTransition tr)" "calm (InsertEvent e)" "calm (OpenAlert e)" "calm (ResolveAlert e)"
  "calm (Enqueue msg)"
  by (auto simp: calm_def memTx_ops Let_def split: option.splits)

lemma calm_recordEvent [calm_intros]: "calm (recordEvent memTx ev)"
  by (auto simp: recordEvent_def intro!: calm_intros)

lemma calm_apply_update [calm_intros]: "calm (apply_update memTx up out)"
  by (auto simp: apply_update_def intro!: calm_intros calm_each)

lemma calm_process_definition: "validate_def def = [] \<Longrightarrow> calm (process_definition memTx ob def out)"
  by (auto simp: process_definition_def apply_evaluated_def intro!: calm_intros split: option.splits)
     (use Evaluate_total in blast)

lemma calm_process_rule: "validate_rule r = [] \<Longrightarrow> calm (process_rule memTx ob r out)"
  by (auto simp: process_rule_def apply_evaluated_def intro!: calm_intros split: option.splits)
     (use Evaluate_rule_total in blast)

lemma calm_process_body:
  "list_all (\<lambda>d. validate_def d = []) defs \<Longrightarrow> list_all (\<lambda>r. validate_rule r = []) rs \<Longrightarrow>
     calm (process_body memTx defs rs ob)"
  by (auto simp: process_body_def list_all_iff
           intro!: calm_intros calm_each calm_process_definition calm_process_rule)

lemma calm_Do: "calm body \<Longrightarrow> calm (Do ctx body)"
  by (auto simp: calm_def Do_def split: option.splits prod.splits outcome.splits; metis fst_conv)

text \<open>The configuration of a processor that start-up accepts.\<close>

definition configured :: "processor \<Rightarrow> bool" where
  "configured p \<longleftrightarrow> defs_ok (pr_States p) \<and> (\<forall>rs. pr_Rules p = Some rs \<longrightarrow> rules_ok rs)"

lemma Process_calm:
  assumes "configured p"
  shows "fst (Process p ctx ob s) \<noteq> Panics"
proof -
  obtain r s' where run: "Process p ctx ob s = (r, s')" by fastforce
  then show ?thesis
  proof (cases rule: Process_cases)
    case (run ob' dev)
    have "list_all (\<lambda>d. validate_def d = []) (For_defs (pr_States p) (o_Metric ob') (d_DeviceType dev))"
      using assms For_defs_valid by (auto simp: configured_def list_all_iff)
    moreover have "list_all (\<lambda>r. validate_rule r = []) (For_rules (pr_Rules p) (o_Metric ob') dev)"
      using assms For_rules_valid by (cases "pr_Rules p") (auto simp: configured_def list_all_iff)
    ultimately show ?thesis
      using calm_Do [OF calm_process_body, of _ _ ctx ob'] run(2) \<open>Process p ctx ob s = (r, s')\<close>
      by (metis calm_def fst_conv)
  qed (use run in auto)
qed

lemma Process_undone:
  assumes "Process p ctx ob s = (Fails e, s')"
  shows "s' = s\<lparr>ms_failNext := ms_failNext s'\<rparr>"
  using assms
proof (cases rule: Process_cases)
  case (run ob' dev)
  from Do_rolls_back [OF undo.process_body_keeps run(2)] show ?thesis by simp
qed simp

lemma Process_inv:
  assumes "store_inv s" "Process p ctx ob s = (r, s')"
  shows "store_inv s'"
  using assms(2)
proof (cases rule: Process_cases)
  case (run ob' dev)
  show ?thesis by (rule Do_keeps_inv [OF undo.process_body_keeps inv.process_body_keeps assms(1) run(2)])
qed (use assms in simp)


lemma process_body_no_failNext:
  "keeps (\<lambda>t. ms_failNext (tx_s t) = f) (process_body memTx defs rs ob)"
proof -
  have "tx_invariant memTx (\<lambda>t. ms_failNext (tx_s t) = f)"
    by unfold_locales (auto simp: keeps_def memTx_ops Let_def split: option.splits)
  then show ?thesis by (rule tx_invariant.process_body_keeps)
qed

lemma process_body_stores:
  assumes "process_body memTx defs rs ob t = (Done out, t')"
  shows "fmlookup (ms_observation (tx_s t')) (o_ObservationID ob) \<noteq> None"
proof -
  have frame: "tx_invariant memTx (\<lambda>t. fmlookup (ms_observation (tx_s t)) (o_ObservationID ob) \<noteq> None)"
    by unfold_locales (auto simp: keeps_def memTx_ops Let_def split: option.splits)
  note keeps_frame = tx_invariant.process_definition_keeps [OF frame] tx_invariant.process_rule_keeps [OF frame]
    tx_invariant.TouchDevice_keeps [OF frame]
  define rest where "rest = bind_tx (if o_Source ob \<noteq> ''sweeper'' then tx_TouchDevice memTx (o_DeviceID ob) (o_ObservedAt ob)
       else return_tx ()) (\<lambda>_. bind_tx (each_tx (process_definition memTx ob) defs empty_outcome) (each_tx (process_rule memTx ob) rs))"
  have rest: "keeps (\<lambda>t. fmlookup (ms_observation (tx_s t)) (o_ObservationID ob) \<noteq> None) rest"
    unfolding rest_def by (intro keeps_intros keeps_frame allI)
  define t1 where "t1 = snd (InsertObservation ob t)"
  have "fmlookup (ms_observation (tx_s t1)) (o_ObservationID ob) \<noteq> None"
    by (simp add: t1_def InsertObservation_def Let_def)
  moreover have "rest t1 = (Done out, t') \<or> t' = t1"
    using assms by (auto simp: process_body_def rest_def [symmetric, simplified] bind_tx_def [of "InsertObservation ob"] InsertObservation_def return_tx_def Let_def t1_def
      split: if_splits)
  ultimately show ?thesis using keepsD [OF rest, of t1 "Done out" t'] by blast
qed

text \<open>
  Once per observation (C13). When stage B has processed an observation that was not dropped, processing the
  same observation again, as a redelivery does, reports a duplicate and leaves the store as it is.
\<close>

theorem processed_at_most_once:
  assumes "Process p ctx ob s = (Done out, s')" "oc_Dropped out = []"
  shows "Process p None ob s' = (Done (empty_outcome\<lparr>oc_Duplicate := True\<rparr>), s')"
  using assms(1)
proof (cases rule: Process_cases)
  case (run ob' dev)
  then obtain t where t: "process_body memTx (For_defs (pr_States p) (o_Metric ob') (d_DeviceType dev))
               (For_rules (pr_Rules p) (o_Metric ob') dev) ob' \<lparr>tx_s = s, tx_undo = []\<rparr> = (Done out, t)" "s' = tx_s t"
      and f: "ms_failNext s = None"
    by (auto simp: Do_def split: option.splits prod.splits outcome.splits)
  have "ms_failNext s' = None"
    using keepsD [OF process_body_no_failNext _ t(1)] f t(2) by simp
  moreover have "\<exists>v. Enrich (pr_Inventory p) ob = Inr v"
    using run(1) by (cases "Enrich (pr_Inventory p) ob") (auto simp: enrich_observation_def)
  ultimately show ?thesis
    using process_body_stores [OF t(1)] run(1) t(2)
    by (auto simp: Process_def Do_def process_body_def [of memTx] bind_tx_def [of "InsertObservation _"] InsertObservation_def
             return_tx_def Let_def split: option.splits)
qed (use assms in auto)

text \<open>
  All or nothing (C12). When stage B fails, for whatever reason and at whatever point, the store is what it
  was before: no observation, state, transition, event, alert or message of the failed attempt
  remains.
\<close>

theorem process_all_or_nothing:
  assumes "Process p ctx ob s = (Fails e, s')"
  shows "s' = s\<lparr>ms_failNext := ms_failNext s'\<rparr>"
  by (rule Process_undone [OF assms])

text \<open>
  Alerts follow states (C11). With a configuration that parsed, and unless event identifiers collide,
  processing an observation keeps this invariant: an alert key has a firing alert exactly when the
  state record of that key says the entity is down or recovering, and it never has two.
\<close>

theorem alerts_follow_states:
  assumes "Parse_defs ddoc = Inr (pr_States p)" "pr_Rules p = None \<or> Parse_rules rdoc = Inr (the (pr_Rules p))"
    and "store_inv s" "alerts_match s"
    and "Process p ctx ob s = (r, s')" "\<forall>out. r = Done out \<longrightarrow> fresh_events s (oc_Events out)"
  shows "store_inv s' \<and> alerts_match s'"
proof -
  have "configured p"
    using assms(1,2) Parse_defs_ok Parse_rules_ok by (fastforce simp: configured_def)
  with Process_calm [of p ctx ob s] assms(5) have "r \<noteq> Panics" by simp
  then consider (fails) e where "r = Fails e" | (finishes) out where "r = Done out" by (cases r) auto
  then have "alerts_match s'"
  proof cases
    case fails
    with Process_undone [of p ctx ob s e s'] assms(4,5) show ?thesis
      by (metis (no_types, lifting) AlertFiring_for_def alerts_match_def mem_store.select_convs(4,9) mem_store.surjective mem_store.update_convs(16))
  next
    case finishes
    from assms(5) show ?thesis
    proof (cases rule: Process_cases)
      case (run ob' dev)
      then obtain t where "process_body memTx (For_defs (pr_States p) (o_Metric ob') (d_DeviceType dev))
               (For_rules (pr_Rules p) (o_Metric ob') dev) ob' \<lparr>tx_s = s, tx_undo = []\<rparr> = (Done out, t)" "s' = tx_s t"
        using finishes by (auto simp: Do_def split: option.splits prod.splits outcome.splits)
      with process_body_following [OF this(1) assms(3,4)] finishes assms(6) show ?thesis by (simp add: following_def)
    qed (use assms(4) in simp)
  qed
  with Process_inv [OF assms(3,5)] show ?thesis by blast
qed


section \<open>The relay\<close>

text \<open>
  \<open>reliable_log sent pub\<close>: what the publisher has handed to the broker is a log. A call that succeeds
  appended the whole batch, a call that fails a prefix of it. \<open>PublishBatch\<close> of the messaging client
  waits for the acknowledgements in order and returns the first error.
\<close>

definition reliable_log :: "('w \<Rightarrow> relay_msg list) \<Rightarrow> (relay_msg list \<Rightarrow> 'w \<Rightarrow> goerr option \<times> 'w) \<Rightarrow> bool" where
  "reliable_log sent pub \<longleftrightarrow>
     (\<forall>ms w. case pub ms w of
        (None, w') \<Rightarrow> sent w' = sent w @ ms
      | (Some e, w') \<Rightarrow> \<exists>k. sent w' = sent w @ take k ms)"

definition backlog :: "mem_store \<Rightarrow> relay_msg list" where
  "backlog s = map relay_msg_of (pending (ms_outbox s))"

lemma DrainOutbox_step:
  assumes "reliable_log sent pub" "0 < sz"
    and "DrainOutbox sz (\<lambda>batch. pub (map relay_msg_of batch)) (s, w) = ((n, err), (s', w'))"
  shows "0 \<le> n" "backlog s' = drop (nat n) (backlog s)" "err = None \<Longrightarrow> sent w' = sent w @ take (nat n) (backlog s)"
    "err = None \<Longrightarrow> n < sz \<Longrightarrow> backlog s' = []"
    "\<exists>k. nat n \<le> k \<and> sent w' = sent w @ take k (backlog s)"
proof -
  let ?b = "take (nat sz) (pending (ms_outbox s))"
  have pub: "case pub (map relay_msg_of ?b) w of (None, w') \<Rightarrow> sent w' = sent w @ map relay_msg_of ?b
             | (Some e, w') \<Rightarrow> \<exists>k. sent w' = sent w @ take k (map relay_msg_of ?b)"
    using assms(1) by (simp add: reliable_log_def)
  note spec = assms(3) [unfolded DrainOutbox_spec [OF assms(2)] Let_def]
  show "0 \<le> n" "backlog s' = drop (nat n) (backlog s)" "err = None \<Longrightarrow> sent w' = sent w @ take (nat n) (backlog s)"
    "err = None \<Longrightarrow> n < sz \<Longrightarrow> backlog s' = []"
    using spec pub assms(2)
    by (auto simp: backlog_def pending_publish_first take_map drop_map min_def split: if_splits prod.splits option.splits)
  show "\<exists>k. nat n \<le> k \<and> sent w' = sent w @ take k (backlog s)"
    using spec pub assms(2)
    by (auto simp: backlog_def take_map min_def split: if_splits prod.splits option.splits
             intro: exI [of _ "nat n"] exI [of _ 0])
qed


lemma relay_loop_delivers:
  assumes "reliable_log sent pub" "0 < sz"
    and "relay_loop sz pub cnt (s, w) = ((n, err), (s', w'))"
  shows "cnt \<le> n \<and> backlog s' = drop (nat (n - cnt)) (backlog s)
       \<and> (err = None \<longrightarrow> backlog s' = [] \<and> sent w' = sent w @ backlog s)
       \<and> (\<exists>k. nat (n - cnt) \<le> k \<and> sent w' = sent w @ take k (backlog s))"
  using assms(3)
proof (induction "length (pending (ms_outbox s))" arbitrary: cnt s w rule: less_induct)
  case less
  obtain m e s1 w1 where d: "DrainOutbox sz (\<lambda>batch. pub (map relay_msg_of batch)) (s, w) = ((m, e), (s1, w1))"
    by (cases "DrainOutbox sz (\<lambda>batch. pub (map relay_msg_of batch)) (s, w)") auto
  note st = DrainOutbox_step [OF assms(1,2) d]
  show ?case
  proof (cases "e \<noteq> None \<or> m < sz")
    case True
    with less.prems d have "n = cnt + m" "err = e" "s' = s1" "w' = w1"
      by (auto simp: relay_loop.simps [of sz])
    with st True show ?thesis by (auto simp: take_all_iff)
  next
    case False
    then have e: "e = None" and more: "\<not> m < sz" by auto
    from less.prems d False assms(2) have loop: "relay_loop sz pub (cnt + m) (s1, w1) = ((n, err), (s', w'))"
      by (simp add: relay_loop.simps [of sz pub cnt])
    have "length (pending (ms_outbox s1)) < length (pending (ms_outbox s))"
      using drain_decreases [of sz _ s w m s1 w1] d e more assms(2) by simp
    note IH = less.hyps [OF this loop]
    have sent1: "sent w1 = sent w @ take (nat m) (backlog s)" using st(3) e by simp
    have split_log: "take (nat m) (backlog s) @ take j (backlog s1) = take (nat m + j) (backlog s)" for j
      by (simp add: st(2) take_add)
    from IH obtain k where k: "nat (n - (cnt + m)) \<le> k" "sent w' = sent w1 @ take k (backlog s1)" by blast
    then have "sent w' = sent w @ take (nat m + k) (backlog s)" "nat (n - cnt) \<le> nat m + k"
      using sent1 split_log [of k] st(1) IH by auto
    moreover have "nat (n - cnt) = nat m + nat (n - (cnt + m))" using IH st(1) by linarith
    moreover have "backlog s' = drop (nat (n - cnt)) (backlog s)" "cnt \<le> n"
      using IH st(1,2) calculation(3) by (simp_all add: add.commute)
    moreover have "err = None \<longrightarrow> backlog s' = [] \<and> sent w' = sent w @ backlog s"
      using IH st(2) sent1 by (metis append.assoc append_take_drop_id)
    ultimately show ?thesis by blast
  qed
qed


definition ex_log :: "relay_msg list \<Rightarrow> relay_msg list \<Rightarrow> goerr option \<times> relay_msg list" where
  "ex_log ms w = (None, w @ ms)"

definition ex_backlog :: mem_store where
  "ex_backlog = enqueueLocked [event_message SubjectEventDevice ''e1'' (ex_event ''e1'' 5),
                               event_message SubjectEventDevice ''e2'' (ex_event ''e2'' 9)] NewMemStore"


section \<open>Stage A\<close>

text \<open>
  Stage A (C14). What stage A publishes has passed validation and encodes; what it drops was dropped by the
  transformation; and without a transformation every error it returns is a validation error, so the message is
  dead-lettered and never retried.
\<close>

theorem stage_A_output_valid:
  assumes "NormalizeMessage json ord p vnow now vnow' data = res"
  shows "(\<forall>z. res = Inr z \<longrightarrow>
            (if nz_Dropped z then nz_Payload z = None \<and> pr_Ext p \<noteq> None
             else nz_Payload z = Some (nz_Observation z) \<and> Validate (pr_Limits p) vnow' (nz_Observation z) = None
                  \<and> json_observation (nz_Observation z)))
       \<and> (\<forall>e. res = Inl e \<longrightarrow> CategoryOf e = CategoryValidation
                  \<or> (\<exists>ext ob. pr_Ext p = Some ext \<and> ext_Transform ext ob = Inl e))"
  using assms
  by (auto simp: NormalizeMessage_def bind_res_def Let_def Encode_def
           dest: DecodeObservation_Inl Normalize_category
           split: sum.splits option.splits if_splits)
     (erule Validate_category)+


section \<open>The sweep stops at an unregistered device\<close>



section \<open>Witnesses\<close>

definition ex_limits :: limits where
  "ex_limits = DefaultLimits"

definition ex_processor :: processor where
  "ex_processor = \<lparr>pr_Limits = ex_limits, pr_Normalizer = fmempty, pr_Inventory = fmap_of_list [(''r1'', ex_device)],
     pr_States = ex_definitions, pr_Rules = None, pr_Ext = None, pr_StaleAfter = 60, pr_SweepInterval = 30, pr_StartedAt = 0\<rparr>"

lemma ex_first_good:
  "case enrich_observation ex_processor (ex_ob ''a'' 5 (VBool True)) of
     Inl e \<Rightarrow> False
   | Inr (ob', dev) \<Rightarrow> o_Metric ob' = ''device.reachable'' \<and> o_Source ob' = ''snmp'' \<and> d_DeviceType dev = ''router''
       \<and> (case next_record ex_reach ob' None of Some r \<Rightarrow> r_State r = StateUp | None \<Rightarrow> False)"
  by code_simp

lemma each_transitions_done:
  "\<exists>out' t'. each_tx (\<lambda>tr out. bind_tx (InsertTransition tr) (\<lambda>_. return_tx (out\<lparr>oc_Transitions := oc_Transitions out + 1\<rparr>)))
     trs out t = (Done out', t') \<and> oc_Dropped out' = oc_Dropped out \<and> oc_Events out' = oc_Events out"
  by (induction trs arbitrary: out t) (fastforce simp: bind_tx_def return_tx_def InsertTransition_def Let_def)+

lemma ex_run:
  "\<exists>out s'. Process ex_processor None (ex_ob ''a'' 5 (VBool True)) NewMemStore = (Done out, s')
     \<and> oc_Dropped out = [] \<and> oc_Events out = []"
proof -
  let ?ob = "ex_ob ''a'' 5 (VBool True)"
  from ex_first_good obtain ob' dev r where e: "enrich_observation ex_processor ?ob = Inr (ob', dev)"
    and o: "o_Metric ob' = ''device.reachable''" "o_Source ob' = ''snmp''" "d_DeviceType dev = ''router''"
    and r: "next_record ex_reach ob' None = Some r" "r_State r = StateUp"
    by (auto split: sum.splits prod.splits option.splits)
  from r(1) obtain es where a: "apply_def ex_reach None ob' = Some (r, es)"
    by (auto simp: next_record_def split: option.splits)
  with state_alerts.emits [OF a] r(2) have "es = []" by (simp add: alert_open_def)
  with a obtain up where up: "Evaluate ex_reach None ob' = Some up" "up_Ignored up = NotIgnored" "up_Events up = []"
    by (auto simp: apply_def_def split: option.splits if_splits)
  have defs: "For_defs (pr_States ex_processor) ''device.reachable'' ''router'' = [ex_reach]"
    using For_defs_eq [of ex_definitions "''device.reachable''" "''router''"] Parse_defs_ok [OF ex_Parse]
    by (simp add: ex_processor_def) (simp add: ex_reach_def ex_temp_def appliesTo_def)
  have en: "\<exists>v. Enrich (pr_Inventory ex_processor) ?ob = Inr v"
    using e by (cases "Enrich (pr_Inventory ex_processor) ?ob") (auto simp: enrich_observation_def)
  define t2 where "t2 = snd (TouchDevice (o_DeviceID ob') (o_ObservedAt ob')
     (snd (InsertObservation ob' \<lparr>tx_s = NewMemStore, tx_undo = []\<rparr>)))"
  define t3 where "t3 = snd (PutState (up_Record up) t2)"
  obtain out t4 where run: "each_tx (\<lambda>tr out. bind_tx (InsertTransition tr) (\<lambda>_.
       return_tx (out\<lparr>oc_Transitions := oc_Transitions out + 1\<rparr>))) (up_Transitions up) empty_outcome t3 = (Done out, t4)"
      and out: "oc_Dropped out = []" "oc_Events out = []"
    using each_transitions_done [of "up_Transitions up" empty_outcome t3] by (auto simp: empty_outcome_def)
  have "ms_states (tx_s t2) = fmempty"
    by (simp add: t2_def TouchDevice_def InsertObservation_def NewMemStore_def Let_def split: option.splits)
  then have upd: "process_definition memTx ob' ex_reach empty_outcome t2 = (Done out, t4)"
    using up run by (simp add: process_definition_def bind_tx_def [of "GetState _"] GetState_def apply_evaluated_def apply_update_def
       bind_tx_def [of "PutState _"] bind_tx_def [of "each_tx _ _ _"] PutState_def Let_def t3_def return_tx_def)
  have "process_body memTx [ex_reach] [] ob' \<lparr>tx_s = NewMemStore, tx_undo = []\<rparr> = (Done out, t4)"
    using upd o(2) by (simp add: process_body_def bind_tx_def t2_def InsertObservation_def TouchDevice_def NewMemStore_def Let_def return_tx_def)
  with en e o defs out show ?thesis
    by (auto simp: Process_def Do_def NewMemStore_def ex_processor_def [THEN arg_cong, of pr_Rules])
qed


theorem processed_at_most_once_witness:
  "\<exists>out s'. Process ex_processor None (ex_ob ''a'' 5 (VBool True)) NewMemStore = (Done out, s')
     \<and> Process ex_processor None (ex_ob ''a'' 5 (VBool True)) s' = (Done (empty_outcome\<lparr>oc_Duplicate := True\<rparr>), s')"
  using ex_run processed_at_most_once [of ex_processor None "ex_ob ''a'' 5 (VBool True)" NewMemStore] by blast

theorem process_all_or_nothing_witness:
  "\<exists>e s'. Process ex_processor (Some ECanceled) (ex_ob ''a'' 5 (VBool True)) NewMemStore = (Fails e, s')
     \<and> s' = NewMemStore\<lparr>ms_failNext := ms_failNext s'\<rparr>"
proof -
  let ?ob = "ex_ob ''a'' 5 (VBool True)"
  from ex_first_good obtain ob' dev where e: "enrich_observation ex_processor ?ob = Inr (ob', dev)"
    by (auto split: sum.splits prod.splits)
  moreover have "\<exists>v. Enrich (pr_Inventory ex_processor) ?ob = Inr v"
    using e by (cases "Enrich (pr_Inventory ex_processor) ?ob") (auto simp: enrich_observation_def)
  ultimately obtain err s' where "Process ex_processor (Some ECanceled) ?ob NewMemStore = (Fails err, s')"
    by (auto simp: Process_def Do_def NewMemStore_def)
  with process_all_or_nothing [OF this] show ?thesis by blast
qed

lemma alerts_match_new: "alerts_match NewMemStore"
  by (simp add: alerts_match_def NewMemStore_def AlertFiring_for_def alert_open_def)

theorem alerts_follow_states_witness:
  "\<exists>out s'. Process ex_processor None (ex_ob ''a'' 5 (VBool True)) NewMemStore = (Done out, s') \<and> store_inv s' \<and> alerts_match s'"
proof -
  obtain out s' where run: "Process ex_processor None (ex_ob ''a'' 5 (VBool True)) NewMemStore = (Done out, s')"
      and out: "oc_Events out = []"
    using ex_run by blast
  have "Parse_defs [ex_reach, ex_temp] = Inr (pr_States ex_processor)" "pr_Rules ex_processor = None"
    by (simp_all add: ex_Parse ex_processor_def)
  then show ?thesis
    using alerts_follow_states [of "[ex_reach, ex_temp]" ex_processor, OF _ _ store_inv_new alerts_match_new run] run out
    by (simp add: fresh_events_def)
qed

theorem stage_A_output_valid_witness:
  "\<exists>res. NormalizeMessage (\<lambda>t. Inl ''unexpected end of JSON input'') fm_items ex_processor 0 0 0 ''{'' = res
     \<and> (\<exists>e. res = Inl e \<and> CategoryOf e = CategoryValidation)"
  using stage_A_output_valid [of "\<lambda>t. Inl ''unexpected end of JSON input''" fm_items ex_processor 0 0 0 "''{''"]
  by (auto simp: NormalizeMessage_def DecodeObservation_def Decode_def ex_processor_def bind_res_def)

definition ex_gone :: mem_store where
  "ex_gone = NewMemStore\<lparr>ms_states := fmap_of_list [(''k'', ex_rec\<lparr>r_DeviceID := ''r9''\<rparr>)]\<rparr>"


end
