(* ===== verification/Catalog.thy ===== *)
theory Catalog
  imports Domain
begin

text \<open>
  The closed catalog of automation actions and the validation of proposals:
  \<open>internal/automation/actions.go\<close>. A pattern is the predicate its regular expression matches; an
  action without a target has no target pattern.
\<close>


section \<open>Patterns\<close>

definition class_run :: "(char \<Rightarrow> bool) \<Rightarrow> nat \<Rightarrow> string \<Rightarrow> bool" where
  "class_run P n s \<longleftrightarrow> length s \<le> n \<and> list_all P s"

definition lead_run :: "(char \<Rightarrow> bool) \<Rightarrow> (char \<Rightarrow> bool) \<Rightarrow> nat \<Rightarrow> string \<Rightarrow> bool" where
  "lead_run L P n s = (case s of [] \<Rightarrow> False | c # cs \<Rightarrow> L c \<and> class_run P n cs)"

definition reIface :: "string \<Rightarrow> bool" where
  "reIface = lead_run is_alpha (\<lambda>c. is_alnum c \<or> c \<in> set ''/._-'') 31"

definition reName :: "string \<Rightarrow> bool" where
  "reName = lead_run is_lower (\<lambda>c. is_lower c \<or> is_digit c \<or> c \<in> set ''_.-'') 47"

definition reText :: "string \<Rightarrow> bool" where
  "reText = class_run (\<lambda>c. is_alnum c \<or> c = CHR 0x27 \<or> c \<in> set '' .,:/@()_-'') 120"

definition reVLAN :: "string \<Rightarrow> bool" where
  "reVLAN s \<longleftrightarrow> s \<noteq> [] \<and> class_run is_digit 4 s"

definition reEnpoint :: "string \<Rightarrow> bool" where
  "reEnpoint = lead_run is_lower (\<lambda>c. is_lower c \<or> is_digit c \<or> c \<in> set ''_-'') 47"

definition reSeverity :: "string \<Rightarrow> bool" where
  "reSeverity s \<longleftrightarrow> s \<in> {''info'', ''warning'', ''critical''}"


section \<open>The catalog\<close>

record param_spec =
  ps_Name :: string
  ps_Required :: bool
  ps_Pattern :: "string \<Rightarrow> bool"

record action_spec =
  as_Name :: string
  as_Description :: string
  as_DeviceTypes :: "string list"
  as_Capability :: string
  as_NeedsTarget :: bool
  as_Target :: "string \<Rightarrow> bool"
  as_Params :: "param_spec list"
  as_Disruptive :: bool

definition p_spec :: "string \<Rightarrow> bool \<Rightarrow> (string \<Rightarrow> bool) \<Rightarrow> param_spec" where
  "p_spec name required re = \<lparr>ps_Name = name, ps_Required = required, ps_Pattern = re\<rparr>"

definition netTypes :: "string list" where
  "netTypes = [''switch'', ''router'']"

definition hostTypes :: "string list" where
  "hostTypes = [''server'', ''workstation'']"

definition no_target :: "string \<Rightarrow> bool" where
  "no_target s = False"

definition interface_action :: "string \<Rightarrow> string \<Rightarrow> param_spec list \<Rightarrow> action_spec" where
  "interface_action name description params =
     \<lparr>as_Name = name, as_Description = description, as_DeviceTypes = netTypes, as_Capability = ''interface-admin'', as_NeedsTarget = True,
      as_Target = reIface, as_Params = params, as_Disruptive = True\<rparr>"

definition plain_action :: "string \<Rightarrow> string \<Rightarrow> string list \<Rightarrow> string \<Rightarrow> bool \<Rightarrow> param_spec list \<Rightarrow> action_spec" where
  "plain_action name description types capability disruptive params =
     \<lparr>as_Name = name, as_Description = description, as_DeviceTypes = types, as_Capability = capability, as_NeedsTarget = False,
      as_Target = no_target, as_Params = params, as_Disruptive = disruptive\<rparr>"

definition catalog_specs :: "action_spec list" where
  "catalog_specs =
    [interface_action ''disable_interface'' ''administratively disable an interface''
       [],
     interface_action ''enable_interface'' ''administratively enable an interface''
       [],
     interface_action ''bounce_interface'' ''disable then enable an interface''
       [],
     interface_action ''set_interface_description'' ''update an interface description''
       [p_spec ''description'' True reText],
     \<lparr>as_Name = ''query_interface_state'', as_Description = (''read an interface'' @ [CHR 0x27] @ ''s operational and administrative state over SNMP''),
      as_DeviceTypes = netTypes @ [''access_point''], as_Capability = [],
      as_NeedsTarget = True, as_Target = reIface, as_Params = [], as_Disruptive = False\<rparr>,
     plain_action ''query_vlan_state'' ''read VLAN state''
       netTypes [] False [p_spec ''vlan'' False reVLAN],
     plain_action ''restart_ap_service'' ''restart a service on an access point''
       [''access_point''] ''service-restart'' True [p_spec ''service'' True reName],
     plain_action ''query_ap_clients'' ''read connected client state''
       [''access_point''] [] False [],
     plain_action ''update_ap_config'' ''change an access point setting''
       [''access_point''] ''config-update'' True
       [p_spec ''key'' True reName, p_spec ''value'' True reText],
     plain_action ''restart_service'' ''restart a service through the management agent''
       hostTypes ''service-restart'' True [p_spec ''service'' True reName],
     plain_action ''collect_diagnostics'' ''gather diagnostic information''
       hostTypes ''diagnostics'' False [],
     plain_action ''run_maintenance_task'' ''run a predefined maintenance task''
       hostTypes ''diagnostics'' True [p_spec ''task'' True reName],
     plain_action ''send_webhook'' ''post a notification to a configured endpoint''
       [] [] False [p_spec ''endpoint'' True reEnpoint, p_spec ''message'' False reText],
     plain_action ''create_event_record'' ''record an event in the platform''
       [] [] False [p_spec ''message'' True reText, p_spec ''severity'' False reSeverity],
     plain_action ''invoke_extension'' ''run an approved integration script''
       [] [] False [p_spec ''script'' True reName],
     plain_action ''noop'' ''do nothing; exercises the policy path''
       [] [] False []]"

definition Catalog :: "(string, action_spec) fmap" where
  "Catalog = fold (\<lambda>s m. fmupd (as_Name s) s m) catalog_specs fmempty"

definition CatalogNames :: "string list" where
  "CatalogNames = sorted_keys Catalog"


section \<open>Proposals\<close>

record proposal =
  pp_Action :: string
  pp_Target :: string
  pp_Params :: strmap
  pp_Reason :: string

text \<open>
  The parameters are checked in the order of their names; the code ranges over the map, so of several
  bad parameters it may report another one.
\<close>

fun check_params :: "action_spec \<Rightarrow> (string \<times> string) list \<Rightarrow> goerr option" where
  "check_params spec [] = None"
| "check_params spec ((k, v) # kvs) =
     (case find (\<lambda>ps. ps_Name ps = k) (rev (as_Params spec)) of
        None \<Rightarrow> Some (Errorf CategoryValidation (''action '' @ as_Name spec @ '' has no parameter '' @ quote_q k))
      | Some ps \<Rightarrow>
          if \<not> ps_Pattern ps v
          then Some (Errorf CategoryValidation (''parameter '' @ k @ '' of '' @ as_Name spec @ '' has an invalid value''))
          else check_params spec kvs)"

definition validateShape :: "action_spec \<Rightarrow> proposal \<Rightarrow> goerr option" where
  "validateShape spec pr =
     (if as_NeedsTarget spec \<and> (pp_Target pr = [] \<or> \<not> as_Target spec (pp_Target pr))
      then Some (Errorf CategoryValidation
             (''action '' @ as_Name spec @ '' needs a valid target, got '' @ quote_q (pp_Target pr)))
      else if \<not> as_NeedsTarget spec \<and> pp_Target pr \<noteq> []
      then Some (Errorf CategoryValidation (''action '' @ as_Name spec @ '' takes no target''))
      else case check_params spec (fm_items (pp_Params pr)) of
        Some e \<Rightarrow> Some e
      | None \<Rightarrow>
          (case find (\<lambda>ps. ps_Required ps \<and> fmlookup (pp_Params pr) (ps_Name ps) = None) (as_Params spec) of
             Some ps \<Rightarrow> Some (Errorf CategoryValidation
               (''action '' @ as_Name spec @ '' requires parameter '' @ quote_q (ps_Name ps)))
           | None \<Rightarrow>
               if 240 < length (pp_Reason pr) then Some (Errorf CategoryValidation ''reason is too long'') else None))"

definition Validate_proposal :: "proposal \<Rightarrow> device \<Rightarrow> goerr option" where
  "Validate_proposal pr dev =
     (case fmlookup Catalog (pp_Action pr) of
        None \<Rightarrow> Some (Errorf CategoryValidation (''unknown action '' @ quote_q (pp_Action pr)))
      | Some spec \<Rightarrow>
          (case validateShape spec pr of
             Some e \<Rightarrow> Some e
           | None \<Rightarrow>
               if as_DeviceTypes spec \<noteq> [] \<and> d_DeviceType dev \<notin> set (as_DeviceTypes spec)
               then Some (Errorf CategoryValidation
                 (''action '' @ pp_Action pr @ '' does not apply to '' @ d_DeviceType dev @ '' devices''))
               else None))"

definition expand :: "string \<Rightarrow> event \<Rightarrow> string" where
  "expand tmpl ev =
     (if CHR ''{'' \<notin> set tmpl then tmpl
      else replace_all
             ([(''{device}'', e_DeviceID ev), (''{event}'', e_Type ev)]
              @ map (\<lambda>(k, v). (''{'' @ k @ ''}'', v)) (fm_items (e_Labels ev))) tmpl)"


section \<open>What validation guarantees\<close>

lemma catalog_names_distinct: "distinct (map as_Name catalog_specs)"
  by (simp add: catalog_specs_def interface_action_def plain_action_def)

lemma fold_fmupd_lookup_Some:
  "fmlookup (fold (\<lambda>s m. fmupd (key s) s m) xs m0) k = Some v \<Longrightarrow>
     (v \<in> set xs \<and> key v = k) \<or> fmlookup m0 k = Some v"
  by (induction xs arbitrary: m0) (fastforce split: if_splits)+

lemma Catalog_entry: "fmlookup Catalog a = Some spec \<Longrightarrow> spec \<in> set catalog_specs \<and> as_Name spec = a"
  using fold_fmupd_lookup_Some [of as_Name catalog_specs fmempty a spec] by (simp add: Catalog_def)

lemma check_params_None:
  "check_params spec kvs = None \<longleftrightarrow>
     list_all (\<lambda>(k, v). \<exists>ps. find (\<lambda>ps. ps_Name ps = k) (rev (as_Params spec)) = Some ps \<and> ps_Pattern ps v) kvs"
  by (induction spec kvs rule: check_params.induct) (auto split: option.splits)

lemma check_params_category: "check_params spec kvs = Some e \<Longrightarrow> CategoryOf e = CategoryValidation"
  by (induction spec kvs rule: check_params.induct) (auto split: option.splits if_splits)

lemma validateShape_category: "validateShape spec pr = Some e \<Longrightarrow> CategoryOf e = CategoryValidation"
  by (auto simp: validateShape_def dest: check_params_category split: if_splits option.splits)

lemma Validate_proposal_category: "Validate_proposal pr dev = Some e \<Longrightarrow> CategoryOf e = CategoryValidation"
  by (auto simp: Validate_proposal_def dest: validateShape_category split: option.splits if_splits)

text \<open>The characters a parameter or a target of the catalog may contain.\<close>

definition safe_char :: "char \<Rightarrow> bool" where
  "safe_char c \<longleftrightarrow> is_alnum c \<or> c = CHR 0x27 \<or> c \<in> set '' .,:/@()_-''"

lemma class_run_safe: "class_run P n s \<Longrightarrow> (\<And>c. P c \<Longrightarrow> safe_char c) \<Longrightarrow> list_all safe_char s"
  by (auto simp: class_run_def list_all_iff)

lemma lead_run_safe:
  "lead_run L P n s \<Longrightarrow> (\<And>c. L c \<Longrightarrow> safe_char c) \<Longrightarrow> (\<And>c. P c \<Longrightarrow> safe_char c) \<Longrightarrow> list_all safe_char s"
  by (auto simp: lead_run_def class_run_def list_all_iff split: list.splits)

lemma pattern_safe:
  "reIface s \<Longrightarrow> list_all safe_char s" "reName s \<Longrightarrow> list_all safe_char s" "reText s \<Longrightarrow> list_all safe_char s"
  "reVLAN s \<Longrightarrow> list_all safe_char s" "reEnpoint s \<Longrightarrow> list_all safe_char s" "reSeverity s \<Longrightarrow> list_all safe_char s"
  unfolding reIface_def reName_def reText_def reVLAN_def reEnpoint_def
  by (auto elim!: lead_run_safe class_run_safe simp: safe_char_def is_alnum_def is_alpha_def)
     (auto simp: reSeverity_def safe_char_def char_class_defs)


lemma pattern_length:
  "reIface s \<Longrightarrow> length s \<le> 120" "reName s \<Longrightarrow> length s \<le> 120" "reText s \<Longrightarrow> length s \<le> 120"
  "reVLAN s \<Longrightarrow> length s \<le> 120" "reEnpoint s \<Longrightarrow> length s \<le> 120" "reSeverity s \<Longrightarrow> length s \<le> 120"
  by (auto simp: reIface_def reName_def reText_def reVLAN_def reEnpoint_def reSeverity_def lead_run_def class_run_def
           split: list.splits)

definition plain_text :: "string \<Rightarrow> bool" where
  "plain_text s \<longleftrightarrow> list_all safe_char s \<and> length s \<le> 120"

lemma pattern_plain [simp]:
  "reIface s \<Longrightarrow> plain_text s" "reName s \<Longrightarrow> plain_text s" "reText s \<Longrightarrow> plain_text s"
  "reVLAN s \<Longrightarrow> plain_text s" "reEnpoint s \<Longrightarrow> plain_text s" "reSeverity s \<Longrightarrow> plain_text s"
  by (simp_all add: plain_text_def pattern_safe pattern_length)

lemma catalog_patterns:
  assumes "spec \<in> set catalog_specs"
  shows "as_NeedsTarget spec \<Longrightarrow> as_Target spec v \<Longrightarrow> plain_text v"
    and "ps \<in> set (as_Params spec) \<Longrightarrow> ps_Pattern ps v \<Longrightarrow> plain_text v"
  using assms by (auto simp: catalog_specs_def interface_action_def plain_action_def p_spec_def)

text \<open>
  Nothing unsafe reaches an adapter (C22). A proposal that validates names an action of the catalog that applies
  to the device; it has a target exactly when the action takes one, every parameter the action requires
  and no parameter it does not know; and its target and parameter values are at most 120 letters,
  digits, spaces or marks of a fixed set, without quotes, shell metacharacters or line breaks.
\<close>

theorem validated_proposal_is_plain:
  assumes "Validate_proposal pr dev = None"
  shows "\<exists>spec. fmlookup Catalog (pp_Action pr) = Some spec
       \<and> (as_DeviceTypes spec = [] \<or> d_DeviceType dev \<in> set (as_DeviceTypes spec))
       \<and> (as_NeedsTarget spec \<longleftrightarrow> pp_Target pr \<noteq> []) \<and> plain_text (pp_Target pr)
       \<and> (\<forall>k v. fmlookup (pp_Params pr) k = Some v \<longrightarrow> k \<in> ps_Name ` set (as_Params spec) \<and> plain_text v)
       \<and> (\<forall>ps \<in> set (as_Params spec). ps_Required ps \<longrightarrow> fmlookup (pp_Params pr) (ps_Name ps) \<noteq> None)
       \<and> length (pp_Reason pr) \<le> 240"
proof -
  obtain spec where spec: "fmlookup Catalog (pp_Action pr) = Some spec" "validateShape spec pr = None"
      "as_DeviceTypes spec = [] \<or> d_DeviceType dev \<in> set (as_DeviceTypes spec)"
    using assms by (auto simp: Validate_proposal_def split: option.splits if_splits)
  note cat = Catalog_entry [OF spec(1), THEN conjunct1]
  have shape: "check_params spec (fm_items (pp_Params pr)) = None"
      "\<forall>ps \<in> set (as_Params spec). ps_Required ps \<longrightarrow> fmlookup (pp_Params pr) (ps_Name ps) \<noteq> None"
      "length (pp_Reason pr) \<le> 240"
      "if as_NeedsTarget spec then pp_Target pr \<noteq> [] \<and> as_Target spec (pp_Target pr) else pp_Target pr = []"
    using spec(2) by (auto simp: validateShape_def find_None_iff split: if_splits option.splits)
  have "k \<in> ps_Name ` set (as_Params spec) \<and> plain_text v" if "fmlookup (pp_Params pr) k = Some v" for k v
  proof -
    from that have "(k, v) \<in> set (fm_items (pp_Params pr))" by (simp add: set_fm_items)
    with shape(1) obtain ps where "find (\<lambda>ps. ps_Name ps = k) (rev (as_Params spec)) = Some ps" "ps_Pattern ps v"
      by (fastforce simp: check_params_None list_all_iff)
    then have "ps \<in> set (as_Params spec)" "ps_Name ps = k"
      by (auto simp: find_Some_iff) (metis nth_mem set_rev length_rev)
    with catalog_patterns(2) [OF cat] \<open>ps_Pattern ps v\<close> show ?thesis by blast
  qed
  moreover have "plain_text (pp_Target pr)"
    using shape(4) catalog_patterns(1) [OF cat, of "pp_Target pr"] by (auto simp: plain_text_def split: if_splits)
  ultimately show ?thesis using spec shape by (auto split: if_splits)
qed

definition ex_proposal :: proposal where
  "ex_proposal = \<lparr>pp_Action = ''restart_service'', pp_Target = [], pp_Params = fmap_of_list [(''service'', ''observer-agent'')],
     pp_Reason = []\<rparr>"

definition ex_host :: device where
  "ex_host = \<lparr>d_ID = ''h1'', d_Hostname = ''h1'', d_ManagementAddress = ''10.0.0.2'', d_DeviceType = ''server'',
     d_Vendor = [], d_Model = [], d_SerialNumber = [], d_Site = ''lab'', d_Tags = [''automation-enabled''],
     d_Capabilities = [''service-restart''], d_CredentialsRef = [], d_Enabled = True, d_LastSeen = 0,
     d_Collection = \<lparr>c_Protocol = ''snmp'', c_Profile = [], c_Interval = 0\<rparr>, d_Attributes = fmempty\<rparr>"

lemma ex_proposal_valid: "Validate_proposal ex_proposal ex_host = None"
  by code_simp

theorem validated_proposal_is_plain_witness:
  "\<exists>spec. fmlookup Catalog (pp_Action ex_proposal) = Some spec \<and> d_DeviceType ex_host = ''server'' \<and> pp_Target ex_proposal = []"
  using validated_proposal_is_plain [OF ex_proposal_valid] by (auto simp: ex_proposal_def ex_host_def)

end
