(* ===== verification/Policy.thy ===== *)
theory Policy
  imports Catalog
begin

text \<open>
  Automation policies and maintenance windows: \<open>internal/automation/policy.go\<close>. A policy file is
  modelled from the decoded document. The time zone database is the parameter \<open>zones\<close>:
  \<open>time.LoadLocation\<close> finds a zone or not, and a zone gives the offset from UTC, in nanoseconds, that
  is in force at an instant.
\<close>


section \<open>Policies\<close>

record trigger =
  tg_Event :: string
  tg_DeviceType :: "string list"
  tg_Site :: string
  tg_Tags :: "string list"
  tg_MinSeverity :: "severity option"

record conditions =
  cd_Duration :: duration
  cd_RetriesBelow :: int

record action_ref =
  ar_Type :: string
  ar_Target :: string
  ar_Params :: strmap

record proposal_ref =
  pf_Script :: string
  pf_AllowedActions :: "string list"

record safety =
  sf_DryRun :: "bool option"
  sf_Cooldown :: duration
  sf_RequireTag :: string
  sf_RequireApproval :: bool
  sf_ApprovalTimeout :: duration

record policy =
  po_ID :: string
  po_Description :: string
  po_Trigger :: trigger
  po_Conditions :: conditions
  po_Action :: "action_ref option"
  po_Proposal :: "proposal_ref option"
  po_Safety :: safety

text \<open>A decoded action mapping: \<open>type\<close> and \<open>target\<close> are reserved, every other key is a parameter.\<close>

definition action_of_raw :: "strmap \<Rightarrow> action_ref" where
  "action_of_raw raw =
     \<lparr>ar_Type = str_at raw ''type'', ar_Target = str_at raw ''target'',
      ar_Params = fmdrop ''type'' (fmdrop ''target'' raw)\<rparr>"

definition policy_dryRun :: "policy \<Rightarrow> bool" where
  "policy_dryRun p = (case sf_DryRun (po_Safety p) of None \<Rightarrow> True | Some b \<Rightarrow> b)"


section \<open>Maintenance windows\<close>

record recurring =
  rw_Days :: "string list"
  rw_Start :: string
  rw_End :: string
  rw_Timezone :: string

record window =
  wn_ID :: string
  wn_Devices :: "string list"
  wn_Site :: string
  wn_Tags :: "string list"
  wn_Recurring :: "recurring option"
  wn_From :: gotime
  wn_Until :: gotime

type_synonym zones = "string \<Rightarrow> (gotime \<Rightarrow> int) option"

definition dayNames :: "(string \<times> int) list" where
  "dayNames = [(''sun'', 0), (''mon'', 1), (''tue'', 2), (''wed'', 3), (''thu'', 4), (''fri'', 5), (''sat'', 6)]"

text \<open>
  \<open>time.Parse("15:04", s)\<close>: an hour of one or two digits below 24, a colon, and a minute of exactly
  two digits below 60.
\<close>

definition hour_minute :: "string \<Rightarrow> (int \<times> int) option" where
  "hour_minute s =
     (case s of
        [h, c, m1, m2] \<Rightarrow>
          if is_digit h \<and> c = CHR '':'' \<and> is_digit m1 \<and> is_digit m2
          then Some (digit_value h, 10 * digit_value m1 + digit_value m2) else None
      | [h1, h2, c, m1, m2] \<Rightarrow>
          if is_digit h1 \<and> is_digit h2 \<and> c = CHR '':'' \<and> is_digit m1 \<and> is_digit m2
          then Some (10 * digit_value h1 + digit_value h2, 10 * digit_value m1 + digit_value m2) else None
      | _ \<Rightarrow> None)"

definition parseHM :: "string \<Rightarrow> string + int" where
  "parseHM s = (case hour_minute s of
     Some (h, m) \<Rightarrow> if h < 24 \<and> m < 60 then Inr (h * 60 + m) else Inl (quote_q s @ '' is not HH:MM'')
   | None \<Rightarrow> Inl (quote_q s @ '' is not HH:MM''))"

text \<open>\<open>v, _ := parseHM(s)\<close>: the value, or zero when the text does not parse.\<close>

definition hm_value :: "string \<Rightarrow> int" where
  "hm_value s = (case parseHM s of Inr v \<Rightarrow> v | Inl _ \<Rightarrow> 0)"

definition covers :: "window \<Rightarrow> device \<Rightarrow> bool" where
  "covers w dev \<longleftrightarrow>
     (wn_Devices w = [] \<and> wn_Site w = [] \<and> wn_Tags w = [])
   \<or> d_ID dev \<in> set (wn_Devices w)
   \<or> (wn_Site w \<noteq> [] \<and> wn_Site w = d_Site dev)
   \<or> list_ex (HasTag dev) (wn_Tags w)"

text \<open>An unknown day name reads as Sunday, the zero value of the map.\<close>

definition dayOK :: "recurring \<Rightarrow> int \<Rightarrow> bool" where
  "dayOK r d \<longleftrightarrow> rw_Days r = []
     \<or> list_ex (\<lambda>n. (case map_of dayNames (to_lower n) of Some x \<Rightarrow> x | None \<Rightarrow> 0) = d) (rw_Days r)"

definition in_zone :: "zones \<Rightarrow> string \<Rightarrow> gotime \<Rightarrow> gotime" where
  "in_zone zones tz now =
     (if tz = [] then now else case zones tz of Some offset \<Rightarrow> now + offset now | None \<Rightarrow> now)"

definition recurring_active :: "zones \<Rightarrow> recurring \<Rightarrow> gotime \<Rightarrow> bool" where
  "recurring_active zones r now =
     (let local = in_zone zones (rw_Timezone r) now; start = hm_value (rw_Start r); stop = hm_value (rw_End r);
          cur = minute_of_day local
      in if start \<le> stop then dayOK r (weekday local) \<and> start \<le> cur \<and> cur < stop
         else if start \<le> cur then dayOK r (weekday local)
         else if cur < stop then dayOK r ((weekday local + 6) mod 7)
         else False)"

definition Active :: "zones \<Rightarrow> window \<Rightarrow> gotime \<Rightarrow> device \<Rightarrow> bool" where
  "Active zones w now dev =
     (if \<not> covers w dev then False
      else if wn_From w \<noteq> 0 \<or> wn_Until w \<noteq> 0
      then \<not> (wn_From w \<noteq> 0 \<and> now < wn_From w) \<and> \<not> (wn_Until w \<noteq> 0 \<and> \<not> now < wn_Until w)
      else case wn_Recurring w of None \<Rightarrow> False | Some r \<Rightarrow> recurring_active zones r now)"

section \<open>A policy file\<close>

record policies =
  pl_Allowlist :: "string list"
  pl_AllowedExtensions :: "string list"
  pl_Windows :: "window list"
  pl_policies :: "policy list"
  pl_byID :: "(string, policy) fmap"

record policy_file =
  fl_Allowlist :: "string list"
  fl_AllowedExtensions :: "string list"
  fl_MaintenanceWindows :: "window list"
  fl_Policies :: "policy list"

definition DefaultRequireTag :: string where "DefaultRequireTag = ''automation-enabled''"
definition DefaultCooldown :: duration where "DefaultCooldown = 15 * minute"
definition DefaultApprovalTimeout :: duration where "DefaultApprovalTimeout = hour"

definition validateWindow :: "zones \<Rightarrow> window \<Rightarrow> goerr option" where
  "validateWindow zones w =
     (let bad = (\<lambda>text. Some (Errorf CategoryValidation text)); wid = quote_q (wn_ID w) in
      if wn_ID w = [] then bad ''maintenance window needs an id''
      else if (wn_From w \<noteq> 0 \<or> wn_Until w \<noteq> 0) = (wn_Recurring w \<noteq> None)
      then bad (''maintenance window '' @ wid @ '' needs exactly one of recurring or from/until'')
      else case wn_Recurring w of
        None \<Rightarrow> None
      | Some r \<Rightarrow>
          (case parseHM (rw_Start r) of
             Inl e \<Rightarrow> bad (''window '' @ wid @ '' start: '' @ e)
           | Inr _ \<Rightarrow>
          (case parseHM (rw_End r) of
             Inl e \<Rightarrow> bad (''window '' @ wid @ '' end: '' @ e)
           | Inr _ \<Rightarrow>
          (case find (\<lambda>d. map_of dayNames (to_lower d) = None) (rw_Days r) of
             Some d \<Rightarrow> bad (''window '' @ wid @ '': unknown day '' @ quote_q d)
           | None \<Rightarrow>
               if rw_Timezone r \<noteq> [] \<and> zones (rw_Timezone r) = None
               then bad (''window '' @ wid @ '': unknown timezone '' @ quote_q (rw_Timezone r))
               else None))))"

definition has_template :: "strmap \<Rightarrow> bool" where
  "has_template m \<longleftrightarrow> list_ex (\<lambda>(k, v). CHR ''{'' \<in> set v) (fm_items m)"

definition action_problems :: "action_ref \<Rightarrow> string list" where
  "action_problems a =
     (case fmlookup Catalog (ar_Type a) of
        None \<Rightarrow> [''unknown action type '' @ quote_q (ar_Type a) @ '' (catalog: '' @ join_sep '', '' CatalogNames @ '')'']
      | Some spec \<Rightarrow>
          if CHR ''{'' \<notin> set (ar_Target a) \<and> \<not> has_template (ar_Params a)
          then (case validateShape spec \<lparr>pp_Action = ar_Type a, pp_Target = ar_Target a, pp_Params = ar_Params a, pp_Reason = []\<rparr> of
                  Some e \<Rightarrow> [err_text e] | None \<Rightarrow> [])
          else [])"

definition proposal_problems :: "proposal_ref \<Rightarrow> string list" where
  "proposal_problems pf =
     (if pf_Script pf = [] then [''proposal.script is required''] else [])
   @ (if pf_AllowedActions pf = []
      then [''proposal.allowed_actions is required: a policy must bound what a script may propose''] else [])
   @ map (\<lambda>a. ''proposal.allowed_actions: unknown action '' @ quote_q a)
         (filter (\<lambda>a. fmlookup Catalog a = None) (pf_AllowedActions pf))"

definition policy_problems :: "policy \<Rightarrow> string list" where
  "policy_problems p =
     (if po_ID p = [] then [''id is required''] else [])
   @ (if tg_Event (po_Trigger p) = [] then [''trigger.event is required''] else [])
   @ map (\<lambda>t. ''unknown device type '' @ quote_q t) (filter (\<lambda>t. \<not> DeviceType_Valid t) (tg_DeviceType (po_Trigger p)))
   @ (case tg_MinSeverity (po_Trigger p) of
        Some sev \<Rightarrow> if Severity_Valid sev then [] else [''trigger.min_severity is invalid''] | None \<Rightarrow> [])
   @ (if (po_Action p = None) = (po_Proposal p = None)
      then [''exactly one of action or proposal is required''] else [])
   @ (case po_Action p of None \<Rightarrow> [] | Some a \<Rightarrow> action_problems a)
   @ (case po_Proposal p of None \<Rightarrow> [] | Some pf \<Rightarrow> proposal_problems pf)
   @ (if cd_Duration (po_Conditions p) < 0 \<or> cd_RetriesBelow (po_Conditions p) < 0
         \<or> sf_Cooldown (po_Safety p) < 0 \<or> sf_ApprovalTimeout (po_Safety p) < 0
      then [''durations and counts must not be negative''] else [])"

definition validatePolicy :: "policy \<Rightarrow> goerr option" where
  "validatePolicy p =
     (let problems = policy_problems p
      in if problems \<noteq> []
         then Some (Errorf CategoryValidation (''policy '' @ quote_q (po_ID p) @ '': '' @ join_sep ''; '' problems))
         else None)"

definition policy_defaults :: "policy \<Rightarrow> policy" where
  "policy_defaults p =
     (let sf = po_Safety p;
          sf1 = (if sf_RequireTag sf = [] then sf\<lparr>sf_RequireTag := DefaultRequireTag\<rparr> else sf);
          sf2 = (if sf_Cooldown sf1 = 0 then sf1\<lparr>sf_Cooldown := DefaultCooldown\<rparr> else sf1);
          sf3 = (if sf_RequireApproval sf2 \<and> sf_ApprovalTimeout sf2 = 0
                 then sf2\<lparr>sf_ApprovalTimeout := DefaultApprovalTimeout\<rparr> else sf2)
      in p\<lparr>po_Safety := sf3\<rparr>)"

fun parse_policies_loop :: "policies \<Rightarrow> policy list \<Rightarrow> goerr + policies" where
  "parse_policies_loop ps [] = Inr ps"
| "parse_policies_loop ps (p # rest) =
     (let pol = policy_defaults p in
      case validatePolicy pol of
        Some e \<Rightarrow> Inl e
      | None \<Rightarrow>
          if fmlookup (pl_byID ps) (po_ID pol) \<noteq> None
          then Inl (Errorf CategoryValidation (''duplicate policy id '' @ quote_q (po_ID pol)))
          else parse_policies_loop
                 (ps\<lparr>pl_byID := fmupd (po_ID pol) pol (pl_byID ps), pl_policies := pl_policies ps @ [pol]\<rparr>) rest)"

definition Parse_policies :: "zones \<Rightarrow> policy_file \<Rightarrow> goerr + policies" where
  "Parse_policies zones f =
     (let ps = \<lparr>pl_Allowlist = fl_Allowlist f, pl_AllowedExtensions = fl_AllowedExtensions f,
                pl_Windows = fl_MaintenanceWindows f, pl_policies = [], pl_byID = fmempty\<rparr> in
      case find (\<lambda>w. validateWindow zones w \<noteq> None) (fl_MaintenanceWindows f) of
        Some w \<Rightarrow> Inl (the (validateWindow zones w))
      | None \<Rightarrow> parse_policies_loop ps (fl_Policies f))"

definition Get_policy :: "policies \<Rightarrow> string \<Rightarrow> policy option" where
  "Get_policy ps i = fmlookup (pl_byID ps) i"

definition Allowlisted :: "policies \<Rightarrow> string \<Rightarrow> bool" where
  "Allowlisted ps deviceID \<longleftrightarrow> deviceID \<in> set (pl_Allowlist ps)"

definition ExtensionApproved :: "policies \<Rightarrow> string \<Rightarrow> bool" where
  "ExtensionApproved ps script \<longleftrightarrow> script \<in> set (pl_AllowedExtensions ps)"

definition InMaintenance :: "zones \<Rightarrow> policies \<Rightarrow> gotime \<Rightarrow> device \<Rightarrow> string option" where
  "InMaintenance zones ps now dev = map_option wn_ID (find (\<lambda>w. Active zones w now dev) (pl_Windows ps))"

definition trigger_matches :: "trigger \<Rightarrow> event \<Rightarrow> device \<Rightarrow> bool" where
  "trigger_matches t ev dev \<longleftrightarrow>
     tg_Event t = e_Type ev
   \<and> (tg_DeviceType t = [] \<or> d_DeviceType dev \<in> set (tg_DeviceType t))
   \<and> (tg_Site t = [] \<or> tg_Site t = d_Site dev)
   \<and> (case tg_MinSeverity t of Some sev \<Rightarrow> \<not> Rank (e_Severity ev) < Rank sev | None \<Rightarrow> True)
   \<and> list_all (HasTag dev) (tg_Tags t)"

definition Match_policies :: "policies \<Rightarrow> event \<Rightarrow> device \<Rightarrow> policy list" where
  "Match_policies ps ev dev = filter (\<lambda>p. trigger_matches (po_Trigger p) ev dev) (pl_policies ps)"


section \<open>Recurring windows\<close>

lemma digit_value_bounds: "is_digit c \<Longrightarrow> 0 \<le> digit_value c \<and> digit_value c \<le> 9"
  by (auto simp: is_digit_def in_range_def digit_value_def)
     (metis of_nat_le_iff of_char_of of_nat_of_char of_nat_numeral)+

lemma hm_value_bounds: "0 \<le> hm_value s \<and> hm_value s < 1440"
proof (cases "hour_minute s")
  case (Some hm)
  obtain h m where hm: "hm = (h, m)" by fastforce
  have "0 \<le> h \<and> 0 \<le> m"
    using Some unfolding hm hour_minute_def
    by (auto dest!: digit_value_bounds split: list.splits if_splits)
  with Some hm show ?thesis by (auto simp: hm_value_def parseHM_def)
qed (simp add: hm_value_def parseHM_def)

text \<open>
  The occurrences of a recurring window: one starts on each of its days, at the start time, and lasts
  until the end time is next reached. Minutes and days are counted in the window's time zone.
\<close>

definition window_minutes :: "recurring \<Rightarrow> int" where
  "window_minutes r = (hm_value (rw_End r) - hm_value (rw_Start r)) mod 1440"

definition in_occurrence :: "recurring \<Rightarrow> int \<Rightarrow> int \<Rightarrow> bool" where
  "in_occurrence r day mins \<longleftrightarrow>
     dayOK r ((day + 1) mod 7)
   \<and> day * 1440 + hm_value (rw_Start r) \<le> mins \<and> mins < day * 1440 + hm_value (rw_Start r) + window_minutes r"

lemma minutes_split: "t div minute = day_number t * 1440 + minute_of_day t" "0 \<le> minute_of_day t" "minute_of_day t < 1440"
proof -
  have h: "24 * hour = minute * 1440" by (simp add: hour_def)
  have m: "0 < minute" by (simp add: minute_def second_def)
  have "minute_of_day t = (t div minute) mod 1440" "day_number t = (t div minute) div 1440"
    using m unfolding minute_of_day_def day_number_def h
    by (simp_all add: zdiv_zmult2_eq zmod_zmult2_eq)
  then show "t div minute = day_number t * 1440 + minute_of_day t" "0 \<le> minute_of_day t" "minute_of_day t < 1440"
    by simp_all
qed

lemma occurrence_days:
  fixes a b c d day :: int
  assumes "0 \<le> a" "a < 1440" "0 \<le> b" "b < 1440" "0 \<le> c" "c < 1440"
  shows "(day * 1440 + a \<le> d * 1440 + c \<and> d * 1440 + c < day * 1440 + a + (if a \<le> b then b - a else b - a + 1440))
     \<longleftrightarrow> (day = d \<and> a \<le> c \<and> (a \<le> b \<longrightarrow> c < b) \<or> day = d - 1 \<and> \<not> a \<le> b \<and> c < b)"
proof -
  consider "day = d" | "day = d - 1" | "day \<le> d - 2" | "d + 1 \<le> day" by linarith
  then show ?thesis using assms by cases auto
qed

text \<open>
  Maintenance windows (C23). A recurring window is active exactly during its occurrences: when an occurrence that
  started on one of its days, possibly the day before, has not ended yet. In particular a window that
  crosses midnight belongs to the day it started on.
\<close>

theorem recurring_window_spec:
  "recurring_active zones r now \<longleftrightarrow>
     (\<exists>day. in_occurrence r day (in_zone zones (rw_Timezone r) now div minute))"
proof -
  define t where "t = in_zone zones (rw_Timezone r) now"
  define d c where "d = day_number t" and "c = minute_of_day t"
  define a b where "a = hm_value (rw_Start r)" and "b = hm_value (rw_End r)"
  have t: "t div minute = d * 1440 + c" "0 \<le> c" "c < 1440"
    using minutes_split [of t] by (simp_all add: d_def c_def)
  have ab: "0 \<le> a" "a < 1440" "0 \<le> b" "b < 1440"
    using hm_value_bounds by (simp_all add: a_def b_def)
  have wd: "weekday t = (d + 1) mod 7" "(weekday t + 6) mod 7 = (d - 1 + 1) mod 7"
    by (simp_all add: weekday_def d_def mod_simps)
  have wrap: "(b - a) mod 1440 = b - a + 1440" if "b < a"
    using ab that mod_add_self2 [of "b - a" 1440] by (simp del: mod_add_self2)
  have len: "window_minutes r = (if a \<le> b then b - a else b - a + 1440)"
    using ab wrap by (simp add: window_minutes_def a_def [symmetric] b_def [symmetric])
  have occ: "in_occurrence r day (d * 1440 + c) \<longleftrightarrow> dayOK r ((day + 1) mod 7)
      \<and> (day = d \<and> a \<le> c \<and> (a \<le> b \<longrightarrow> c < b) \<or> day = d - 1 \<and> \<not> a \<le> b \<and> c < b)" for day
    using occurrence_days [OF ab t(2,3), of day d] by (simp add: in_occurrence_def len a_def [symmetric])
  show ?thesis
    unfolding recurring_active_def Let_def t_def [symmetric] a_def [symmetric] b_def [symmetric] c_def [symmetric] t(1) occ
    using wd by auto
qed


section \<open>Parsed policies\<close>

definition guarded :: "policy \<Rightarrow> bool" where
  "guarded p \<longleftrightarrow>
     sf_RequireTag (po_Safety p) \<noteq> [] \<and> 0 < sf_Cooldown (po_Safety p)
   \<and> (sf_RequireApproval (po_Safety p) \<longrightarrow> 0 < sf_ApprovalTimeout (po_Safety p))
   \<and> 0 \<le> cd_Duration (po_Conditions p) \<and> 0 \<le> cd_RetriesBelow (po_Conditions p)
   \<and> (po_Action p = None \<longleftrightarrow> po_Proposal p \<noteq> None)
   \<and> (\<forall>a. po_Action p = Some a \<longrightarrow> fmlookup Catalog (ar_Type a) \<noteq> None)
   \<and> (\<forall>pf. po_Proposal p = Some pf \<longrightarrow> pf_Script pf \<noteq> [] \<and> pf_AllowedActions pf \<noteq> []
        \<and> (\<forall>a \<in> set (pf_AllowedActions pf). fmlookup Catalog a \<noteq> None))"

lemma policy_defaults_frame [simp]:
  "po_ID (policy_defaults p) = po_ID p" "po_Action (policy_defaults p) = po_Action p"
  "po_Proposal (policy_defaults p) = po_Proposal p" "po_Trigger (policy_defaults p) = po_Trigger p"
  by (simp_all add: policy_defaults_def Let_def)

lemma policy_defaults_safety:
  "sf_RequireTag (po_Safety (policy_defaults p)) \<noteq> []"
  "sf_Cooldown (po_Safety (policy_defaults p)) \<noteq> 0"
  "sf_RequireApproval (po_Safety (policy_defaults p)) \<Longrightarrow> sf_ApprovalTimeout (po_Safety (policy_defaults p)) \<noteq> 0"
  by (simp_all add: policy_defaults_def Let_def DefaultRequireTag_def DefaultCooldown_def DefaultApprovalTimeout_def
        minute_def hour_def second_def split: if_splits)

lemma validated_guarded:
  assumes "validatePolicy (policy_defaults p) = None"
  shows "guarded (policy_defaults p)"
proof -
  have none: "policy_problems (policy_defaults p) = []"
    using assms by (simp add: validatePolicy_def Let_def split: if_splits)
  have "po_Action p = Some a \<Longrightarrow> fmlookup Catalog (ar_Type a) \<noteq> None" for a
    using none by (auto simp: policy_problems_def action_problems_def split: option.splits)
  moreover have "po_Proposal p = Some pf \<Longrightarrow> pf_Script pf \<noteq> [] \<and> pf_AllowedActions pf \<noteq> []
        \<and> (\<forall>a \<in> set (pf_AllowedActions pf). fmlookup Catalog a \<noteq> None)" for pf
    using none by (auto simp: policy_problems_def proposal_problems_def filter_empty_conv split: if_splits)
  ultimately show ?thesis
    using none policy_defaults_safety [of p]
    by (auto simp: guarded_def policy_problems_def split: if_splits)
qed

lemma find_snoc: "find P (xs @ [y]) = (case find P xs of Some x \<Rightarrow> Some x | None \<Rightarrow> if P y then Some y else None)"
  by (induction xs) auto

lemma parse_policies_loop_ok:
  assumes "parse_policies_loop ps doc = Inr ps'"
    and "distinct (map po_ID (pl_policies ps))" "\<forall>i. fmlookup (pl_byID ps) i = find (\<lambda>p. po_ID p = i) (pl_policies ps)"
  shows "pl_policies ps' = pl_policies ps @ map policy_defaults doc \<and> list_all (\<lambda>p. guarded (policy_defaults p)) doc
       \<and> distinct (map po_ID (pl_policies ps')) \<and> (\<forall>i. fmlookup (pl_byID ps') i = find (\<lambda>p. po_ID p = i) (pl_policies ps'))
       \<and> pl_Allowlist ps' = pl_Allowlist ps \<and> pl_Windows ps' = pl_Windows ps
       \<and> pl_AllowedExtensions ps' = pl_AllowedExtensions ps"
  using assms
proof (induction ps doc rule: parse_policies_loop.induct)
  case (2 ps p rest)
  let ?ps = "ps\<lparr>pl_byID := fmupd (po_ID p) (policy_defaults p) (pl_byID ps),
                pl_policies := pl_policies ps @ [policy_defaults p]\<rparr>"
  from 2(2) have ok: "validatePolicy (policy_defaults p) = None" "fmlookup (pl_byID ps) (po_ID p) = None"
      "parse_policies_loop ?ps rest = Inr ps'"
    by (auto simp: Let_def split: option.splits if_splits)
  have new: "\<forall>q \<in> set (pl_policies ps). po_ID q \<noteq> po_ID p"
    using ok(2) 2(4) by (simp add: find_None_iff)
  have look: "\<forall>i. fmlookup (pl_byID ?ps) i = find (\<lambda>p. po_ID p = i) (pl_policies ?ps)"
    using 2(4) new by (auto simp: find_snoc find_None_iff find_Some_iff split: option.splits)
  have dist: "distinct (map po_ID (pl_policies ?ps))" using 2(3) new by auto
  have "parse_policies_loop ?ps rest = Inr ps' \<longrightarrow> pl_policies ps' = pl_policies ps @ map policy_defaults (p # rest)
       \<and> list_all (\<lambda>p. guarded (policy_defaults p)) rest \<and> distinct (map po_ID (pl_policies ps'))
       \<and> (\<forall>i. fmlookup (pl_byID ps') i = find (\<lambda>p. po_ID p = i) (pl_policies ps'))
       \<and> pl_Allowlist ps' = pl_Allowlist ps \<and> pl_Windows ps' = pl_Windows ps
       \<and> pl_AllowedExtensions ps' = pl_AllowedExtensions ps"
    using 2(1) [of "policy_defaults p", OF refl] ok dist look by simp (elim conjE, simp)
  with ok(3) validated_guarded [OF ok(1)] show ?case unfolding list.pred_inject by blast
qed simp


text \<open>
  Every policy has its guard rails (C24). A policy file that parses keeps its policies in order, with the defaults filled
  in, under distinct ids by which they are found; each has a required tag, a positive cooldown, a
  positive approval timeout when it needs approval, and exactly one source of actions, bounded by the
  catalog; and every window is one that \<open>validateWindow\<close> accepts.
\<close>

theorem parsed_policies_guarded:
  assumes "Parse_policies zones f = Inr ps"
  shows "pl_policies ps = map policy_defaults (fl_Policies f) \<and> list_all guarded (pl_policies ps)
       \<and> distinct (map po_ID (pl_policies ps))
       \<and> (\<forall>i. Get_policy ps i = find (\<lambda>p. po_ID p = i) (pl_policies ps))
       \<and> pl_Windows ps = fl_MaintenanceWindows f \<and> list_all (\<lambda>w. validateWindow zones w = None) (pl_Windows ps)
       \<and> pl_Allowlist ps = fl_Allowlist f \<and> pl_AllowedExtensions ps = fl_AllowedExtensions f"
proof -
  let ?ps = "\<lparr>pl_Allowlist = fl_Allowlist f, pl_AllowedExtensions = fl_AllowedExtensions f,
                pl_Windows = fl_MaintenanceWindows f, pl_policies = [], pl_byID = fmempty\<rparr>"
  from assms have "parse_policies_loop ?ps (fl_Policies f) = Inr ps"
      "find (\<lambda>w. validateWindow zones w \<noteq> None) (fl_MaintenanceWindows f) = None"
    by (auto simp: Parse_policies_def split: option.splits)
  with parse_policies_loop_ok [OF this(1)] show ?thesis
    by (auto simp: Get_policy_def find_None_iff list_all_iff)
qed

definition ex_policy :: policy where
  "ex_policy = \<lparr>po_ID = ''restart-agent'', po_Description = [],
     po_Trigger = \<lparr>tg_Event = ''device_down'', tg_DeviceType = [''server''], tg_Site = [], tg_Tags = [], tg_MinSeverity = None\<rparr>,
     po_Conditions = \<lparr>cd_Duration = 0, cd_RetriesBelow = 2\<rparr>,
     po_Action = Some \<lparr>ar_Type = ''restart_service'', ar_Target = [], ar_Params = fmap_of_list [(''service'', ''observer-agent'')]\<rparr>,
     po_Proposal = None,
     po_Safety = \<lparr>sf_DryRun = None, sf_Cooldown = 0, sf_RequireTag = [], sf_RequireApproval = False, sf_ApprovalTimeout = 0\<rparr>\<rparr>"

definition ex_file :: policy_file where
  "ex_file = \<lparr>fl_Allowlist = [''h1''], fl_AllowedExtensions = [], fl_MaintenanceWindows = [], fl_Policies = [ex_policy]\<rparr>"

lemma ex_policy_valid: "validatePolicy (policy_defaults ex_policy) = None"
  by code_simp

lemma ex_file_parses: "\<exists>ps. Parse_policies (\<lambda>tz. None) ex_file = Inr ps"
  by (simp add: Parse_policies_def ex_file_def Let_def ex_policy_valid)

theorem parsed_policies_guarded_witness:
  "\<exists>ps. Parse_policies (\<lambda>tz. None) ex_file = Inr ps \<and> pl_policies ps = [policy_defaults ex_policy] \<and> Allowlisted ps ''h1''
     \<and> Get_policy ps ''restart-agent'' = Some (policy_defaults ex_policy)"
proof -
  obtain ps where ps: "Parse_policies (\<lambda>tz. None) ex_file = Inr ps" using ex_file_parses by blast
  with parsed_policies_guarded [OF ps] show ?thesis
    by (simp add: ex_file_def Allowlisted_def) (simp add: ex_policy_def)
qed

end
