(* ===== verification/Secrets.thy ===== *)
theory Secrets
  imports Domain
begin

text \<open>
  Credential references: \<open>internal/secrets/secrets.go\<close>. The environment, the secret files and the JSON
  decoder are parameters of \<open>Resolve\<close>.
\<close>

type_synonym secret = strmap

definition Get_secret :: "secret \<Rightarrow> string \<Rightarrow> string" where
  "Get_secret s key = str_at s key"

text \<open>\<open>^[A-Za-z0-9][A-Za-z0-9._/-]*$\<close>\<close>

definition refPattern :: "string \<Rightarrow> bool" where
  "refPattern ref = (case ref of [] \<Rightarrow> False
     | c # cs \<Rightarrow> is_alnum c \<and> list_all (\<lambda>c. is_alnum c \<or> c \<in> set ''._/-'') cs)"

fun contains_dots :: "string \<Rightarrow> bool" where
  "contains_dots (a # b # cs) \<longleftrightarrow> (a = CHR ''.'' \<and> b = CHR ''.'') \<or> contains_dots (b # cs)"
| "contains_dots _ \<longleftrightarrow> False"

definition ValidRef :: "string \<Rightarrow> bool" where
  "ValidRef ref \<longleftrightarrow> refPattern ref \<and> \<not> contains_dots ref"

definition to_upper_char :: "char \<Rightarrow> char" where
  "to_upper_char c = (if is_lower c then char_of ((of_char c :: int) - 32) else c)"

definition env_char :: "char \<Rightarrow> char" where
  "env_char c = (let u = to_upper_char c in if is_upper u \<or> is_digit u then u else CHR ''_'')"

definition envName :: "string \<Rightarrow> string" where
  "envName ref = ''INFRA_OBSERVER_SECRET_'' @ map env_char ref"

definition parse_secret :: "(string \<Rightarrow> string + secret) \<Rightarrow> string \<Rightarrow> string \<Rightarrow> goerr + secret" where
  "parse_secret json raw origin =
     (let raw' = trim_space raw
      in if has_prefix raw' ''{''
         then (case json raw' of
                 Inl e \<Rightarrow> Inl (Errorf CategoryValidation (origin @ '': not a JSON object of strings: '' @ e))
               | Inr s \<Rightarrow> Inr s)
         else if raw' = [] then Inl (Errorf CategoryValidation (origin @ '' is empty''))
         else Inr (fmap_of_list [(''value'', raw')]))"

text \<open>The outcome of reading a file, as \<open>os.ReadFile\<close> and \<open>os.IsNotExist\<close> report it.\<close>

datatype file_read = FileText string | FileAbsent | FileError goerr

record env_file =
  ef_Dir :: string
  ef_Lookup :: "string \<Rightarrow> string option"

definition Resolve ::
    "(string \<Rightarrow> string + secret) \<Rightarrow> (string \<Rightarrow> string \<Rightarrow> file_read) \<Rightarrow> env_file \<Rightarrow> string \<Rightarrow> goerr + secret" where
  "Resolve json read r ref =
     (if \<not> ValidRef ref then Inl (Errorf CategoryValidation (''invalid credential reference '' @ quote_q ref))
      else case ef_Lookup r (envName ref) of
        Some raw \<Rightarrow> parse_secret json raw (''environment '' @ envName ref)
      | None \<Rightarrow>
          (let absent = Inl (Errorf CategoryAuthentication (''credential reference '' @ quote_q ref @ '' not found''))
           in if ef_Dir r \<noteq> []
              then (case read (ef_Dir r) (ref @ ''.json'') of
                      FileText b \<Rightarrow> parse_secret json b (''file for '' @ ref)
                    | FileError e \<Rightarrow> Inl (EDomain CategoryDependency ''read secret file'' e)
                    | FileAbsent \<Rightarrow> absent)
              else absent))"

definition Resolve_static :: "(string, secret) fmap \<Rightarrow> string \<Rightarrow> goerr + secret" where
  "Resolve_static s ref = (case fmlookup s ref of
     Some v \<Rightarrow> Inr v
   | None \<Rightarrow> Inl (Errorf CategoryAuthentication (''credential reference '' @ quote_q ref @ '' not found'')))"


section \<open>References stay inside the secret directory\<close>

text \<open>The elements of a path, between slashes.\<close>

fun path_elements :: "string \<Rightarrow> string list" where
  "path_elements [] = [[]]"
| "path_elements (c # cs) =
     (if c = CHR ''/'' then [] # path_elements cs
      else case path_elements cs of e # es \<Rightarrow> (c # e) # es | [] \<Rightarrow> [[c]])"

definition inside :: "string \<Rightarrow> bool" where
  "inside path \<longleftrightarrow> \<not> has_prefix path ''/'' \<and> ''..'' \<notin> set (path_elements path)"

lemma path_elements_not_Nil [simp]: "path_elements s \<noteq> []"
  by (induction s) (auto split: list.splits)

lemma contains_dots_Cons: "contains_dots cs \<Longrightarrow> contains_dots (c # cs)"
  by (cases cs) auto

lemma leading_dot: "path_elements cs = (CHR ''.'' # e) # es \<Longrightarrow> \<exists>r. cs = CHR ''.'' # r"
  by (cases cs) (auto split: if_splits list.splits)

lemma dotdot_element: "''..'' \<in> set (path_elements s) \<Longrightarrow> contains_dots s"
proof (induction s)
  case (Cons c cs)
  show ?case
  proof (cases "''..'' \<in> set (path_elements cs)")
    case False
    with Cons.prems obtain es where "c = CHR ''.''" "path_elements cs = [CHR ''.''] # es"
      by (cases "path_elements cs") (auto split: if_splits)
    with leading_dot show ?thesis by fastforce
  qed (simp add: Cons.IH contains_dots_Cons)
qed simp

lemma path_elements_no_slash: "CHR ''/'' \<notin> set s \<Longrightarrow> path_elements s = [s]"
  by (induction s) auto

lemma path_elements_append:
  "CHR ''/'' \<notin> set ys \<Longrightarrow> path_elements (xs @ ys) = butlast (path_elements xs) @ [last (path_elements xs) @ ys]"
  by (induction xs) (auto simp: path_elements_no_slash split: list.splits)

lemma dotdot_json: "''..'' \<in> set (path_elements (ref @ ''.json'')) \<Longrightarrow> ''..'' \<in> set (path_elements ref)"
  by (auto simp: path_elements_append dest: in_set_butlastD)

text \<open>
  A reference never reads outside the secret directory (C25). Whatever the reference, resolving it depends on
  no file but those whose path, relative to the directory, is not absolute and has no parent element.
\<close>

theorem reference_stays_inside:
  assumes "\<forall>path. inside path \<longrightarrow> read (ef_Dir r) path = read' (ef_Dir r) path"
  shows "Resolve json read r ref = Resolve json read' r ref"
proof (cases "ValidRef ref")
  case True
  then have "\<not> contains_dots ref" by (simp add: ValidRef_def)
  then have "''..'' \<notin> set (path_elements (ref @ ''.json''))"
    using dotdot_json dotdot_element by blast
  moreover have "\<not> has_prefix (ref @ ''.json'') ''/''"
    using True by (cases ref) (auto simp: ValidRef_def refPattern_def has_prefix_def char_class_defs)
  ultimately have "inside (ref @ ''.json'')" by (simp add: inside_def)
  with assms have "read (ef_Dir r) (ref @ ''.json'') = read' (ef_Dir r) (ref @ ''.json'')" by blast
  then show ?thesis by (auto simp: Resolve_def Let_def split: option.splits)
qed (simp add: Resolve_def)

definition ex_read :: "string \<Rightarrow> string \<Rightarrow> file_read" where
  "ex_read dir path = (if path = ''snmp/lab.json'' then FileText ''public'' else FileAbsent)"

definition ex_read_more :: "string \<Rightarrow> string \<Rightarrow> file_read" where
  "ex_read_more dir path = (if path = ''../shadow'' then FileText ''root'' else ex_read dir path)"

theorem reference_stays_inside_witness:
  "Resolve (\<lambda>t. Inl ''json'') ex_read \<lparr>ef_Dir = ''/secrets'', ef_Lookup = \<lambda>k. None\<rparr> ''snmp/lab''
   = Resolve (\<lambda>t. Inl ''json'') ex_read_more \<lparr>ef_Dir = ''/secrets'', ef_Lookup = \<lambda>k. None\<rparr> ''snmp/lab''"
proof (rule reference_stays_inside)
  have "\<not> inside ''../shadow''" by (simp add: inside_def)
  then show "\<forall>path. inside path \<longrightarrow> ex_read (ef_Dir \<lparr>ef_Dir = ''/secrets'', ef_Lookup = \<lambda>k. None\<rparr>) path
     = ex_read_more (ef_Dir \<lparr>ef_Dir = ''/secrets'', ef_Lookup = \<lambda>k. None\<rparr>) path"
    by (auto simp: ex_read_more_def)
qed

text \<open>Two references that differ only in punctuation or case share an environment variable.\<close>

lemma references_collide: "ValidRef ''snmp/lab'' \<and> ValidRef ''snmp-lab'' \<and> envName ''snmp/lab'' = envName ''snmp-lab''"
  by code_simp

end
