(* ===== verification/Snmp.thy ===== *)
theory Snmp
  imports Secrets Schema Persistence
begin

text \<open>
  The SNMP collector, \<open>internal/collector/snmp\<close>: profiles with includes (profile.go), credentials and
  the session interface (session.go) and the poller (poller.go). The gosnmp library is behind the
  session interface, a parameter: its operations act on the world \<open>'w\<close>.
\<close>


section \<open>Profiles\<close>

record table_spec =
  tb_OID :: string
  tb_IndexLabel :: string
  tb_Labels :: strmap

record snmp_metric =
  mt_Name :: string
  mt_OID :: string
  mt_Table :: "table_spec option"
  mt_Type :: string

record profile =
  pf_ID :: string
  pf_Desc :: string
  pf_Include :: "string list"
  pf_SysObjectIDPrefix :: string
  pf_Metrics :: "snmp_metric list"

definition value_types :: "string list" where
  "value_types = [''integer'', ''gauge'', ''counter'', ''duration'', ''string'']"

definition normOID :: "string \<Rightarrow> string" where
  "normOID oid = trim_prefix oid ''.''"

text \<open>\<open>^\.?[0-9]+(\.[0-9]+)*$\<close>\<close>

definition oidPattern :: "string \<Rightarrow> bool" where
  "oidPattern s \<longleftrightarrow> list_all (\<lambda>part. part \<noteq> [] \<and> list_all is_digit part) (split_dots (normOID s))"

definition metric_problems :: "int \<Rightarrow> bool \<Rightarrow> snmp_metric \<Rightarrow> string list" where
  "metric_problems i dup m =
     (let at_i = ''metrics['' @ show_int i @ '']''; loc = at_i @ '' ('' @ mt_Name m @ '')''
      in (if mt_Name m = [] then [at_i @ '': name is required''] else [])
       @ (if mt_Name m \<noteq> [] \<and> dup then [loc @ '': duplicate metric name''] else [])
       @ (if mt_Type m \<in> set value_types then [] else [loc @ '': unknown type '' @ quote_q (mt_Type m)])
       @ (if (mt_OID m = []) = (mt_Table m = None) then [loc @ '': exactly one of oid or table is required'']
          else if mt_OID m \<noteq> [] \<and> \<not> oidPattern (mt_OID m) then [loc @ '': malformed oid'']
          else case mt_Table m of
            None \<Rightarrow> []
          | Some t \<Rightarrow>
              (if \<not> oidPattern (tb_OID t) then [loc @ '': malformed table.oid''] else [])
            @ map (\<lambda>(l, oid). loc @ '': malformed label oid for '' @ quote_q l)
                  (filter (\<lambda>(l, oid). \<not> oidPattern oid) (fm_items (tb_Labels t)))))"

fun metrics_problems :: "int \<Rightarrow> string set \<Rightarrow> snmp_metric list \<Rightarrow> string list" where
  "metrics_problems i seen [] = []"
| "metrics_problems i seen (m # ms) =
     metric_problems i (mt_Name m \<in> seen) m @ metrics_problems (i + 1) (insert (mt_Name m) seen) ms"

definition validate_profile :: "profile \<Rightarrow> goerr option" where
  "validate_profile p =
     (let problems = (if pf_ID p = [] then [''id is required''] else []) @ metrics_problems 0 {} (pf_Metrics p)
      in if problems \<noteq> []
         then Some (Errorf CategoryValidation (''profile '' @ quote_q (pf_ID p) @ '': '' @ join_sep ''; '' problems))
         else None)"

text \<open>The metrics merged so far by name, with the order in which the names first appeared.\<close>

type_synonym merged = "(string, snmp_metric) fmap \<times> string list"

definition merge_metric :: "snmp_metric \<Rightarrow> merged \<Rightarrow> merged" where
  "merge_metric m acc = (case acc of (ms, order) \<Rightarrow>
     (fmupd (mt_Name m) m ms, if fmlookup ms (mt_Name m) = None then order @ [mt_Name m] else order))"

definition listed :: "merged \<Rightarrow> snmp_metric list" where
  "listed acc = List.map_filter (fmlookup (fst acc)) (snd acc)"

text \<open>The text of \<open>%v\<close> for a slice of strings.\<close>

definition show_slice :: "string list \<Rightarrow> string" where
  "show_slice xs = ''['' @ join_sep '' '' xs @ '']''"

function flatten :: "string \<Rightarrow> (string, profile) fmap \<Rightarrow> string list \<Rightarrow> goerr + profile"
     and merge_includes :: "string list \<Rightarrow> (string, profile) fmap \<Rightarrow> string list \<Rightarrow> merged \<Rightarrow> goerr + merged" where
  "flatten i raw stack =
     (if i \<in> set stack
      then Inl (Errorf CategoryValidation (''profile include cycle: '' @ join_sep '' -> '' stack @ '' -> '' @ i))
      else case fmlookup raw i of
        None \<Rightarrow> Inl (Errorf CategoryValidation
          (''profile '' @ quote_q i @ '' not found (included from '' @ show_slice stack @ '')''))
      | Some p \<Rightarrow>
          bind_res (merge_includes (pf_Include p) raw (stack @ [i]) (fmempty, [])) (\<lambda>acc.
          Inr (p\<lparr>pf_Metrics := listed (fold merge_metric (pf_Metrics p) acc)\<rparr>)))"
| "merge_includes [] raw stack acc = Inr acc"
| "merge_includes (inc # incs) raw stack acc =
     bind_res (flatten inc raw stack) (\<lambda>sub.
     merge_includes incs raw stack (fold merge_metric (pf_Metrics sub) acc))"
  by pat_completeness auto
termination
proof (relation "inv_image (less_than <*lex*> less_than) (\<lambda>x. case x of
     Inl (i, raw, stack) \<Rightarrow> (card (fset (fmdom raw) - set stack), 0)
   | Inr (incs, raw, stack, acc) \<Rightarrow> (card (fset (fmdom raw) - set stack), length incs))", goal_cases)
  case (2 i raw stack p)
  then have "i \<in> fset (fmdom raw) - set stack" by (simp add: fmdomI)
  moreover have "fset (fmdom raw) - set (stack @ [i]) = (fset (fmdom raw) - set stack) - {i}" by auto
  ultimately have "card (fset (fmdom raw) - set (stack @ [i])) < card (fset (fmdom raw) - set stack)"
    using card_Diff1_less [of "fset (fmdom raw) - set stack" i] by simp
  then show ?case by simp
qed auto

declare flatten.simps [simp del]

fun parse_profiles_loop :: "(string, profile) fmap \<Rightarrow> profile list \<Rightarrow> goerr + (string, profile) fmap" where
  "parse_profiles_loop raw [] = Inr raw"
| "parse_profiles_loop raw (p # docs) =
     (case validate_profile p of
        Some e \<Rightarrow> Inl e
      | None \<Rightarrow>
          if fmlookup raw (pf_ID p) \<noteq> None
          then Inl (Errorf CategoryValidation (''duplicate profile id '' @ quote_q (pf_ID p)))
          else parse_profiles_loop (fmupd (pf_ID p) p raw) docs)"

text \<open>Every profile is flattened, in the order of the ids; the code ranges over the map.\<close>

fun flatten_all :: "(string, profile) fmap \<Rightarrow> string list \<Rightarrow> (string, profile) fmap \<Rightarrow> goerr + (string, profile) fmap" where
  "flatten_all raw [] out = Inr out"
| "flatten_all raw (i # ids) out = bind_res (flatten i raw []) (\<lambda>flat. flatten_all raw ids (fmupd i flat out))"

definition ParseProfiles :: "profile list \<Rightarrow> goerr + (string, profile) fmap" where
  "ParseProfiles docs =
     bind_res (parse_profiles_loop fmempty docs) (\<lambda>raw. flatten_all raw (sorted_keys raw) fmempty)"

definition Get_profile :: "(string, profile) fmap \<Rightarrow> string \<Rightarrow> profile option" where
  "Get_profile ps i = fmlookup ps i"

definition IDs :: "(string, profile) fmap \<Rightarrow> string list" where
  "IDs ps = sorted_keys ps"

text \<open>\<open>ord\<close> is the order in which the map is ranged over; it decides between prefixes of one length.\<close>

definition Match_profile :: "((string, profile) fmap \<Rightarrow> profile list) \<Rightarrow> (string, profile) fmap \<Rightarrow> string \<Rightarrow> profile option" where
  "Match_profile ord ps sysObjectID =
     (let oid = normOID sysObjectID in
      fst (fold (\<lambda>p (best, bestLen).
             let pre = normOID (pf_SysObjectIDPrefix p)
             in if pre = [] \<or> \<not> has_prefix oid pre then (best, bestLen)
                else if bestLen < int (length pre) then (Some p, int (length pre)) else (best, bestLen))
           (ord ps) (None, -1)))"

section \<open>Credentials\<close>

record credential =
  cr_Version :: string
  cr_Community :: string
  cr_User :: string
  cr_Level :: string
  cr_AuthProtocol :: string
  cr_AuthPassphrase :: string
  cr_PrivProtocol :: string
  cr_PrivPassphrase :: string

definition credential_level :: "credential \<Rightarrow> goerr + credential" where
  "credential_level c0 =
     (let c = (if cr_Level c0 = [] then c0\<lparr>cr_Level := ''noAuthNoPriv''\<rparr> else c0);
          bad = (\<lambda>text. Inl (Errorf CategoryValidation text))
      in if cr_Level c = ''noAuthNoPriv'' then Inr c
         else if cr_Level c = ''authNoPriv''
         then (if cr_AuthPassphrase c = [] then bad (''snmp v3 '' @ cr_Level c @ '' needs auth_passphrase'') else Inr c)
         else if cr_Level c = ''authPriv''
         then (if cr_AuthPassphrase c = [] \<or> cr_PrivPassphrase c = []
               then bad ''snmp v3 authPriv needs auth and priv passphrases'' else Inr c)
         else bad (''unknown snmp v3 level '' @ quote_q (cr_Level c)))"

definition CredentialFromSecret :: "secret \<Rightarrow> goerr + credential" where
  "CredentialFromSecret s =
     (let g = Get_secret s; v = (if g ''version'' = [] then ''2c'' else g ''version'');
          c = \<lparr>cr_Version = v, cr_Community = g ''community'', cr_User = g ''user'', cr_Level = g ''level'',
               cr_AuthProtocol = g ''auth_protocol'', cr_AuthPassphrase = g ''auth_passphrase'',
               cr_PrivProtocol = g ''priv_protocol'', cr_PrivPassphrase = g ''priv_passphrase''\<rparr>;
          bad = (\<lambda>text. Inl (Errorf CategoryValidation text))
      in if v = ''2c'' then (if cr_Community c = [] then bad ''snmp v2c credential needs a community'' else Inr c)
         else if v = ''3'' then (if cr_User c = [] then bad ''snmp v3 credential needs a user'' else credential_level c)
         else bad (''unsupported snmp version '' @ quote_q v))"

definition contains_str :: "string \<Rightarrow> string \<Rightarrow> bool" where
  "contains_str s t \<longleftrightarrow> list_ex (\<lambda>k. has_prefix (drop k s) t) [0..<length s + 1]"

definition classify :: "goerr \<Rightarrow> goerr" where
  "classify err =
     (let msg = to_lower (err_text err) in
      if list_ex (contains_str msg)
           [''wrong digest'', ''unknown user'', ''authentication'', ''unknownusername'', ''decryption'', ''unsupported security level'']
      then EDomain CategoryAuthentication ''snmp'' err
      else if list_ex (contains_str msg) [''timeout'', ''deadline'', ''i/o timeout''] then EDomain CategoryTimeout ''snmp'' err
      else EDomain CategoryTransient ''snmp'' err)"


section \<open>The poller\<close>

datatype pdu_kind = KindMissing | KindNumber | KindString

record pdu =
  pu_OID :: string
  pu_Kind :: pdu_kind
  pu_Num :: f64
  pu_Str :: string

text \<open>An open session; closing it has no result the code looks at.\<close>

record 'w session =
  se_Get :: "string list \<Rightarrow> ('w, pdu list) prog"
  se_Walk :: "string \<Rightarrow> ('w, pdu list) prog"

record facts =
  fc_SysName :: string
  fc_SysDescr :: string
  fc_SysObjectID :: string
  fc_ProfileID :: string

record poll_result =
  pr_Observations :: "observation list"
  pr_Facts :: facts
  pr_Skipped :: int

definition empty_result :: poll_result where
  "empty_result = \<lparr>pr_Observations = [], pr_Facts = \<lparr>fc_SysName = [], fc_SysDescr = [], fc_SysObjectID = [], fc_ProfileID = []\<rparr>,
     pr_Skipped = 0\<rparr>"

record 'w poller =
  pw_Resolve :: "string \<Rightarrow> ('w, secret) prog"
  pw_Dial :: "string \<Rightarrow> credential \<Rightarrow> ('w, 'w session) prog"
  pw_Now :: "('w, gotime) prog"
  pw_Profiles :: "(string, profile) fmap"
  pw_MaxOIDsPerGet :: int

definition oidSysDescr :: string where "oidSysDescr = ''1.3.6.1.2.1.1.1.0''"
definition oidSysObjectID :: string where "oidSysObjectID = ''1.3.6.1.2.1.1.2.0''"
definition oidSysName :: string where "oidSysName = ''1.3.6.1.2.1.1.5.0''"

definition decode :: "string \<Rightarrow> pdu \<Rightarrow> goval option" where
  "decode t p =
     (if t = ''string''
      then Some (VString (if pu_Kind p = KindString then pu_Str p else format_f (pu_Num p)))
      else if t = ''duration''
      then (if pu_Kind p = KindNumber then Some (VFloat64 (f64_div_rat (pu_Num p) 100)) else None)
      else if t \<in> {''integer'', ''gauge'', ''counter''}
      then (if pu_Kind p = KindNumber then Some (VFloat64 (pu_Num p)) else None)
      else None)"

definition indexPDUs :: "pdu list \<Rightarrow> (string, pdu) fmap" where
  "indexPDUs pdus = fold (\<lambda>p m. fmupd (pu_OID p) p m) pdus fmempty"

definition rowStrings :: "pdu list \<Rightarrow> string \<Rightarrow> strmap" where
  "rowStrings pdus colOID =
     (let prefix = normOID colOID @ ''.'' in
      fold (\<lambda>p m. if pu_Kind p = KindMissing \<or> \<not> has_prefix (pu_OID p) prefix then m
                  else fmupd (trim_prefix (pu_OID p) prefix)
                         (if pu_Kind p = KindString then pu_Str p else format_f (pu_Num p)) m) pdus fmempty)"

definition zero_profile :: profile where
  "zero_profile = \<lparr>pf_ID = [], pf_Desc = [], pf_Include = [], pf_SysObjectIDPrefix = [], pf_Metrics = []\<rparr>"

definition selectProfile ::
    "((string, profile) fmap \<Rightarrow> profile list) \<Rightarrow> 'w poller \<Rightarrow> 'w session \<Rightarrow> device \<Rightarrow> ('w, profile) prog" where
  "selectProfile ord p sess dev =
     (let i = c_Profile (d_Collection dev); ps = pw_Profiles p in
      if i \<noteq> [] \<and> i \<noteq> ''auto''
      then (case Get_profile ps i of
              Some prof \<Rightarrow> return_tx prof
            | None \<Rightarrow> fail_tx (Errorf CategoryValidation (''device '' @ d_ID dev @ '': unknown profile '' @ quote_q i)))
      else if i = [] then return_tx (case Get_profile ps ''system'' of Some prof \<Rightarrow> prof | None \<Rightarrow> zero_profile)
      else bind_tx (se_Get sess [oidSysObjectID]) (\<lambda>pdus.
           let fallback = (case Get_profile ps ''system'' of
                 Some prof \<Rightarrow> return_tx prof
               | None \<Rightarrow> fail_tx (Errorf CategoryUnsupported (''device '' @ d_ID dev @ '': no profile matches and no fallback'')))
           in case pdus of
                [q] \<Rightarrow> if pu_Kind q = KindString
                       then (case Match_profile ord ps (pu_Str q) of Some prof \<Rightarrow> return_tx prof | None \<Rightarrow> fallback)
                       else fallback
              | _ \<Rightarrow> fallback))"

type_synonym make_obs = "snmp_metric \<Rightarrow> string \<Rightarrow> goval \<Rightarrow> strmap \<Rightarrow> observation"

definition poll_observation :: "string \<Rightarrow> device \<Rightarrow> profile \<Rightarrow> gotime \<Rightarrow> make_obs" where
  "poll_observation cycleID dev prof observedAt m oid v labels =
     \<lparr>o_ObservationID = NewObservationID cycleID (d_ID dev) (mt_Name m) labels, o_CorrelationID = cycleID,
      o_DeviceID = d_ID dev, o_Source = ''snmp'', o_Metric = mt_Name m, o_Value = v, o_Labels = labels,
      o_ObservedAt = observedAt, o_ReceivedAt = 0,
      o_Metadata = fmap_of_list [(''profile'', pf_ID prof), (''oid'', oid)]\<rparr>"

definition emit :: "observation \<Rightarrow> poll_result \<Rightarrow> poll_result" where
  "emit ob res = res\<lparr>pr_Observations := pr_Observations res @ [ob]\<rparr>"

definition skip_value :: "poll_result \<Rightarrow> poll_result" where
  "skip_value res = res\<lparr>pr_Skipped := pr_Skipped res + 1\<rparr>"

text \<open>\<open>_, _ = v.(string)\<close> leaves the empty string for any other value.\<close>

definition note_fact :: "string \<Rightarrow> goval \<Rightarrow> poll_result \<Rightarrow> poll_result" where
  "note_fact oid v res =
     (let s = (case v of VString t \<Rightarrow> t | _ \<Rightarrow> []); f = pr_Facts res
      in if oid = oidSysName then res\<lparr>pr_Facts := f\<lparr>fc_SysName := s\<rparr>\<rparr>
         else if oid = oidSysDescr then res\<lparr>pr_Facts := f\<lparr>fc_SysDescr := s\<rparr>\<rparr>
         else if oid = oidSysObjectID then res\<lparr>pr_Facts := f\<lparr>fc_SysObjectID := s\<rparr>\<rparr>
         else res)"

definition scalar_value :: "make_obs \<Rightarrow> (string, pdu) fmap \<Rightarrow> snmp_metric \<Rightarrow> poll_result \<Rightarrow> poll_result" where
  "scalar_value mk byOID m res =
     (let oid = normOID (mt_OID m) in
      case fmlookup byOID oid of
        None \<Rightarrow> skip_value res
      | Some q \<Rightarrow>
          if pu_Kind q = KindMissing then skip_value res
          else case decode (mt_Type m) q of
            None \<Rightarrow> skip_value res
          | Some v \<Rightarrow> note_fact oid v (emit (mk m oid v fmempty) res))"

function chunks :: "nat \<Rightarrow> 'a list \<Rightarrow> 'a list list" where
  "chunks n xs = (if xs = [] \<or> n = 0 then [] else take n xs # chunks n (drop n xs))"
  by pat_completeness auto
termination
  by (relation "measure (\<lambda>(n, xs). length xs)") auto

declare chunks.simps [simp del]

text \<open>
  The loops of a poll return what was collected so far together with the error that stopped them, as
  \<open>Poll\<close> does.
\<close>

type_synonym 'w poll_step = "'w \<Rightarrow> (poll_result \<times> unit outcome) \<times> 'w"

fun poll_scalars :: "'w session \<Rightarrow> make_obs \<Rightarrow> snmp_metric list list \<Rightarrow> poll_result \<Rightarrow> 'w poll_step" where
  "poll_scalars sess mk [] res w = ((res, Done ()), w)"
| "poll_scalars sess mk (b # bs) res w =
     (case se_Get sess (map (\<lambda>m. normOID (mt_OID m)) b) w of
        (Done pdus, w') \<Rightarrow> poll_scalars sess mk bs (fold (scalar_value mk (indexPDUs pdus)) b res) w'
      | (Fails e, w') \<Rightarrow> ((res, Fails e), w')
      | (Panics, w') \<Rightarrow> ((res, Panics), w'))"

type_synonym walks = "(string, pdu list) fmap"

definition cached_walk :: "'w session \<Rightarrow> string \<Rightarrow> walks \<Rightarrow> ('w, pdu list \<times> walks) prog" where
  "cached_walk sess column walks =
     (case fmlookup walks (normOID column) of
        Some col \<Rightarrow> return_tx (col, walks)
      | None \<Rightarrow> bind_tx (se_Walk sess (normOID column)) (\<lambda>col. return_tx (col, fmupd (normOID column) col walks)))"

fun label_columns :: "'w session \<Rightarrow> (string \<times> string) list \<Rightarrow> walks \<Rightarrow> ('w, (string \<times> strmap) list \<times> walks) prog" where
  "label_columns sess [] walks = return_tx ([], walks)"
| "label_columns sess ((label, oid) # ls) walks =
     bind_tx (cached_walk sess oid walks) (\<lambda>(col, walks1).
     bind_tx (label_columns sess ls walks1) (\<lambda>(cols, walks2).
     return_tx ((label, rowStrings col oid) # cols, walks2)))"

definition row_labels :: "string \<Rightarrow> string \<Rightarrow> (string \<times> strmap) list \<Rightarrow> strmap" where
  "row_labels indexLabel idx cols =
     fold (\<lambda>(label, rows) m. case fmlookup rows idx of Some s \<Rightarrow> fmupd label s m | None \<Rightarrow> m) cols
       (fmap_of_list [(indexLabel, idx)])"

definition table_row :: "make_obs \<Rightarrow> snmp_metric \<Rightarrow> table_spec \<Rightarrow> (string \<times> strmap) list \<Rightarrow> pdu \<Rightarrow> poll_result \<Rightarrow> poll_result" where
  "table_row mk m t cols q res =
     (let rootPrefix = normOID (tb_OID t) @ ''.''; indexLabel = (if tb_IndexLabel t = [] then ''index'' else tb_IndexLabel t) in
      if pu_Kind q = KindMissing \<or> \<not> has_prefix (pu_OID q) rootPrefix then res
      else case decode (mt_Type m) q of
        None \<Rightarrow> skip_value res
      | Some v \<Rightarrow> emit (mk m (pu_OID q) v (row_labels indexLabel (trim_prefix (pu_OID q) rootPrefix) cols)) res)"

text \<open>One table metric: its column, its label columns, its rows.\<close>

definition table_metric ::
    "'w session \<Rightarrow> make_obs \<Rightarrow> snmp_metric \<Rightarrow> table_spec \<Rightarrow> walks \<Rightarrow> poll_result \<Rightarrow> ('w, poll_result \<times> walks) prog" where
  "table_metric sess mk m t walks res =
     bind_tx (cached_walk sess (tb_OID t) walks) (\<lambda>(col, walks1).
     bind_tx (label_columns sess (fm_items (tb_Labels t)) walks1) (\<lambda>(cols, walks2).
     return_tx (fold (table_row mk m t cols) col res, walks2)))"

fun poll_tables :: "'w session \<Rightarrow> make_obs \<Rightarrow> snmp_metric list \<Rightarrow> walks \<Rightarrow> poll_result \<Rightarrow> 'w poll_step" where
  "poll_tables sess mk [] walks res w = ((res, Done ()), w)"
| "poll_tables sess mk (m # ms) walks res w =
     (case mt_Table m of
        None \<Rightarrow> poll_tables sess mk ms walks res w
      | Some t \<Rightarrow>
          (case table_metric sess mk m t walks res w of
             (Done (res', walks'), w') \<Rightarrow> poll_tables sess mk ms walks' res' w'
           | (Fails e, w') \<Rightarrow> ((res, Fails e), w')
           | (Panics, w') \<Rightarrow> ((res, Panics), w')))"

definition collect :: "'w poller \<Rightarrow> 'w session \<Rightarrow> make_obs \<Rightarrow> profile \<Rightarrow> poll_result \<Rightarrow> 'w poll_step" where
  "collect p sess mk prof res w =
     (let batch = (if pw_MaxOIDsPerGet p \<le> 0 then 10 else pw_MaxOIDsPerGet p);
          scalars = filter (\<lambda>m. mt_OID m \<noteq> []) (pf_Metrics prof) in
      case poll_scalars sess mk (chunks (nat batch) scalars) res w of
        ((res1, Done _), w1) \<Rightarrow>
          (case poll_tables sess mk (pf_Metrics prof) fmempty res1 w1 of
             ((res2, Done _), w2) \<Rightarrow>
               ((res2\<lparr>pr_Observations := sort_key o_ObservationID (pr_Observations res2)\<rparr>, Done ()), w2)
           | stopped \<Rightarrow> stopped)
      | stopped \<Rightarrow> stopped)"

definition Poll ::
    "((string, profile) fmap \<Rightarrow> profile list) \<Rightarrow> 'w poller \<Rightarrow> device \<Rightarrow> string \<Rightarrow> 'w poll_step" where
  "Poll ord p dev cycleID w =
     (case bind_tx (pw_Resolve p (d_CredentialsRef dev)) (\<lambda>secret.
           bind_tx (lift_tx (CredentialFromSecret secret)) (\<lambda>cred.
           bind_tx (pw_Dial p (d_ManagementAddress dev) cred) (\<lambda>sess.
           bind_tx (selectProfile ord p sess dev) (\<lambda>prof.
           bind_tx (pw_Now p) (\<lambda>observedAt. return_tx (sess, prof, observedAt)))))) w of
        (Done (sess, prof, observedAt), w1) \<Rightarrow>
          collect p sess (poll_observation cycleID dev prof observedAt) prof
            (empty_result\<lparr>pr_Facts := (pr_Facts empty_result)\<lparr>fc_ProfileID := pf_ID prof\<rparr>\<rparr>) w1
      | (Fails e, w1) \<Rightarrow> ((empty_result, Fails e), w1)
      | (Panics, w1) \<Rightarrow> ((empty_result, Panics), w1))"


section \<open>Resolved profiles\<close>

definition include_rel :: "(string, profile) fmap \<Rightarrow> (string \<times> string) set" where
  "include_rel raw = {(i, j). \<exists>p. fmlookup raw i = Some p \<and> j \<in> set (pf_Include p)}"

lemma bind_res_Inr: "bind_res r f = Inr b \<longleftrightarrow> (\<exists>a. r = Inr a \<and> f a = Inr b)"
  by (cases r) (auto simp: bind_res_def)

lemma flatten_reaches:
  "flatten i raw stack = Inr flat \<Longrightarrow> (i, x) \<in> (include_rel raw)\<^sup>* \<Longrightarrow> x \<notin> set stack \<and> fmlookup raw x \<noteq> None"
  "merge_includes incs raw stack acc = Inr acc' \<Longrightarrow> inc \<in> set incs \<Longrightarrow> (inc, x) \<in> (include_rel raw)\<^sup>* \<Longrightarrow>
     x \<notin> set stack \<and> fmlookup raw x \<noteq> None"
proof (induction i raw stack and incs raw stack acc arbitrary: flat x and acc' inc x rule: flatten_merge_includes.induct)
  case (1 i raw stack)
  from "1.prems"(1) obtain p acc where p: "i \<notin> set stack" "fmlookup raw i = Some p"
      "merge_includes (pf_Include p) raw (stack @ [i]) (fmempty, []) = Inr acc"
    by (auto simp: flatten.simps [of i] bind_res_Inr split: if_splits option.splits)
  show ?case
  proof (cases "x = i")
    case False
    with "1.prems"(2) obtain j where "(i, j) \<in> include_rel raw" "(j, x) \<in> (include_rel raw)\<^sup>*"
      by (metis converse_rtranclE)
    moreover from this p(2) have "j \<in> set (pf_Include p)" by (simp add: include_rel_def)
    ultimately show ?thesis using "1.IH" [OF p(1,2,3)] by simp
  qed (use p in simp)
next
  case (3 i incs raw stack acc)
  from "3.prems"(1) obtain sub where "flatten i raw stack = Inr sub"
      "merge_includes incs raw stack (fold merge_metric (pf_Metrics sub) acc) = Inr acc'"
    by (auto simp: bind_res_Inr)
  with "3.prems"(2,3) "3.IH" show ?case by (metis set_ConsD)
qed simp

lemma merge_metric_distinct:
  assumes "distinct (snd acc)" "set (snd acc) = fset (fmdom (fst acc))" "\<forall>k m. fmlookup (fst acc) k = Some m \<longrightarrow> mt_Name m = k"
  shows "distinct (snd (merge_metric m acc))" "set (snd (merge_metric m acc)) = fset (fmdom (fst (merge_metric m acc)))"
    "\<forall>k n. fmlookup (fst (merge_metric m acc)) k = Some n \<longrightarrow> mt_Name n = k"
  using assms by (auto simp: merge_metric_def fmlookup_dom_iff split: prod.splits)

definition merged_ok :: "merged \<Rightarrow> bool" where
  "merged_ok acc \<longleftrightarrow> distinct (snd acc) \<and> set (snd acc) = fset (fmdom (fst acc))
     \<and> (\<forall>k m. fmlookup (fst acc) k = Some m \<longrightarrow> mt_Name m = k)"

lemma merged_ok_merge: "merged_ok acc \<Longrightarrow> merged_ok (merge_metric m acc)"
  using merge_metric_distinct [of acc m] by (simp add: merged_ok_def)

lemma merged_ok_fold: "merged_ok acc \<Longrightarrow> merged_ok (fold merge_metric ms acc)"
  by (induction ms arbitrary: acc) (auto simp: merged_ok_merge)

lemma merge_includes_ok: "merge_includes incs raw stack acc = Inr acc' \<Longrightarrow> merged_ok acc \<Longrightarrow> merged_ok acc'"
proof (induction incs arbitrary: acc)
  case (Cons inc incs)
  from Cons.prems(1) obtain sub :: profile where "merge_includes incs raw stack (fold merge_metric (pf_Metrics sub) acc) = Inr acc'"
    by (auto simp: bind_res_Inr)
  from Cons.IH [OF this merged_ok_fold [OF Cons.prems(2)]] show ?case .
qed simp

lemma listed_names: "merged_ok acc \<Longrightarrow> map mt_Name (listed acc) = snd acc"
proof -
  assume ok: "merged_ok acc"
  have "map mt_Name (List.map_filter (fmlookup (fst acc)) ns) = ns" if "set ns \<subseteq> set (snd acc)" for ns
    using that ok
    by (induction ns) (auto simp: merged_ok_def List.map_filter_simps fmlookup_dom_iff split: option.splits)
  then show ?thesis by (simp add: listed_def)
qed

lemma fst_merge_metric: "fst (merge_metric m acc) = fmupd (mt_Name m) m (fst acc)"
  by (simp add: merge_metric_def split: prod.splits)

lemma set_map_filter: "set (List.map_filter f xs) = {y. \<exists>x \<in> set xs. f x = Some y}"
  by (induction xs) (auto simp: List.map_filter_simps split: option.splits)

lemma fold_merge_last:
  "distinct (map mt_Name ms) \<Longrightarrow> m \<in> set ms \<Longrightarrow> fmlookup (fst (fold merge_metric ms acc)) (mt_Name m) = Some m"
proof (induction ms arbitrary: acc rule: rev_induct)
  case (snoc n ms)
  from snoc.prems snoc.IH [of acc] show ?case by (auto simp: fst_merge_metric image_iff)
qed simp

lemma flatten_metrics:
  assumes "flatten i raw stack = Inr flat" "fmlookup raw i = Some p"
  shows "distinct (map mt_Name (pf_Metrics flat))"
    and "distinct (map mt_Name (pf_Metrics p)) \<Longrightarrow> m \<in> set (pf_Metrics p) \<Longrightarrow> m \<in> set (pf_Metrics flat)"
proof -
  from assms obtain acc where acc: "merge_includes (pf_Include p) raw (stack @ [i]) (fmempty, []) = Inr acc"
      "flat = p\<lparr>pf_Metrics := listed (fold merge_metric (pf_Metrics p) acc)\<rparr>"
    by (auto simp: flatten.simps [of i] bind_res_Inr split: if_splits)
  have ok: "merged_ok (fold merge_metric (pf_Metrics p) acc)"
    using merge_includes_ok [OF acc(1)] by (intro merged_ok_fold) (simp add: merged_ok_def)
  show "distinct (map mt_Name (pf_Metrics flat))"
    using ok listed_names [OF ok] acc(2) by (simp add: merged_ok_def)
  assume own: "distinct (map mt_Name (pf_Metrics p))" "m \<in> set (pf_Metrics p)"
  have "mt_Name m \<in> set (snd (fold merge_metric (pf_Metrics p) acc))"
    using fmdomI [OF fold_merge_last [OF own, of acc]] ok by (simp add: merged_ok_def)
  with fold_merge_last [OF own, of acc] show "m \<in> set (pf_Metrics flat)"
    unfolding acc(2) listed_def by (auto simp: set_map_filter)
qed


lemma metrics_problems_Nil:
  "metrics_problems i seen ms = [] \<Longrightarrow> distinct (map mt_Name ms) \<and> set (map mt_Name ms) \<inter> seen = {}"
proof (induction i seen ms rule: metrics_problems.induct)
  case (2 i seen m ms)
  have "mt_Name m \<notin> seen" using 2(2) by (simp add: metric_problems_def Let_def split: if_split_asm)
  with 2 show ?case by auto
qed simp

lemma validate_profile_names: "validate_profile p = None \<Longrightarrow> distinct (map mt_Name (pf_Metrics p))"
  using metrics_problems_Nil [of 0 "{}" "pf_Metrics p"] by (auto simp: validate_profile_def Let_def split: if_splits)

lemma parse_profiles_loop_ok:
  assumes "parse_profiles_loop raw docs = Inr raw'" "\<forall>k p. fmlookup raw k = Some p \<longrightarrow> validate_profile p = None \<and> pf_ID p = k"
  shows "(\<forall>k p. fmlookup raw' k = Some p \<longrightarrow> validate_profile p = None \<and> pf_ID p = k)
       \<and> fset (fmdom raw') = fset (fmdom raw) \<union> pf_ID ` set docs"
  using assms
proof (induction raw docs rule: parse_profiles_loop.induct)
  case (2 raw p docs)
  from "2.prems"(1) have ok: "validate_profile p = None" "fmlookup raw (pf_ID p) = None"
      "parse_profiles_loop (fmupd (pf_ID p) p raw) docs = Inr raw'"
    by (simp_all split: option.splits if_splits)
  have "\<forall>k q. fmlookup (fmupd (pf_ID p) p raw) k = Some q \<longrightarrow> validate_profile q = None \<and> pf_ID q = k"
    using "2.prems"(2) ok(1) by simp
  from "2.IH" [OF ok(1) _ ok(3) this] ok(2) show ?case by simp
qed simp

lemma flatten_all_ok:
  assumes "flatten_all raw ids out = Inr ps" "distinct ids"
  shows "(\<forall>i \<in> set ids. \<exists>flat. flatten i raw [] = Inr flat \<and> fmlookup ps i = Some flat)
       \<and> (\<forall>i. i \<notin> set ids \<longrightarrow> fmlookup ps i = fmlookup out i)"
  using assms
proof (induction ids arbitrary: out)
  case (Cons i ids)
  from Cons.prems(1) obtain flat :: profile where f: "flatten i raw [] = Inr flat" "flatten_all raw ids (fmupd i flat out) = Inr ps"
    by (auto simp: bind_res_Inr)
  from Cons.IH [OF f(2)] Cons.prems(2) f(1) show ?case by auto
qed simp

text \<open>
  Profile includes resolve (C26). \<open>ParseProfiles\<close> ends on every input; when it succeeds, every profile it was
  given is there under its id, the include relation is acyclic and refers to known profiles only, the
  resolved metrics of a profile have distinct names, and a profile's own metrics win over included ones.
\<close>

theorem parsed_profiles_resolved:
  assumes "ParseProfiles docs = Inr ps"
  shows "\<exists>raw. parse_profiles_loop fmempty docs = Inr raw \<and> acyclic (include_rel raw) \<and> snd ` include_rel raw \<subseteq> fset (fmdom raw)
       \<and> (\<forall>i p. fmlookup raw i = Some p \<longrightarrow>
            (\<exists>flat. Get_profile ps i = Some flat \<and> distinct (map mt_Name (pf_Metrics flat))
                  \<and> set (pf_Metrics p) \<subseteq> set (pf_Metrics flat)))"
proof -
  from assms obtain raw where raw: "parse_profiles_loop fmempty docs = Inr raw" "flatten_all raw (sorted_keys raw) fmempty = Inr ps"
    by (auto simp: ParseProfiles_def bind_res_Inr)
  have flat: "\<exists>flat. flatten i raw [] = Inr flat \<and> fmlookup ps i = Some flat" if "fmlookup raw i = Some p" for i p
    using flatten_all_ok [OF raw(2)] fmdomI [OF that] by simp
  have valid: "fmlookup raw i = Some p \<Longrightarrow> validate_profile p = None" for i p
    using parse_profiles_loop_ok [OF raw(1)] by simp
  have "(i, i) \<notin> (include_rel raw)\<^sup>+" for i
  proof
    assume "(i, i) \<in> (include_rel raw)\<^sup>+"
    then obtain j where j: "(i, j) \<in> include_rel raw" "(j, i) \<in> (include_rel raw)\<^sup>*" by (metis tranclD)
    then obtain p where p: "fmlookup raw i = Some p" "j \<in> set (pf_Include p)" by (auto simp: include_rel_def)
    with flat obtain acc where "merge_includes (pf_Include p) raw [i] (fmempty, []) = Inr acc"
      by (fastforce simp: flatten.simps [of i] bind_res_Inr)
    with flatten_reaches(2) [OF this p(2) j(2)] show False by simp
  qed
  moreover have "j |\<in>| fmdom raw" if "(i, j) \<in> include_rel raw" for i j
  proof -
    from that obtain p where "fmlookup raw i = Some p" by (auto simp: include_rel_def)
    with flat obtain f where "flatten i raw [] = Inr f" by blast
    from flatten_reaches(1) [OF this r_into_rtrancl [OF that]] show ?thesis by (auto intro: fmdomI)
  qed
  moreover have "\<exists>flat. Get_profile ps i = Some flat \<and> distinct (map mt_Name (pf_Metrics flat)) \<and> set (pf_Metrics p) \<subseteq> set (pf_Metrics flat)"
    if "fmlookup raw i = Some p" for i p
    using flat [OF that] flatten_metrics [OF _ that] validate_profile_names [OF valid [OF that]]
    by (fastforce simp: Get_profile_def)
  ultimately show ?thesis using raw(1) by (force simp: acyclic_def)
qed


section \<open>Batches\<close>

lemma concat_chunks: "0 < n \<Longrightarrow> concat (chunks n xs) = xs"
  by (induction n xs rule: chunks.induct) (subst chunks.simps, auto)

text \<open>
  \<open>answers sess ans w\<close>: in the world \<open>w\<close> the agent answers every OID of a GET by itself, whatever else
  is in the request.
\<close>

definition answers :: "'w session \<Rightarrow> (string \<Rightarrow> pdu) \<Rightarrow> 'w \<Rightarrow> bool" where
  "answers sess ans w \<longleftrightarrow> (\<forall>oids. se_Get sess oids w = (Done (map ans oids), w)) \<and> (\<forall>oid. pu_OID (ans oid) = oid)"

definition answered_value :: "make_obs \<Rightarrow> (string \<Rightarrow> pdu) \<Rightarrow> snmp_metric \<Rightarrow> poll_result \<Rightarrow> poll_result" where
  "answered_value mk ans m = scalar_value mk (fmap_of_list [(normOID (mt_OID m), ans (normOID (mt_OID m)))]) m"

lemma indexPDUs_answers:
  assumes "\<forall>oid. pu_OID (ans oid) = oid" "oid \<in> set oids"
  shows "fmlookup (indexPDUs (map ans oids)) oid = Some (ans oid)"
proof -
  have "fmlookup (fold (\<lambda>p m. fmupd (pu_OID p) p m) (map ans xs) m0) oid = (if oid \<in> set xs then Some (ans oid) else fmlookup m0 oid)" for xs m0
    using assms(1) by (induction xs arbitrary: m0) auto
  with assms(2) show ?thesis by (simp add: indexPDUs_def)
qed

lemma scalar_batch:
  assumes "\<forall>oid. pu_OID (ans oid) = oid" "set ms \<subseteq> set b"
  shows "fold (scalar_value mk (indexPDUs (map ans (map (\<lambda>m. normOID (mt_OID m)) b)))) ms res = fold (answered_value mk ans) ms res"
  using assms(2)
proof (induction ms arbitrary: res)
  case (Cons m ms)
  have "fmlookup (indexPDUs (map ans (map (\<lambda>m. normOID (mt_OID m)) b))) (normOID (mt_OID m)) = Some (ans (normOID (mt_OID m)))"
    using Cons.prems by (intro indexPDUs_answers [OF assms(1)]) auto
  then have "scalar_value mk (indexPDUs (map ans (map (\<lambda>m. normOID (mt_OID m)) b))) m res = answered_value mk ans m res"
    by (simp add: scalar_value_def answered_value_def)
  with Cons show ?case by simp
qed simp

lemma poll_scalars_answers:
  assumes "answers sess ans w"
  shows "poll_scalars sess mk bs res w = ((fold (answered_value mk ans) (concat bs) res, Done ()), w)"
proof (induction bs arbitrary: res)
  case (Cons b bs)
  with assms scalar_batch [of ans b b mk res] show ?case by (simp add: answers_def)
qed simp

text \<open>
  The batch size does not matter. When the agent answers each OID by itself, a poll collects the same
  observations, facts and counts whatever the number of OIDs per request.
\<close>

theorem batch_size_irrelevant:
  assumes "answers sess ans w"
  shows "collect (p\<lparr>pw_MaxOIDsPerGet := k\<rparr>) sess mk prof res w = collect p sess mk prof res w"
  by (simp add: collect_def Let_def poll_scalars_answers [OF assms] concat_chunks)

section \<open>Walks\<close>

definition logs_walks :: "('w \<Rightarrow> string list) \<Rightarrow> 'w session \<Rightarrow> bool" where
  "logs_walks calls sess \<longleftrightarrow> (\<forall>column w. calls (snd (se_Walk sess column w)) = calls w @ [column])"

text \<open>
  \<open>walked calls c0 walks w\<close>: since the log was \<open>c0\<close>, exactly the cached columns were walked, each once.
\<close>

definition walked :: "('w \<Rightarrow> string list) \<Rightarrow> string list \<Rightarrow> walks \<Rightarrow> 'w \<Rightarrow> bool" where
  "walked calls c0 walks w \<longleftrightarrow> (\<exists>cols. calls w = c0 @ cols \<and> distinct cols \<and> set cols = fset (fmdom walks))"

definition once :: "('w \<Rightarrow> string list) \<Rightarrow> string list \<Rightarrow> 'w \<Rightarrow> bool" where
  "once calls c0 w \<longleftrightarrow> (\<exists>cols. calls w = c0 @ cols \<and> distinct cols)"

lemma walked_once: "walked calls c0 walks w \<Longrightarrow> once calls c0 w"
  by (auto simp: walked_def once_def)

lemma cached_walk_logs:
  assumes "logs_walks calls sess" "walked calls c0 walks w" "cached_walk sess column walks w = (r, w')"
  shows "once calls c0 w'" "r = Done (col, walks') \<Longrightarrow> walked calls c0 walks' w'"
proof -
  consider (hit) col where "fmlookup walks (normOID column) = Some col" | (miss) "fmlookup walks (normOID column) = None" by fastforce
  then have "once calls c0 w' \<and> (r = Done (col, walks') \<longrightarrow> walked calls c0 walks' w')"
  proof cases
    case hit
    with assms walked_once show ?thesis by (auto simp: cached_walk_def return_tx_def)
  next
    case miss
    from assms(2) obtain cols where cols: "calls w = c0 @ cols" "distinct cols" "set cols = fset (fmdom walks)"
      by (auto simp: walked_def)
    moreover have "normOID column \<notin> fset (fmdom walks)" using miss by (simp add: fmdom_notI)
    moreover have "w' = snd (se_Walk sess (normOID column) w)"
      and new: "r = Done (col, walks') \<longrightarrow> walks' = fmupd (normOID column) col walks"
      using assms(3) miss by (auto simp: cached_walk_def bind_tx_def return_tx_def split: prod.splits outcome.splits)
    then have "calls w' = calls w @ [normOID column]" using assms(1) by (simp add: logs_walks_def)
    ultimately show ?thesis
      unfolding walked_def once_def using new by (intro conjI impI exI [of _ "cols @ [normOID column]"]) auto
  qed
  then show "once calls c0 w'" "r = Done (col, walks') \<Longrightarrow> walked calls c0 walks' w'" by auto
qed


lemma label_columns_logs:
  assumes "logs_walks calls sess" "walked calls c0 walks w" "label_columns sess ls walks w = (r, w')"
  shows "once calls c0 w' \<and> (\<forall>cols walks'. r = Done (cols, walks') \<longrightarrow> walked calls c0 walks' w')"
  using assms(2,3)
proof (induction ls arbitrary: walks w r w')
  case Nil
  then show ?case using walked_once by (auto simp: return_tx_def)
next
  case (Cons l ls)
  obtain label oid where l: "l = (label, oid)" by fastforce
  obtain r1 w1 where c: "cached_walk sess oid walks w = (r1, w1)" by fastforce
  note log = cached_walk_logs [OF assms(1) Cons.prems(1) c]
  show ?case
  proof (cases r1)
    case (Done cw)
    obtain col walks1 where cw: "cw = (col, walks1)" by fastforce
    obtain r2 w2 where c2: "label_columns sess ls walks1 w1 = (r2, w2)" by fastforce
    from Cons.IH [OF _ c2] log(2) Done cw have "once calls c0 w2 \<and> (\<forall>cols walks'. r2 = Done (cols, walks') \<longrightarrow> walked calls c0 walks' w2)"
      by blast
    with Cons.prems(2) c c2 Done cw l show ?thesis
      by (cases r2) (auto simp: bind_tx_def return_tx_def)
  qed (use Cons.prems(2) c l log(1) in \<open>auto simp: bind_tx_def\<close>)
qed

lemma table_metric_logs:
  assumes "logs_walks calls sess" "walked calls c0 walks w" "table_metric sess mk m t walks res w = (r, w')"
  shows "once calls c0 w' \<and> (\<forall>res' walks'. r = Done (res', walks') \<longrightarrow> walked calls c0 walks' w')"
proof -
  obtain r1 w1 where c: "cached_walk sess (tb_OID t) walks w = (r1, w1)" by fastforce
  note log = cached_walk_logs [OF assms(1,2) c]
  show ?thesis
  proof (cases r1)
    case (Done cw)
    obtain col walks1 where cw: "cw = (col, walks1)" by fastforce
    obtain r2 w2 where c2: "label_columns sess (fm_items (tb_Labels t)) walks1 w1 = (r2, w2)" by fastforce
    from label_columns_logs [OF assms(1) _ c2] log(2) Done cw
    have "once calls c0 w2 \<and> (\<forall>cols walks'. r2 = Done (cols, walks') \<longrightarrow> walked calls c0 walks' w2)" by blast
    with assms(3) c c2 Done cw show ?thesis
      by (cases r2) (auto simp: table_metric_def bind_tx_def return_tx_def)
  qed (use assms(3) c log(1) in \<open>auto simp: table_metric_def bind_tx_def\<close>)
qed

lemma poll_tables_logs:
  assumes "logs_walks calls sess" "walked calls c0 walks w" "poll_tables sess mk ms walks res w = (r, w')"
  shows "once calls c0 w'"
  using assms(2,3)
proof (induction ms arbitrary: walks res w)
  case Nil
  then show ?case using walked_once by auto
next
  case (Cons m ms)
  show ?case
  proof (cases "mt_Table m")
    case (Some t)
    obtain r1 w1 where c: "table_metric sess mk m t walks res w = (r1, w1)" by fastforce
    note log = table_metric_logs [OF assms(1) Cons.prems(1) c]
    show ?thesis
    proof (cases r1)
      case (Done rw)
      obtain res1 walks1 where rw: "rw = (res1, walks1)" by fastforce
      with log Done have "walked calls c0 walks1 w1" by blast
      from Cons.IH [OF this, of res1] Cons.prems(2) c Done rw Some show ?thesis by simp
    qed (use Cons.prems(2) c Some log in auto)
  qed (use Cons in simp)
qed

text \<open>
  Each column is walked once per poll. However many metrics of a profile share a column, as value or as
  label, a poll walks it at most once, and this holds for a poll that fails as well.
\<close>

theorem column_walked_once:
  assumes "logs_walks calls sess" "poll_tables sess mk ms fmempty res w = (r, w')"
  shows "\<exists>cols. calls w' = calls w @ cols \<and> distinct cols"
  using poll_tables_logs [OF assms(1) _ assms(2), of "calls w"] by (auto simp: walked_def once_def)

text \<open>An agent whose every object is the number one, on a line that records the columns walked.\<close>

definition ex_agent :: "string list session" where
  "ex_agent = \<lparr>se_Get = \<lambda>oids w. (Done (map (\<lambda>oid. \<lparr>pu_OID = oid, pu_Kind = KindNumber, pu_Num = F_Fin 1, pu_Str = []\<rparr>) oids), w),
     se_Walk = \<lambda>column w. (Done [\<lparr>pu_OID = column @ ''.1'', pu_Kind = KindNumber, pu_Num = F_Fin 1, pu_Str = []\<rparr>], w @ [column])\<rparr>"

definition ex_table :: "string \<Rightarrow> snmp_metric" where
  "ex_table name = \<lparr>mt_Name = name, mt_OID = [], mt_Table = Some \<lparr>tb_OID = ''1.3.6.1.2.1.2.2.1.8'', tb_IndexLabel = [],
     tb_Labels = fmap_of_list [(''interface'', ''1.3.6.1.2.1.31.1.1.1.1'')]\<rparr>, mt_Type = ''gauge''\<rparr>"

lemma ex_agent_logs: "logs_walks id ex_agent"
  by (simp add: logs_walks_def ex_agent_def)

definition ex_make :: make_obs where
  "ex_make m oid v labels = \<lparr>o_ObservationID = mt_Name m, o_CorrelationID = [], o_DeviceID = ''r1'', o_Source = ''snmp'',
     o_Metric = mt_Name m, o_Value = v, o_Labels = labels, o_ObservedAt = 0, o_ReceivedAt = 0, o_Metadata = fmempty\<rparr>"

theorem column_walked_once_witness:
  "\<exists>r w'. poll_tables ex_agent ex_make [ex_table ''a'', ex_table ''b''] fmempty empty_result [] = (r, w') \<and> distinct w'"
proof -
  obtain r w' where "poll_tables ex_agent ex_make [ex_table ''a'', ex_table ''b''] fmempty empty_result [] = (r, w')" by fastforce
  with column_walked_once [OF ex_agent_logs this] show ?thesis by auto
qed

definition ex_poller :: "string list poller" where
  "ex_poller = \<lparr>pw_Resolve = \<lambda>ref. return_tx (fmap_of_list [(''community'', ''public'')]), pw_Dial = \<lambda>addr cred. return_tx ex_agent,
     pw_Now = return_tx 0, pw_Profiles = fmempty, pw_MaxOIDsPerGet = 10\<rparr>"

theorem batch_size_irrelevant_witness:
  "collect (ex_poller\<lparr>pw_MaxOIDsPerGet := 1\<rparr>) ex_agent ex_make zero_profile empty_result []
   = collect ex_poller ex_agent ex_make zero_profile empty_result []"
  by (rule batch_size_irrelevant [of ex_agent "\<lambda>oid. \<lparr>pu_OID = oid, pu_Kind = KindNumber, pu_Num = F_Fin 1, pu_Str = []\<rparr>"])
     (simp add: answers_def ex_agent_def)

definition ex_profile :: profile where
  "ex_profile = zero_profile\<lparr>pf_ID := ''system'', pf_Metrics := [ex_table ''a'']\<rparr>"

lemma ex_profiles_parse: "\<exists>ps. ParseProfiles [ex_profile] = Inr ps"
proof -
  have v: "validate_profile ex_profile = None" by code_simp
  have l: "parse_profiles_loop fmempty [ex_profile] = Inr (fmupd ''system'' ex_profile fmempty)"
    using v by (simp add: ex_profile_def)
  have "sorted_keys (fmupd ''system'' ex_profile fmempty) = [''system'']"
    by (simp add: sorted_keys_def sorted_list_of_fset.rep_eq)
  moreover have "\<exists>f. flatten ''system'' (fmupd ''system'' ex_profile fmempty) [] = Inr f"
    by (simp add: flatten.simps ex_profile_def zero_profile_def bind_res_def)
  ultimately show ?thesis unfolding ParseProfiles_def l by (auto simp: bind_res_def)
qed

theorem parsed_profiles_resolved_witness:
  "\<exists>ps raw. ParseProfiles [ex_profile] = Inr ps \<and> parse_profiles_loop fmempty [ex_profile] = Inr raw \<and> acyclic (include_rel raw)"
  using ex_profiles_parse parsed_profiles_resolved [of "[ex_profile]"] by blast

end
