(* ===== verification/Adapters.thy ===== *)
theory Adapters
  imports Snmp Catalog
begin

text \<open>
  The device-facing side of automation: \<open>internal/automation/adapter.go\<close> and
  \<open>internal/automation/adapters\<close>. Every adapter is a program on a state that holds the adapter's own
  mock configuration and the world \<open>'w\<close>; the controller, the SNMP sessions, the event recorder, the
  extension runner and the HTTP client act on the world and are parameters.
\<close>


section \<open>The interface\<close>

record adapter_action =
  ac_Type :: string
  ac_Target :: string
  ac_Params :: strmap
  ac_DryRun :: bool
  ac_RequestID :: string
  ac_CorrelationID :: string

record action_result =
  rs_Message :: string
  rs_Details :: strmap
  rs_Changed :: bool

type_synonym 's adapter = "device \<Rightarrow> adapter_action \<Rightarrow> ('s, action_result) prog"

definition result :: "string \<Rightarrow> (string \<times> string) list \<Rightarrow> bool \<Rightarrow> action_result" where
  "result msg kv changed = \<lparr>rs_Message = msg, rs_Details = fmap_of_list (rev kv), rs_Changed = changed\<rparr>"

definition par :: "adapter_action \<Rightarrow> string \<Rightarrow> string" where
  "par a k = str_at (ac_Params a) k"

definition unsupported :: "string \<Rightarrow> adapter_action \<Rightarrow> ('s, 'a) prog" where
  "unsupported kind a = fail_tx (Errorf CategoryUnsupported (kind @ '' adapter does not implement '' @ ac_Type a))"

record 's adapter_set =
  st_ByType :: "(string, 's adapter) fmap"
  st_Generic :: "'s adapter option"

definition genericActions :: "string list" where
  "genericActions = [''send_webhook'', ''create_event_record'', ''invoke_extension'', ''noop'']"

definition For_adapter :: "'s adapter_set \<Rightarrow> device \<Rightarrow> string \<Rightarrow> goerr + 's adapter" where
  "For_adapter s dev action =
     (if action \<in> set genericActions
      then (case st_Generic s of
              None \<Rightarrow> Inl (Errorf CategoryUnsupported ''no generic adapter configured'')
            | Some g \<Rightarrow> Inr g)
      else (case fmlookup (st_ByType s) (d_DeviceType dev) of
              Some a \<Rightarrow> Inr a
            | None \<Rightarrow> Inl (Errorf CategoryUnsupported (''no adapter for '' @ d_DeviceType dev @ '' devices''))))"


section \<open>Reading over SNMP\<close>

text \<open>
  Conversion of a float to \<open>int\<close> truncates. What Go does with a value outside the range of \<open>int\<close> is
  left to the machine; \<open>trunc\<close> is that conversion.
\<close>

type_synonym trunc = "f64 \<Rightarrow> int"

definition statusWord :: "trunc \<Rightarrow> f64 \<Rightarrow> string" where
  "statusWord trunc v =
     (let n = trunc v in if n = 1 then ''up'' else if n = 2 then ''down'' else if n = 3 then ''testing''
      else ''status-'' @ show_int n)"

record 'w reader =
  re_Resolve :: "string \<Rightarrow> ('w, secret) prog"
  re_Dial :: "string \<Rightarrow> credential \<Rightarrow> ('w, 'w session) prog"

definition reader_session :: "'w reader \<Rightarrow> device \<Rightarrow> ('w, 'w session) prog" where
  "reader_session r dev =
     bind_tx (re_Resolve r (d_CredentialsRef dev)) (\<lambda>secret.
     bind_tx (lift_tx (CredentialFromSecret secret)) (\<lambda>cred.
     re_Dial r (d_ManagementAddress dev) cred))"

record interface_state =
  is_Index :: string
  is_Name :: string
  is_Oper :: string
  is_Admin :: string

definition oidIfName :: string where "oidIfName = ''1.3.6.1.2.1.31.1.1.1.1''"
definition oidIfOper :: string where "oidIfOper = ''1.3.6.1.2.1.2.2.1.8''"
definition oidIfAdmin :: string where "oidIfAdmin = ''1.3.6.1.2.1.2.2.1.7''"
definition oidUptime :: string where "oidUptime = ''1.3.6.1.2.1.1.3.0''"
definition oidClients :: string where "oidClients = ''1.3.6.1.4.1.32473.2.1.3.0''"
definition oidCPURoot :: string where "oidCPURoot = ''1.3.6.1.2.1.25.3.3.1.2''"
definition oidMemUsed :: string where "oidMemUsed = ''1.3.6.1.4.1.32473.3.1.1.0''"

definition Interface :: "trunc \<Rightarrow> 'w reader \<Rightarrow> device \<Rightarrow> string \<Rightarrow> ('w, interface_state) prog" where
  "Interface trunc r dev name =
     bind_tx (reader_session r dev) (\<lambda>s.
     bind_tx (se_Walk s oidIfName) (\<lambda>names.
     let idx = fold (\<lambda>p i. if pu_Kind p = KindString \<and> pu_Str p = name then trim_prefix (pu_OID p) (oidIfName @ ''.'') else i) names [] in
     if idx = []
     then fail_tx (Errorf CategoryValidation (''device '' @ d_ID dev @ '' has no interface '' @ quote_q name))
     else bind_tx (se_Get s [oidIfOper @ ''.'' @ idx, oidIfAdmin @ ''.'' @ idx]) (\<lambda>pdus.
          return_tx (fold (\<lambda>p st.
              if pu_Kind p \<noteq> KindNumber then st
              else if has_prefix (pu_OID p) (oidIfOper @ ''.'') then st\<lparr>is_Oper := statusWord trunc (pu_Num p)\<rparr>
              else if has_prefix (pu_OID p) (oidIfAdmin @ ''.'') then st\<lparr>is_Admin := statusWord trunc (pu_Num p)\<rparr>
              else st) pdus \<lparr>is_Index = idx, is_Name = name, is_Oper = ''unknown'', is_Admin = ''unknown''\<rparr>))))"

definition Clients :: "trunc \<Rightarrow> 'w reader \<Rightarrow> device \<Rightarrow> ('w, int) prog" where
  "Clients trunc r dev =
     bind_tx (reader_session r dev) (\<lambda>s.
     bind_tx (se_Get s [oidClients]) (\<lambda>pdus.
     let missing = fail_tx (Errorf CategoryUnsupported (''device '' @ d_ID dev @ '' does not report a client count'')) in
     case pdus of
       [p] \<Rightarrow> if pu_Kind p = KindNumber then return_tx (trunc (pu_Num p)) else missing
     | _ \<Rightarrow> missing))"

record host_facts =
  hf_Name :: string
  hf_UptimeSecs :: int
  hf_CPUPercent :: "string list"
  hf_MemPercent :: string

definition host_fact :: "trunc \<Rightarrow> pdu \<Rightarrow> host_facts \<Rightarrow> host_facts" where
  "host_fact trunc p f =
     (if pu_OID p = oidSysName then f\<lparr>hf_Name := pu_Str p\<rparr>
      else if pu_OID p = oidUptime then f\<lparr>hf_UptimeSecs := trunc (f64_div_rat (pu_Num p) 100)\<rparr>
      else if pu_OID p = oidMemUsed \<and> pu_Kind p = KindNumber then f\<lparr>hf_MemPercent := show_int (trunc (pu_Num p))\<rparr>
      else f)"

definition Host_facts :: "trunc \<Rightarrow> 'w reader \<Rightarrow> device \<Rightarrow> ('w, host_facts) prog" where
  "Host_facts trunc r dev =
     bind_tx (reader_session r dev) (\<lambda>s.
     bind_tx (se_Get s [oidSysName, oidUptime, oidMemUsed]) (\<lambda>pdus.
     let f = fold (host_fact trunc) pdus \<lparr>hf_Name = [], hf_UptimeSecs = 0, hf_CPUPercent = [], hf_MemPercent = []\<rparr> in
     bind_tx (se_Walk s oidCPURoot) (\<lambda>cpus.
     return_tx (f\<lparr>hf_CPUPercent := map (\<lambda>p. show_int (trunc (pu_Num p))) (filter (\<lambda>p. pu_Kind p = KindNumber) cpus)\<rparr>))))"

section \<open>The device adapters\<close>

text \<open>The state of an adapter: its mock configuration and the world.\<close>

type_synonym 'w adapter_state = "strmap \<times> 'w"

definition on_world :: "('w, 'a) prog \<Rightarrow> ('w adapter_state, 'a) prog" where
  "on_world m s = (case s of (cfg, w) \<Rightarrow> (case m w of (r, w') \<Rightarrow> (r, (cfg, w'))))"

definition get_config :: "string \<Rightarrow> ('w adapter_state, string) prog" where
  "get_config key s = (Done (str_at (fst s) key), s)"

definition set_config :: "string \<Rightarrow> string \<Rightarrow> ('w adapter_state, unit) prog" where
  "set_config key v s = (Done (), (fmupd key v (fst s), snd s))"

text \<open>\<open>Controller.Do(ctx, device, event, args)\<close>.\<close>

type_synonym 'w controller = "string \<Rightarrow> string \<Rightarrow> strmap \<Rightarrow> ('w, unit) prog"

definition interfaceState :: "trunc \<Rightarrow> 'w reader option \<Rightarrow> device \<Rightarrow> string \<Rightarrow> ('w adapter_state, interface_state) prog" where
  "interfaceState trunc reader dev iface =
     (case reader of
        None \<Rightarrow> return_tx \<lparr>is_Index = [], is_Name = iface, is_Oper = ''unknown'', is_Admin = ''unknown''\<rparr>
      | Some r \<Rightarrow> on_world (Interface trunc r dev iface))"

definition spaced :: "string \<Rightarrow> string" where
  "spaced s = map (\<lambda>c. if c = CHR ''_'' then CHR '' '' else c) s"

definition switch_mutate :: "trunc \<Rightarrow> 'w controller \<Rightarrow> 'w reader option \<Rightarrow> 'w adapter_state adapter" where
  "switch_mutate trunc ctl reader dev a =
     bind_tx (interfaceState trunc reader dev (ac_Target a)) (\<lambda>st.
     let d = [(''interface'', ac_Target a), (''before_oper'', is_Oper st), (''before_admin'', is_Admin st)];
         args = fmap_of_list [(''interface'', ac_Target a)];
         completed = return_tx (result (ac_Type a @ '' completed for '' @ ac_Target a @ '' on '' @ d_ID dev) d True) in
     if ac_DryRun a
     then return_tx (result (''dry-run: would '' @ spaced (ac_Type a) @ '' '' @ ac_Target a @ '' on '' @ d_ID dev @
            '' (currently oper='' @ is_Oper st @ '' admin='' @ is_Admin st @ '')'') d False)
     else if ac_Type a = ''disable_interface''
     then bind_tx (on_world (ctl (d_ID dev) ''interface-admin-down'' args)) (\<lambda>_. completed)
     else if ac_Type a = ''enable_interface''
     then bind_tx (on_world (ctl (d_ID dev) ''interface-admin-up'' args)) (\<lambda>_. completed)
     else if ac_Type a = ''bounce_interface''
     then bind_tx (on_world (ctl (d_ID dev) ''interface-admin-down'' args)) (\<lambda>_.
          bind_tx (on_world (ctl (d_ID dev) ''interface-admin-up'' args)) (\<lambda>_. completed))
     else if ac_Type a = ''set_interface_description''
     then (let key = d_ID dev @ ''/'' @ ac_Target a in
           bind_tx (get_config key) (\<lambda>before.
           bind_tx (set_config key (par a ''description'')) (\<lambda>_.
           return_tx (result (''set description of '' @ ac_Target a @ '' on '' @ d_ID dev)
                        (d @ [(''before_description'', before)]) True))))
     else completed)"

definition switch_Execute :: "trunc \<Rightarrow> 'w controller \<Rightarrow> 'w reader option \<Rightarrow> 'w adapter_state adapter" where
  "switch_Execute trunc ctl reader dev a =
     (if ac_Type a = ''query_interface_state''
      then bind_tx (interfaceState trunc reader dev (ac_Target a)) (\<lambda>st.
           return_tx (result (d_ID dev @ '' '' @ ac_Target a @ '' is operationally '' @ is_Oper st @ '', administratively '' @ is_Admin st)
             [(''interface'', ac_Target a), (''oper_status'', is_Oper st), (''admin_status'', is_Admin st),
              (''if_index'', is_Index st), (''source'', ''snmp'')] False))
      else if ac_Type a = ''query_vlan_state''
      then return_tx (result ''VLAN state is not modelled by the simulator; mock response''
             [(''vlans'', ''1,10,20''), (''source'', ''mock'')] False)
      else if ac_Type a \<in> {''disable_interface'', ''enable_interface'', ''bounce_interface'', ''set_interface_description''}
      then switch_mutate trunc ctl reader dev a
      else unsupported ''switch'' a)"

definition ap_Execute :: "trunc \<Rightarrow> 'w controller \<Rightarrow> 'w reader option \<Rightarrow> 'w adapter_state adapter" where
  "ap_Execute trunc ctl reader dev a =
     (if ac_Type a = ''query_ap_clients''
      then (case reader of
              None \<Rightarrow> return_tx (result ''client count unavailable without an SNMP reader'' [(''source'', ''mock'')] False)
            | Some r \<Rightarrow> bind_tx (on_world (Clients trunc r dev)) (\<lambda>n.
                return_tx (result (d_ID dev @ '' has '' @ show_int n @ '' associated clients'')
                  [(''clients'', show_int n), (''source'', ''snmp'')] False)))
      else if ac_Type a = ''query_interface_state''
      then (case reader of
              None \<Rightarrow> unsupported ''access point (no reader)'' a
            | Some r \<Rightarrow> bind_tx (on_world (Interface trunc r dev (ac_Target a))) (\<lambda>st.
                return_tx (result (d_ID dev @ '' '' @ ac_Target a @ '' is '' @ is_Oper st)
                  [(''oper_status'', is_Oper st), (''admin_status'', is_Admin st), (''source'', ''snmp'')] False)))
      else if ac_Type a = ''restart_ap_service''
      then (let svc = par a ''service'' in
            if ac_DryRun a
            then return_tx (result (''dry-run: would restart service '' @ svc @ '' on '' @ d_ID dev) [(''service'', svc)] False)
            else bind_tx (on_world (ctl (d_ID dev) ''online'' fmempty)) (\<lambda>_.
                 return_tx (result (''restarted service '' @ svc @ '' on '' @ d_ID dev) [(''service'', svc)] True)))
      else if ac_Type a = ''update_ap_config''
      then (let key = d_ID dev @ ''/'' @ par a ''key'' in
            bind_tx (get_config key) (\<lambda>before.
            if ac_DryRun a
            then return_tx (result (''dry-run: would set '' @ par a ''key'' @ ''='' @ par a ''value'' @ '' on '' @ d_ID dev)
                   [(''before'', before)] False)
            else bind_tx (set_config key (par a ''value'')) (\<lambda>_.
                 return_tx (result (''set '' @ par a ''key'' @ '' on '' @ d_ID dev)
                   [(''before'', before), (''after'', par a ''value''), (''source'', ''mock'')] True))))
      else unsupported ''access point'' a)"

definition DefaultTasks :: strmap where
  "DefaultTasks = fmap_of_list
     [(''rotate-logs'', ''rotate and compress application logs''),
      (''clear-tmp'', ''remove stale files from the temporary directory''),
      (''refresh-cache'', ''rebuild the package metadata cache'')]"

definition host_Execute :: "trunc \<Rightarrow> 'w controller \<Rightarrow> 'w reader option \<Rightarrow> strmap option \<Rightarrow> 'w adapter_state adapter" where
  "host_Execute trunc ctl reader tasks_opt dev a =
     (if ac_Type a = ''restart_service''
      then (let svc = par a ''service'' in
            if ac_DryRun a
            then return_tx (result (''dry-run: would restart service '' @ svc @ '' on '' @ d_ID dev) [(''service'', svc)] False)
            else bind_tx (on_world (ctl (d_ID dev) ''online'' fmempty)) (\<lambda>_.
                 return_tx (result (''restarted service '' @ svc @ '' on '' @ d_ID dev) [(''service'', svc)] True)))
      else if ac_Type a = ''collect_diagnostics''
      then (case reader of
              None \<Rightarrow> return_tx (result ''no diagnostics available without an SNMP reader'' [(''source'', ''mock'')] False)
            | Some r \<Rightarrow> bind_tx (on_world (Host_facts trunc r dev)) (\<lambda>f.
                return_tx (result (''collected diagnostics from '' @ d_ID dev @ '': up '' @ show_int (hf_UptimeSecs f) @ ''s, cpu '' @
                    join_sep ''/'' (hf_CPUPercent f) @ ''%, memory '' @ hf_MemPercent f @ ''%'')
                  [(''hostname'', hf_Name f), (''uptime_seconds'', show_int (hf_UptimeSecs f)),
                   (''cpu_percent'', join_sep '','' (hf_CPUPercent f)), (''memory_percent'', hf_MemPercent f), (''source'', ''snmp'')] False)))
      else if ac_Type a = ''run_maintenance_task''
      then (let tasks = (case tasks_opt of None \<Rightarrow> DefaultTasks | Some t \<Rightarrow> t); task = par a ''task'' in
            case fmlookup tasks task of
              None \<Rightarrow> fail_tx (Errorf CategoryUnsupported
                (''task '' @ quote_q task @ '' is not a predefined maintenance task ('' @ join_sep '', '' (sorted_keys tasks) @ '')''))
            | Some desc \<Rightarrow>
                if ac_DryRun a
                then return_tx (result (''dry-run: would run '' @ task @ '' ('' @ desc @ '') on '' @ d_ID dev) [(''task'', task)] False)
                else return_tx (result (''ran '' @ task @ '' ('' @ desc @ '') on '' @ d_ID dev)
                       [(''task'', task), (''source'', ''mock'')] True))
      else unsupported ''host'' a)"


section \<open>The generic adapter\<close>

record endpoint =
  en_URLRef :: string
  en_Timeout :: duration

text \<open>A parsed URL, as far as the adapter looks at it; \<open>ul_Rest\<close> is everything else.\<close>

record url =
  ul_Scheme :: string
  ul_Host :: string
  ul_Path :: string
  ul_Rest :: string

text \<open>A POST: its URL, timeout, headers and body, a JSON object of strings.\<close>

record http_post =
  hp_URL :: url
  hp_Timeout :: duration
  hp_Headers :: strmap
  hp_Body :: strmap

record 'w generic =
  gn_Endpoints :: "(string, endpoint) fmap"
  gn_Resolve :: "(string \<Rightarrow> ('w, secret) prog) option"
  gn_ParseURL :: "string \<Rightarrow> url option"
  gn_Do :: "http_post \<Rightarrow> 'w \<Rightarrow> int option \<times> 'w"
  gn_Record :: "(event \<Rightarrow> ('w, unit) prog) option"
  gn_Invoke :: "(string \<Rightarrow> device \<Rightarrow> adapter_action \<Rightarrow> ('w, string) prog) option"
  gn_Now :: "('w, gotime) prog"

definition http_do :: "'w generic \<Rightarrow> http_post \<Rightarrow> ('w, int option) prog" where
  "http_do g post w = (case gn_Do g post w of (r, w') \<Rightarrow> (Done r, w'))"

definition webhook_post :: "device \<Rightarrow> adapter_action \<Rightarrow> endpoint \<Rightarrow> secret \<Rightarrow> url \<Rightarrow> http_post" where
  "webhook_post dev a ep secret u =
     \<lparr>hp_URL = u\<lparr>ul_Path := ul_Path u @ ''/v1/automation''\<rparr>, hp_Timeout = (if en_Timeout ep \<le> 0 then 2 * second else en_Timeout ep),
      hp_Headers = fmap_of_list
        ([(''Content-Type'', ''application/json''), (''Idempotency-Key'', ac_RequestID a)]
         @ (if Get_secret secret ''token'' \<noteq> [] then [(''Authorization'', ''Bearer '' @ Get_secret secret ''token'')] else [])),
      hp_Body = fmap_of_list [(''device'', d_ID dev), (''message'', par a ''message''), (''request_id'', ac_RequestID a),
                              (''correlation_id'', ac_CorrelationID a)]\<rparr>"

definition webhook :: "'w generic \<Rightarrow> 'w adapter" where
  "webhook g dev a =
     (let name = par a ''endpoint'' in
      if ac_DryRun a
      then return_tx (result (''dry-run: would notify endpoint '' @ name @ '' about '' @ d_ID dev) [(''endpoint'', name)] False)
      else case (fmlookup (gn_Endpoints g) name, gn_Resolve g) of
        (Some ep, Some resolve) \<Rightarrow>
          bind_tx (resolve (en_URLRef ep)) (\<lambda>secret.
          let base = (if Get_secret secret ''url'' = [] then Get_secret secret ''value'' else Get_secret secret ''url'');
              misconfigured = fail_tx (Errorf CategoryPermanent (''endpoint '' @ quote_q name @ '' is misconfigured'')) in
          case gn_ParseURL g base of
            None \<Rightarrow> misconfigured
          | Some u \<Rightarrow>
              if (ul_Scheme u \<noteq> ''http'' \<and> ul_Scheme u \<noteq> ''https'') \<or> ul_Host u = [] then misconfigured
              else bind_tx (http_do g (webhook_post dev a ep secret u)) (\<lambda>answer.
                case answer of
                  None \<Rightarrow> fail_tx (EDomain CategoryTransient ''webhook'' (EPlain (''request to endpoint '' @ quote_q name @ '' failed'')))
                | Some code \<Rightarrow>
                    if 500 \<le> code
                    then fail_tx (Errorf CategoryTransient (''endpoint '' @ quote_q name @ '' answered '' @ show_int code))
                    else if 300 \<le> code
                    then fail_tx (Errorf CategoryPermanent (''endpoint '' @ quote_q name @ '' answered '' @ show_int code))
                    else return_tx (result (''notified endpoint '' @ name @ '' ('' @ show_int code @ '')'')
                           [(''endpoint'', name), (''status'', show_int code)] True)))
      | _ \<Rightarrow> fail_tx (Errorf CategoryUnsupported (''endpoint '' @ quote_q name @ '' is not configured'')))"

definition recorded_event :: "device \<Rightarrow> adapter_action \<Rightarrow> gotime \<Rightarrow> event" where
  "recorded_event dev a now =
     \<lparr>e_EventID = StableID [''evt'', ''automation'', ac_RequestID a], e_CorrelationID = ac_CorrelationID a, e_DeviceID = d_ID dev,
      e_Type = ''automation.recorded'',
      e_Severity = (if par a ''severity'' = [] then SeverityInfo else severity_of (par a ''severity'')),
      e_Message = par a ''message'', e_Labels = fmempty, e_OccurredAt = now, e_ObservationID = [], e_Source = ''automation'',
      e_AlertKey = [], e_Resolves = False\<rparr>"

definition generic_Execute :: "'w generic \<Rightarrow> 'w adapter" where
  "generic_Execute g dev a =
     (if ac_Type a = ''noop''
      then return_tx (result (''noop on '' @ d_ID dev @ '' (dry_run='' @ show_bool (ac_DryRun a) @ '')'') [] False)
      else if ac_Type a = ''create_event_record''
      then (if ac_DryRun a then return_tx (result (''dry-run: would record event: '' @ par a ''message'') [] False)
            else case gn_Record g of
              None \<Rightarrow> fail_tx (Errorf CategoryUnsupported ''no event recorder configured'')
            | Some record \<Rightarrow>
                bind_tx (gn_Now g) (\<lambda>now.
                let ev = recorded_event dev a now in
                bind_tx (record ev) (\<lambda>_.
                return_tx (result (''recorded event '' @ e_EventID ev) [(''event_id'', e_EventID ev)] True))))
      else if ac_Type a = ''invoke_extension''
      then (let script = par a ''script'' in
            if ac_DryRun a
            then return_tx (result (''dry-run: would invoke extension '' @ script @ '' for '' @ d_ID dev) [] False)
            else case gn_Invoke g of
              None \<Rightarrow> fail_tx (Errorf CategoryUnsupported ''extensions are not available in this process'')
            | Some invoke \<Rightarrow>
                bind_tx (invoke script dev a) (\<lambda>msg. return_tx (result msg [(''script'', script)] True)))
      else if ac_Type a = ''send_webhook'' then webhook g dev a
      else unsupported ''generic'' a)"


section \<open>The standard set\<close>

text \<open>
  \<open>NewSet\<close> builds one adapter object per device type: the switch and the router adapter have their own
  descriptions, the access point adapter its own settings; hosts and the generic adapter keep nothing.
\<close>

record 'w fleet =
  ft_switch :: strmap
  ft_router :: strmap
  ft_ap :: strmap
  ft_world :: 'w

definition in_switch :: "'w adapter_state adapter \<Rightarrow> 'w fleet adapter" where
  "in_switch ad dev a s = (case ad dev a (ft_switch s, ft_world s) of (r, (c, w)) \<Rightarrow> (r, s\<lparr>ft_switch := c, ft_world := w\<rparr>))"

definition in_router :: "'w adapter_state adapter \<Rightarrow> 'w fleet adapter" where
  "in_router ad dev a s = (case ad dev a (ft_router s, ft_world s) of (r, (c, w)) \<Rightarrow> (r, s\<lparr>ft_router := c, ft_world := w\<rparr>))"

definition in_ap :: "'w adapter_state adapter \<Rightarrow> 'w fleet adapter" where
  "in_ap ad dev a s = (case ad dev a (ft_ap s, ft_world s) of (r, (c, w)) \<Rightarrow> (r, s\<lparr>ft_ap := c, ft_world := w\<rparr>))"

definition in_host :: "'w adapter_state adapter \<Rightarrow> 'w fleet adapter" where
  "in_host ad dev a s = (case ad dev a (fmempty, ft_world s) of (r, (c, w)) \<Rightarrow> (r, s\<lparr>ft_world := w\<rparr>))"

definition in_generic :: "'w adapter \<Rightarrow> 'w fleet adapter" where
  "in_generic ad dev a s = (case ad dev a (ft_world s) of (r, w) \<Rightarrow> (r, s\<lparr>ft_world := w\<rparr>))"

definition NewSet :: "trunc \<Rightarrow> 'w controller \<Rightarrow> 'w reader option \<Rightarrow> 'w generic \<Rightarrow> 'w fleet adapter_set" where
  "NewSet trunc ctl reader g =
     \<lparr>st_ByType = fmap_of_list
        [(''switch'', in_switch (switch_Execute trunc ctl reader)), (''router'', in_router (switch_Execute trunc ctl reader)),
         (''access_point'', in_ap (ap_Execute trunc ctl reader)), (''server'', in_host (host_Execute trunc ctl reader None)),
         (''workstation'', in_host (host_Execute trunc ctl reader None))],
      st_Generic = Some (in_generic (generic_Execute g))\<rparr>"


section \<open>Dry runs\<close>

text \<open>
  \<open>effects\<close> is what matters of the world: the state of the devices, the events recorded, the requests
  sent. Reading secrets and reading over SNMP leave it alone.
\<close>

definition quiet :: "('w \<Rightarrow> 'e) \<Rightarrow> ('w, 'a) prog \<Rightarrow> bool" where
  "quiet effects m \<longleftrightarrow> (\<forall>w. effects (snd (m w)) = effects w)"

definition reads_only :: "('w \<Rightarrow> 'e) \<Rightarrow> 'w reader \<Rightarrow> bool" where
  "reads_only effects r \<longleftrightarrow>
     (\<forall>ref. quiet effects (re_Resolve r ref))
   \<and> (\<forall>addr cred. quiet effects (re_Dial r addr cred))
   \<and> (\<forall>addr cred w sess w'. re_Dial r addr cred w = (Done sess, w') \<longrightarrow>
        (\<forall>oids. quiet effects (se_Get sess oids)) \<and> (\<forall>column. quiet effects (se_Walk sess column)))"

named_theorems quiet_intros \<open>programs that leave the effects alone\<close>

lemma quiet_return [quiet_intros]: "quiet f (return_tx a)"
  by (simp add: quiet_def return_tx_def)

lemma quiet_fail [quiet_intros]: "quiet f (fail_tx e)"
  by (simp add: quiet_def fail_tx_def)

lemma quiet_lift [quiet_intros]: "quiet f (lift_tx r)"
  by (auto simp: lift_tx_def intro: quiet_intros split: sum.splits)

lemma quiet_unsupported [quiet_intros]: "quiet f (unsupported k a)"
  by (simp add: unsupported_def quiet_intros)

lemma quiet_bind_result:
  assumes "quiet f m" "\<And>w a w'. m w = (Done a, w') \<Longrightarrow> quiet f (k a)"
  shows "quiet f (bind_tx m k)"
  unfolding quiet_def
proof
  fix w
  obtain r w' where r: "m w = (r, w')" by fastforce
  with assms(1) have "f w' = f w" by (metis quiet_def snd_conv)
  with r assms(2) show "f (snd (bind_tx m k w)) = f w"
    by (cases r) (auto simp: bind_tx_def quiet_def)
qed

lemma quiet_bind [quiet_intros]: "quiet f m \<Longrightarrow> (\<And>a. quiet f (k a)) \<Longrightarrow> quiet f (bind_tx m k)"
  by (rule quiet_bind_result)

lemma quiet_if [quiet_intros]: "quiet f m \<Longrightarrow> quiet f n \<Longrightarrow> quiet f (if b then m else n)"
  by simp

lemma reader_session_quiet:
  assumes "reads_only f r"
  shows "quiet f (reader_session r dev)"
    and "reader_session r dev w = (Done s, w') \<Longrightarrow> (\<forall>oids. quiet f (se_Get s oids)) \<and> (\<forall>column. quiet f (se_Walk s column))"
proof -
  show "quiet f (reader_session r dev)"
    using assms by (auto simp: reader_session_def reads_only_def intro!: quiet_intros)
  assume "reader_session r dev w = (Done s, w')"
  then obtain cred w1 where "re_Dial r (d_ManagementAddress dev) cred w1 = (Done s, w')"
    by (auto simp: reader_session_def bind_tx_def lift_tx_def return_tx_def fail_tx_def
             split: prod.splits outcome.splits sum.splits)
  with assms show "(\<forall>oids. quiet f (se_Get s oids)) \<and> (\<forall>column. quiet f (se_Walk s column))"
    unfolding reads_only_def by blast
qed

lemma reads_quiet [quiet_intros]:
  assumes "reads_only f r"
  shows "quiet f (Interface trunc r dev name)" "quiet f (Clients trunc r dev)" "quiet f (Host_facts trunc r dev)"
proof -
  note sess = reader_session_quiet [OF assms]
  show "quiet f (Interface trunc r dev name)"
    unfolding Interface_def Let_def
    by (rule quiet_bind_result [OF sess(1)]) (auto dest!: sess(2) intro!: quiet_intros)
  show "quiet f (Clients trunc r dev)"
    unfolding Clients_def Let_def
    by (rule quiet_bind_result [OF sess(1)]) (auto dest!: sess(2) intro!: quiet_intros split: list.splits)
  show "quiet f (Host_facts trunc r dev)"
    unfolding Host_facts_def Let_def
    by (rule quiet_bind_result [OF sess(1)]) (auto dest!: sess(2) intro!: quiet_intros)
qed


text \<open>The effects of an adapter's state: its configuration and the effects on the world.\<close>

definition with_config :: "('w \<Rightarrow> 'e) \<Rightarrow> 'w adapter_state \<Rightarrow> strmap \<times> 'e" where
  "with_config effects s = (fst s, effects (snd s))"

lemma quiet_on_world [quiet_intros]: "quiet f m \<Longrightarrow> quiet (with_config f) (on_world m)"
  by (auto simp: quiet_def with_config_def on_world_def split: prod.splits) (metis snd_conv)

lemma quiet_get_config [quiet_intros]: "quiet f (get_config k)"
  by (simp add: quiet_def get_config_def)

text \<open>What a program returns when it succeeds.\<close>

definition yields :: "('a \<Rightarrow> bool) \<Rightarrow> ('s, 'a) prog \<Rightarrow> bool" where
  "yields P m \<longleftrightarrow> (\<forall>s a s'. m s = (Done a, s') \<longrightarrow> P a)"

named_theorems yields_intros \<open>what programs return\<close>

lemma yields_return [yields_intros]: "P a \<Longrightarrow> yields P (return_tx a)"
  by (simp add: yields_def return_tx_def)

lemma yields_fail [yields_intros]: "yields P (fail_tx e)" "yields P (unsupported k a)"
  by (simp_all add: yields_def fail_tx_def unsupported_def)

lemma yields_bind [yields_intros]: "(\<And>a. yields P (k a)) \<Longrightarrow> yields P (bind_tx m k)"
  by (auto simp: yields_def bind_tx_def split: prod.splits outcome.splits)

lemma yields_if [yields_intros]: "yields P m \<Longrightarrow> yields P n \<Longrightarrow> yields P (if b then m else n)"
  by simp

lemma result_changed [simp]: "rs_Changed (result msg kv b) = b"
  by (simp add: result_def)

definition dry :: "('s \<Rightarrow> 'e) \<Rightarrow> 's adapter \<Rightarrow> bool" where
  "dry effects ad \<longleftrightarrow> (\<forall>dev a. ac_DryRun a \<longrightarrow> quiet effects (ad dev a) \<and> yields (\<lambda>r. \<not> rs_Changed r) (ad dev a))"

definition reader_ok :: "('w \<Rightarrow> 'e) \<Rightarrow> 'w reader option \<Rightarrow> bool" where
  "reader_ok effects reader \<longleftrightarrow> (\<forall>r. reader = Some r \<longrightarrow> reads_only effects r)"

lemma quiet_interfaceState [quiet_intros]:
  "reader_ok f reader \<Longrightarrow> quiet (with_config f) (interfaceState trunc reader dev iface)"
  by (auto simp: interfaceState_def reader_ok_def intro!: quiet_intros split: option.splits)

lemma dry_switch: "reader_ok f reader \<Longrightarrow> dry (with_config f) (switch_Execute trunc ctl reader)"
  by (auto simp: dry_def switch_Execute_def switch_mutate_def Let_def intro!: quiet_intros yields_intros)

lemma dry_ap: "reader_ok f reader \<Longrightarrow> dry (with_config f) (ap_Execute trunc ctl reader)"
  by (auto simp: dry_def ap_Execute_def Let_def reader_ok_def intro!: quiet_intros yields_intros split: option.splits)

lemma dry_host: "reader_ok f reader \<Longrightarrow> dry (with_config f) (host_Execute trunc ctl reader tasks)"
  by (auto simp: dry_def host_Execute_def Let_def reader_ok_def intro!: quiet_intros yields_intros split: option.splits)

lemma dry_generic: "dry f (generic_Execute g)"
  by (auto simp: dry_def generic_Execute_def webhook_def Let_def intro!: quiet_intros yields_intros)

definition fleet_effects :: "('w \<Rightarrow> 'e) \<Rightarrow> 'w fleet \<Rightarrow> strmap \<times> strmap \<times> strmap \<times> 'e" where
  "fleet_effects effects s = (ft_switch s, ft_router s, ft_ap s, effects (ft_world s))"

lemma dry_embedded:
  "dry (with_config f) ad \<Longrightarrow> dry (fleet_effects f) (in_switch ad)"
  "dry (with_config f) ad \<Longrightarrow> dry (fleet_effects f) (in_router ad)"
  "dry (with_config f) ad \<Longrightarrow> dry (fleet_effects f) (in_ap ad)"
  "dry (with_config f) ad \<Longrightarrow> dry (fleet_effects f) (in_host ad)"
  "dry f gd \<Longrightarrow> dry (fleet_effects f) (in_generic gd)"
  unfolding dry_def quiet_def yields_def fleet_effects_def with_config_def
    in_switch_def in_router_def in_ap_def in_host_def in_generic_def
  by (auto split: prod.splits) (metis fst_conv snd_conv)+

lemma dry_NewSet:
  assumes "reader_ok f reader" "For_adapter (NewSet trunc ctl reader g) dev action = Inr ad"
  shows "dry (fleet_effects f) ad"
  using assms(2) dry_embedded(1,2) [OF dry_switch [OF assms(1)]] dry_embedded(3) [OF dry_ap [OF assms(1)]]
    dry_embedded(4) [OF dry_host [OF assms(1)]] dry_embedded(5) [OF dry_generic [of f g]]
  by (auto simp: For_adapter_def NewSet_def split: if_splits option.splits)

text \<open>
  A dry run changes nothing (C21). DryRun is a hard instruction: whichever adapter of the standard set is chosen,
  executing an action with it leaves the mock configurations and the effects on the world as they
  were, provided SNMP reads have no effects, and a result never claims a change.
\<close>

theorem dry_run_changes_nothing:
  assumes "reader_ok effects reader" "For_adapter (NewSet trunc ctl reader g) dev action = Inr ad"
    and "ac_DryRun a" "ad dev a s = (r, s')"
  shows "fleet_effects effects s' = fleet_effects effects s \<and> (\<forall>res. r = Done res \<longrightarrow> \<not> rs_Changed res)"
proof -
  have "dry (fleet_effects effects) ad" using assms(1,2) by (rule dry_NewSet)
  with assms(3,4) show ?thesis
    unfolding dry_def quiet_def yields_def by (metis snd_conv)
qed

text \<open>A world that counts what happens to the devices; its controller counts, its reader fails to dial.\<close>

definition ex_ctl :: "int controller" where
  "ex_ctl i ev args w = (Done (), w + 1)"

definition ex_generic :: "int generic" where
  "ex_generic = \<lparr>gn_Endpoints = fmempty, gn_Resolve = None, gn_ParseURL = \<lambda>t. None, gn_Do = \<lambda>post w. (None, w + 1),
     gn_Record = None, gn_Invoke = None, gn_Now = return_tx 0\<rparr>"

definition ex_restart :: "bool \<Rightarrow> adapter_action" where
  "ex_restart dryrun = \<lparr>ac_Type = ''restart_service'', ac_Target = [], ac_Params = fmap_of_list [(''service'', ''observer-agent'')],
     ac_DryRun = dryrun, ac_RequestID = ''q1'', ac_CorrelationID = ''c1''\<rparr>"

definition ex_fleet :: "int fleet" where
  "ex_fleet = \<lparr>ft_switch = fmempty, ft_router = fmempty, ft_ap = fmempty, ft_world = 0\<rparr>"

lemma ex_adapter:
  "For_adapter (NewSet (\<lambda>f. 0) ex_ctl None ex_generic) ex_host ''restart_service'' = Inr (in_host (host_Execute (\<lambda>f. 0) ex_ctl None None))"
  by (simp add: For_adapter_def NewSet_def genericActions_def ex_host_def)

theorem dry_run_changes_nothing_witness:
  "\<exists>r s'. in_host (host_Execute (\<lambda>f. 0) ex_ctl None None) ex_host (ex_restart True) ex_fleet = (r, s')
     \<and> fleet_effects id s' = fleet_effects id ex_fleet
     \<and> ft_world (snd (in_host (host_Execute (\<lambda>f. 0) ex_ctl None None) ex_host (ex_restart False) ex_fleet)) = 1"
proof -
  obtain r s' where run: "in_host (host_Execute (\<lambda>f. 0) ex_ctl None None) ex_host (ex_restart True) ex_fleet = (r, s')" by fastforce
  have live: "ft_world (snd (in_host (host_Execute (\<lambda>f. 0) ex_ctl None None) ex_host (ex_restart False) ex_fleet)) = 1"
    by (simp add: in_host_def host_Execute_def ex_restart_def ex_fleet_def ex_ctl_def Let_def bind_tx_def on_world_def return_tx_def)
  from dry_run_changes_nothing [OF _ ex_adapter, of id "ex_restart True" ex_fleet r s'] run live show ?thesis
    by (simp add: reader_ok_def ex_restart_def)
qed

end
