(* ===== verification/Automation.thy ===== *)
theory Automation
  imports Policy Adapters Inventory Mem_Store Subjects
begin

text \<open>
  The automation engine and its worker: \<open>internal/automation/engine.go\<close> and \<open>worker.go\<close>. The engine is
  written against the store interface \<open>AutomationStore\<close>, here the record \<open>autoops\<close> of fallible
  operations; \<open>memAuto\<close> is that interface on the in-memory store. The clock, the script proposer and
  the adapters are programs on the same state.
\<close>


section \<open>The store interface\<close>

record 's autoops =
  ao_Insert :: "automation_request \<Rightarrow> outbox_message list \<Rightarrow> ('s, bool) prog"
  ao_Due :: "gotime \<Rightarrow> duration \<Rightarrow> int \<Rightarrow> ('s, automation_request list) prog"
  ao_Claim :: "string \<Rightarrow> gotime \<Rightarrow> duration \<Rightarrow> ('s, bool) prog"
  ao_SetStatus :: "string \<Rightarrow> automation_status list \<Rightarrow> automation_status \<Rightarrow> ('s, bool) prog"
  ao_Approve :: "string \<Rightarrow> string \<Rightarrow> ('s, bool) prog"
  ao_Complete :: "automation_result \<Rightarrow> outbox_message list \<Rightarrow> ('s, bool) prog"
  ao_AwaitingBefore :: "gotime \<Rightarrow> ('s, automation_request list) prog"
  ao_History :: "string \<Rightarrow> string \<Rightarrow> string \<Rightarrow> gotime \<Rightarrow> ('s, automation_request list) prog"
  ao_Attempts :: "string \<Rightarrow> string \<Rightarrow> ('s, int) prog"
  ao_AlertFiring :: "string \<Rightarrow> ('s, bool) prog"

definition on_store :: "(mem_store \<Rightarrow> 'a \<times> mem_store) \<Rightarrow> (mem_store \<times> 'x, 'a) prog" where
  "on_store f s = (case f (fst s) of (a, st) \<Rightarrow> (Done a, (st, snd s)))"

definition asks :: "(mem_store \<Rightarrow> 'a) \<Rightarrow> (mem_store \<times> 'x, 'a) prog" where
  "asks f s = (Done (f (fst s)), s)"

definition complete_on_store :: "automation_result \<Rightarrow> outbox_message list \<Rightarrow> (mem_store \<times> 'x, bool) prog" where
  "complete_on_store res msgs s =
     (case CompleteAutomation res msgs (fst s) of
        (Inr b, st) \<Rightarrow> (Done b, (st, snd s)) | (Inl e, st) \<Rightarrow> (Fails e, (st, snd s)))"

definition memAuto :: "(mem_store \<times> 'x) autoops" where
  "memAuto =
     \<lparr>ao_Insert = \<lambda>req msgs. on_store (InsertAutomationRequest req msgs),
      ao_Due = \<lambda>now lease limit. asks (DueAutomation now lease limit),
      ao_Claim = \<lambda>i now lease. on_store (ClaimAutomation i now lease),
      ao_SetStatus = \<lambda>i from to. on_store (SetAutomationStatus i from to),
      ao_Approve = \<lambda>i by_whom. on_store (ApproveAutomation i by_whom),
      ao_Complete = complete_on_store,
      ao_AwaitingBefore = \<lambda>cutoff. asks (AwaitingApprovalBefore cutoff),
      ao_History = \<lambda>p d t since. asks (AutomationHistory p d t since),
      ao_Attempts = \<lambda>p k. asks (AttemptsForAlert p k),
      ao_AlertFiring = \<lambda>k. asks (AlertFiring_for k)\<rparr>"


section \<open>The engine\<close>

record 's engine =
  ge_Policies :: policies
  ge_Zones :: zones
  ge_Store :: "'s autoops"
  ge_Devices :: registry
  ge_Adapters :: "'s adapter_set"
  ge_Proposer :: "(policy \<Rightarrow> event \<Rightarrow> device \<Rightarrow> ('s, proposal option) prog) option"
  ge_GlobalDryRun :: bool
  ge_Lease :: duration
  ge_BatchSize :: int
  ge_Now :: "('s, gotime) prog"

definition lease_of :: "'s engine \<Rightarrow> duration" where
  "lease_of e = (if 0 < ge_Lease e then ge_Lease e else 5 * minute)"

definition engine_dryRun :: "'s engine \<Rightarrow> policy \<Rightarrow> bool" where
  "engine_dryRun e p \<longleftrightarrow> ge_GlobalDryRun e \<or> policy_dryRun p"

definition requestID :: "string \<Rightarrow> string \<Rightarrow> string" where
  "requestID policyID eventID = StableID [''auto'', policyID, eventID]"

text \<open>A call whose error is looked at instead of returned, and one whose error is dropped.\<close>

definition attempt :: "('s, 'a) prog \<Rightarrow> ('s, goerr + 'a) prog" where
  "attempt m s = (case m s of (Done a, s') \<Rightarrow> (Done (Inr a), s') | (Fails e, s') \<Rightarrow> (Done (Inl e), s') | (Panics, s') \<Rightarrow> (Panics, s'))"

definition propose :: "'s engine \<Rightarrow> policy \<Rightarrow> event \<Rightarrow> device \<Rightarrow> ('s, proposal option) prog" where
  "propose e pol ev dev =
     (case po_Action pol of
        Some a \<Rightarrow> return_tx (Some \<lparr>pp_Action = ar_Type a, pp_Target = expand (ar_Target a) ev,
                    pp_Params = fmmap (\<lambda>v. expand v ev) (ar_Params a),
                    pp_Reason = ''policy '' @ po_ID pol @ '' reacting to '' @ e_Type ev\<rparr>)
      | None \<Rightarrow>
          (case ge_Proposer e of
             None \<Rightarrow> fail_tx (Errorf CategoryUnsupported (''policy '' @ po_ID pol @ '' needs a script proposer but none is configured''))
           | Some propose_with \<Rightarrow> propose_with pol ev dev))"

definition script_allowed :: "policy \<Rightarrow> string \<Rightarrow> bool" where
  "script_allowed pol action = (case po_Proposal pol of None \<Rightarrow> True | Some pf \<Rightarrow> action \<in> set (pf_AllowedActions pf))"

definition checkProposal :: "policy \<Rightarrow> proposal \<Rightarrow> device \<Rightarrow> goerr option" where
  "checkProposal pol pr dev =
     (if \<not> script_allowed pol (pp_Action pr)
      then Some (Errorf CategoryValidation
        (''action '' @ quote_q (pp_Action pr) @ '' is not among the actions policy '' @ po_ID pol @ '' allows a script to propose''))
      else Validate_proposal pr dev)"

definition requestMessage :: "automation_request \<Rightarrow> goerr + outbox_message" where
  "requestMessage req =
     bind_res (Encode json_request req) (\<lambda>payload.
     Inr \<lparr>om_ID = 0, om_Subject = SubjectAutomationRequest, om_MsgID = q_RequestID req, om_Payload = PRequest payload,
          om_Headers = message_headers AutomationRequestV1 (q_CorrelationID req)\<rparr>)"

definition resultMessage :: "automation_result \<Rightarrow> goerr + outbox_message" where
  "resultMessage res =
     bind_res (Encode json_result res) (\<lambda>payload.
     Inr \<lparr>om_ID = 0, om_Subject = SubjectAutomationResult, om_MsgID = u_RequestID res @ ''.result'', om_Payload = PResult payload,
          om_Headers = message_headers AutomationResultV1 (u_CorrelationID res)\<rparr>)"

definition finish ::
    "'s engine \<Rightarrow> automation_request \<Rightarrow> automation_status \<Rightarrow> string \<Rightarrow> strmap \<Rightarrow> gotime \<Rightarrow> gotime \<Rightarrow> ('s, bool) prog" where
  "finish e req status message details started finished =
     (let res = \<lparr>u_RequestID = q_RequestID req, u_CorrelationID = q_CorrelationID req, u_Status = status,
                 u_DryRun = (q_DryRun req \<or> ge_GlobalDryRun e), u_Message = message, u_Details = details,
                 u_StartedAt = started, u_FinishedAt = finished\<rparr> in
      bind_tx (lift_tx (resultMessage res)) (\<lambda>msg. ao_Complete (ge_Store e) res [msg]))"

definition gate_detail :: "string \<Rightarrow> strmap" where
  "gate_detail gate = fmap_of_list [(''gate'', gate)]"


section \<open>Stage one: requests\<close>

text \<open>
  What the loop body of \<open>HandleEvent\<close> knows once the proposer has answered: a proposal that is checked,
  or the error of the proposer.
\<close>

definition denial :: "policy \<Rightarrow> goerr + proposal \<Rightarrow> device \<Rightarrow> string option" where
  "denial pol pr dev =
     (case pr of
        Inl perr \<Rightarrow> Some (''proposal failed: '' @ err_text perr)
      | Inr prop \<Rightarrow> map_option (\<lambda>err. ''proposal rejected: '' @ err_text err) (checkProposal pol prop dev))"

definition new_request :: "'s engine \<Rightarrow> policy \<Rightarrow> event \<Rightarrow> device \<Rightarrow> goerr + proposal \<Rightarrow> gotime \<Rightarrow> automation_request" where
  "new_request e pol ev dev pr created =
     (let base = \<lparr>q_RequestID = requestID (po_ID pol) (e_EventID ev), q_CorrelationID = e_CorrelationID ev, q_PolicyID = po_ID pol,
                 q_EventID = e_EventID ev, q_AlertKey = e_AlertKey ev, q_DeviceID = d_ID dev, q_Action = [], q_Target = [],
                 q_Params = fmempty, q_Reason = [],
                 q_Proposer = (case po_Proposal pol of None \<Rightarrow> ''policy'' | Some pf \<Rightarrow> ''script:'' @ pf_Script pf),
                 q_DryRun = engine_dryRun e pol, q_Status = AutomationPending,
                 q_NotBefore = e_OccurredAt ev + cd_Duration (po_Conditions pol), q_CreatedAt = created, q_ApprovedBy = []\<rparr>
      in case pr of
           Inl _ \<Rightarrow> base
         | Inr prop \<Rightarrow> base\<lparr>q_Action := pp_Action prop, q_Target := pp_Target prop, q_Params := pp_Params prop,
                            q_Reason := pp_Reason prop\<rparr>)"

definition denied_request :: "automation_request \<Rightarrow> gotime \<Rightarrow> automation_request" where
  "denied_request req now =
     (let req1 = req\<lparr>q_Status := AutomationDenied, q_NotBefore := now\<rparr>
      in if q_Action req1 = [] then req1\<lparr>q_Action := ''none''\<rparr> else req1)"

text \<open>The requests created so far travel with the error, as the code returns both.\<close>

definition record_request ::
    "'s engine \<Rightarrow> automation_request \<Rightarrow> string option \<Rightarrow> automation_request list \<Rightarrow> ('s, automation_request list \<times> goerr option) prog" where
  "record_request e req denied created =
     (case requestMessage req of
        Inl err \<Rightarrow> return_tx (created, Some err)
      | Inr msg \<Rightarrow>
          bind_tx (attempt (ao_Insert (ge_Store e) req [msg])) (\<lambda>ins.
          case ins of
            Inl err \<Rightarrow> return_tx (created, Some err)
          | Inr inserted \<Rightarrow>
              if \<not> inserted then return_tx (created, None)
              else case denied of
                None \<Rightarrow> return_tx (created @ [req], None)
              | Some why \<Rightarrow>
                  bind_tx (ge_Now e) (\<lambda>t1. bind_tx (ge_Now e) (\<lambda>t2.
                  bind_tx (attempt (finish e req AutomationDenied why (gate_detail ''proposal'') t1 t2)) (\<lambda>fin.
                  return_tx (created @ [req], case fin of Inl err \<Rightarrow> Some err | Inr _ \<Rightarrow> None))))))"

definition handle_policy ::
    "'s engine \<Rightarrow> event \<Rightarrow> device \<Rightarrow> policy \<Rightarrow> automation_request list \<Rightarrow> ('s, automation_request list \<times> goerr option) prog" where
  "handle_policy e ev dev pol created =
     bind_tx (attempt (propose e pol ev dev)) (\<lambda>answer.
     let go = (\<lambda>pr. bind_tx (ge_Now e) (\<lambda>t.
           let req = new_request e pol ev dev pr t in
           case denial pol pr dev of
             None \<Rightarrow> record_request e req None created
           | Some why \<Rightarrow> bind_tx (ge_Now e) (\<lambda>t'. record_request e (denied_request req t') (Some why) created))) in
     case answer of
       Inl perr \<Rightarrow> if IsRetryable perr then return_tx (created, Some perr) else go (Inl perr)
     | Inr None \<Rightarrow> return_tx (created, None)
     | Inr (Some prop) \<Rightarrow> go (Inr prop))"

fun handle_policies ::
    "'s engine \<Rightarrow> event \<Rightarrow> device \<Rightarrow> policy list \<Rightarrow> automation_request list \<Rightarrow> ('s, automation_request list \<times> goerr option) prog" where
  "handle_policies e ev dev [] created = return_tx (created, None)"
| "handle_policies e ev dev (pol # pols) created =
     bind_tx (handle_policy e ev dev pol created) (\<lambda>(created', err).
     case err of Some _ \<Rightarrow> return_tx (created', err) | None \<Rightarrow> handle_policies e ev dev pols created')"

definition HandleEvent :: "'s engine \<Rightarrow> event \<Rightarrow> ('s, automation_request list \<times> goerr option) prog" where
  "HandleEvent e ev =
     (if e_Resolves ev \<or> e_AlertKey ev = [] then return_tx ([], None)
      else case Get_device (ge_Devices e) (e_DeviceID ev) of
        None \<Rightarrow> return_tx ([], None)
      | Some dev \<Rightarrow> handle_policies e ev dev (Match_policies (ge_Policies e) ev dev) [])"


section \<open>Stage two: gates and execution\<close>

definition deny :: "'s engine \<Rightarrow> automation_request \<Rightarrow> gotime \<Rightarrow> string \<Rightarrow> string \<Rightarrow> ('s, unit) prog" where
  "deny e req now gate msg =
     bind_tx (ge_Now e) (\<lambda>t. bind_tx (finish e req AutomationDenied msg (gate_detail gate) now t) (\<lambda>_. return_tx ()))"

definition release :: "'s engine \<Rightarrow> automation_request \<Rightarrow> goerr \<Rightarrow> ('s, 'a) prog" where
  "release e req cause =
     bind_tx (attempt (ao_SetStatus (ge_Store e) (q_RequestID req) [AutomationExecuting]
                (if q_ApprovedBy req \<noteq> [] then AutomationApproved else AutomationPending))) (\<lambda>_. fail_tx cause)"

text \<open>A store query of the gates: an error puts the request back and is returned.\<close>

definition query :: "'s engine \<Rightarrow> automation_request \<Rightarrow> ('s, 'a) prog \<Rightarrow> ('s, 'a) prog" where
  "query e req m = bind_tx (attempt m) (\<lambda>r. case r of Inl err \<Rightarrow> release e req err | Inr a \<Rightarrow> return_tx a)"

definition execute :: "'s engine \<Rightarrow> automation_request \<Rightarrow> device \<Rightarrow> bool \<Rightarrow> ('s, unit) prog" where
  "execute e req dev dry_run =
     bind_tx (ge_Now e) (\<lambda>started.
     case For_adapter (ge_Adapters e) dev (q_Action req) of
       Inl err \<Rightarrow>
         bind_tx (ge_Now e) (\<lambda>t.
         bind_tx (finish e req AutomationDenied (''no adapter: '' @ err_text err) (gate_detail ''adapter'') started t) (\<lambda>_. return_tx ()))
     | Inr adapter \<Rightarrow>
         bind_tx (attempt (adapter dev
           \<lparr>ac_Type = q_Action req, ac_Target = q_Target req, ac_Params = q_Params req, ac_DryRun = dry_run,
            ac_RequestID = q_RequestID req, ac_CorrelationID = q_CorrelationID req\<rparr>)) (\<lambda>answer.
         bind_tx (ge_Now e) (\<lambda>finished.
         bind_tx (case answer of
             Inl xerr \<Rightarrow> finish e req AutomationFailed (err_text xerr)
               (fmap_of_list [(''error_category'', category_text (CategoryOf xerr))]) started finished
           | Inr res \<Rightarrow> finish e req (if dry_run then AutomationDryRun else AutomationSucceeded) (rs_Message res)
               (fmupd ''changed'' (show_bool (rs_Changed res)) (rs_Details res)) started finished) (\<lambda>_. return_tx ()))))"

definition proposal_of :: "automation_request \<Rightarrow> proposal" where
  "proposal_of req = \<lparr>pp_Action = q_Action req, pp_Target = q_Target req, pp_Params = q_Params req, pp_Reason = q_Reason req\<rparr>"

definition run_dry :: "'s engine \<Rightarrow> policy \<Rightarrow> automation_request \<Rightarrow> bool" where
  "run_dry e pol req \<longleftrightarrow> q_DryRun req \<or> ge_GlobalDryRun e \<or> policy_dryRun pol"

text \<open>The gates that ask the store: cooldown, attempts, approval; then the action.\<close>

definition process_history :: "'s engine \<Rightarrow> automation_request \<Rightarrow> policy \<Rightarrow> device \<Rightarrow> gotime \<Rightarrow> ('s, unit) prog" where
  "process_history e req pol dev now =
     bind_tx (if 0 < sf_Cooldown (po_Safety pol)
              then query e req (ao_History (ge_Store e) (po_ID pol) (d_ID dev) (q_Target req) (now - sf_Cooldown (po_Safety pol)))
              else return_tx []) (\<lambda>prior.
     if prior \<noteq> []
     then deny e req now ''cooldown'' (''cooldown of '' @ show_duration (sf_Cooldown (po_Safety pol)) @
            '' has not elapsed since request '' @ q_RequestID (last prior))
     else let limit = cd_RetriesBelow (po_Conditions pol) in
     bind_tx (if 0 < limit \<and> q_AlertKey req \<noteq> []
              then bind_tx (query e req (ao_Attempts (ge_Store e) (po_ID pol) (q_AlertKey req))) (\<lambda>n.
                   return_tx (if limit \<le> n then Some n else None))
              else return_tx None) (\<lambda>exceeded.
     if exceeded \<noteq> None
     then deny e req now ''retries'' (''already attempted '' @ show_int (the exceeded) @ '' time(s) for this alert (limit '' @ show_int limit @ '')'')
     else if sf_RequireApproval (po_Safety pol) \<and> q_ApprovedBy req = []
     then bind_tx (ao_SetStatus (ge_Store e) (q_RequestID req) [AutomationExecuting] AutomationAwaitingApproval) (\<lambda>_. return_tx ())
     else execute e req dev (run_dry e pol req)))"

text \<open>The gates that look at the request, the policy, the device and the clock only.\<close>

definition static_gate :: "'s engine \<Rightarrow> automation_request \<Rightarrow> policy \<Rightarrow> device \<Rightarrow> gotime \<Rightarrow> (string \<times> string) option" where
  "static_gate e req pol dev now =
     (case Validate_proposal (proposal_of req) dev of
        Some err \<Rightarrow> Some (''validation'', err_text err)
      | None \<Rightarrow>
          (let spec = the (fmlookup Catalog (q_Action req)); script = str_at (q_Params req) ''script'' in
           if \<not> script_allowed pol (q_Action req) then Some (''policy'', ''policy no longer allows '' @ q_Action req)
           else if q_Action req = ''invoke_extension'' \<and> \<not> ExtensionApproved (ge_Policies e) script
           then Some (''extension'', ''script '' @ quote_q script @ '' is not on the approved extension list'')
           else if \<not> HasTag dev (sf_RequireTag (po_Safety pol))
           then Some (''tag'', ''device lacks the required tag '' @ quote_q (sf_RequireTag (po_Safety pol)))
           else if as_Capability spec \<noteq> [] \<and> \<not> HasCapability dev (as_Capability spec)
           then Some (''capability'', ''device does not advertise capability '' @ quote_q (as_Capability spec))
           else if \<not> run_dry e pol req \<and> as_Disruptive spec \<and> \<not> Allowlisted (ge_Policies e) (d_ID dev)
           then Some (''allowlist'', ''live mutation requires the device to be on the automation allowlist'')
           else case InMaintenance (ge_Zones e) (ge_Policies e) now dev of
             Some wid \<Rightarrow> Some (''maintenance'', ''device is in maintenance window '' @ quote_q wid)
           | None \<Rightarrow> None))"

definition process :: "'s engine \<Rightarrow> automation_request \<Rightarrow> ('s, unit) prog" where
  "process e req =
     bind_tx (ge_Now e) (\<lambda>now.
     case Get_policy (ge_Policies e) (q_PolicyID req) of
       None \<Rightarrow> deny e req now ''policy'' ''policy no longer exists''
     | Some pol \<Rightarrow>
         (let unknown = deny e req now ''device'' ''device is unknown or disabled'' in
          case Get_device (ge_Devices e) (q_DeviceID req) of
            None \<Rightarrow> unknown
          | Some dev \<Rightarrow>
              if \<not> d_Enabled dev then unknown
              else bind_tx (if q_AlertKey req \<noteq> [] then query e req (ao_AlertFiring (ge_Store e) (q_AlertKey req))
                            else return_tx True) (\<lambda>firing.
                   if \<not> firing
                   then bind_tx (ge_Now e) (\<lambda>t.
                        bind_tx (finish e req AutomationExpired ''the alert resolved before the action was due'' (gate_detail ''alert'') now t)
                          (\<lambda>_. return_tx ()))
                   else case static_gate e req pol dev now of
                     Some (gate, msg) \<Rightarrow> deny e req now gate msg
                   | None \<Rightarrow> process_history e req pol dev now)))"


section \<open>The ticker\<close>

definition approval_timeout :: "'s engine \<Rightarrow> automation_request \<Rightarrow> duration" where
  "approval_timeout e req =
     (case Get_policy (ge_Policies e) (q_PolicyID req) of
        Some pol \<Rightarrow> if 0 < sf_ApprovalTimeout (po_Safety pol) then sf_ApprovalTimeout (po_Safety pol) else DefaultApprovalTimeout
      | None \<Rightarrow> DefaultApprovalTimeout)"

fun expire_each :: "'s engine \<Rightarrow> gotime \<Rightarrow> automation_request list \<Rightarrow> ('s, unit) prog" where
  "expire_each e now [] = return_tx ()"
| "expire_each e now (req # reqs) =
     bind_tx (if approval_timeout e req \<le> time_sub now (q_CreatedAt req)
              then finish e req AutomationExpired ''approval not granted in time'' (gate_detail ''approval'') now now
              else return_tx False) (\<lambda>_. expire_each e now reqs)"

definition expireApprovals :: "'s engine \<Rightarrow> gotime \<Rightarrow> ('s, unit) prog" where
  "expireApprovals e now = bind_tx (ao_AwaitingBefore (ge_Store e) now) (expire_each e now)"

text \<open>The loop over the due requests, with the number processed; an error stops it.\<close>

fun tick_each :: "'s engine \<Rightarrow> gotime \<Rightarrow> automation_request list \<Rightarrow> int \<Rightarrow> ('s, int \<times> goerr option) prog" where
  "tick_each e now [] n = return_tx (n, None)"
| "tick_each e now (req # reqs) n =
     bind_tx (attempt (ao_Claim (ge_Store e) (q_RequestID req) now (lease_of e))) (\<lambda>claim.
     case claim of
       Inl err \<Rightarrow> return_tx (n, Some err)
     | Inr ok \<Rightarrow>
         if \<not> ok then tick_each e now reqs n
         else bind_tx (attempt (process e req)) (\<lambda>r.
              case r of Inl err \<Rightarrow> return_tx (n, Some err) | Inr _ \<Rightarrow> tick_each e now reqs (n + 1)))"

definition Tick :: "'s engine \<Rightarrow> ('s, int \<times> goerr option) prog" where
  "Tick e =
     bind_tx (ge_Now e) (\<lambda>now.
     bind_tx (attempt (expireApprovals e now)) (\<lambda>r.
     case r of
       Inl err \<Rightarrow> return_tx (0, Some err)
     | Inr _ \<Rightarrow>
         bind_tx (attempt (ao_Due (ge_Store e) now (lease_of e) (if ge_BatchSize e \<le> 0 then 50 else ge_BatchSize e))) (\<lambda>due.
         case due of Inl err \<Rightarrow> return_tx (0, Some err) | Inr reqs \<Rightarrow> tick_each e now reqs 0)))"

definition Approve :: "'s engine \<Rightarrow> string \<Rightarrow> string \<Rightarrow> ('s, unit) prog" where
  "Approve e i by_whom =
     (if trim_space by_whom = [] then fail_tx (Errorf CategoryValidation ''an approver identity is required'')
      else bind_tx (ao_Approve (ge_Store e) i by_whom) (\<lambda>ok.
           if \<not> ok then fail_tx (Errorf CategoryValidation (''request '' @ i @ '' is not awaiting approval'')) else return_tx ()))"


section \<open>The worker\<close>

text \<open>One \<open>events.alert\<close> message; the integration scripts are the parameter \<open>run\<close>.\<close>

definition Handle ::
    "event json_decoder \<Rightarrow> 's engine \<Rightarrow> registry \<Rightarrow> (event \<Rightarrow> device \<Rightarrow> ('s, unit) prog) option \<Rightarrow> string \<Rightarrow> ('s, unit) prog" where
  "Handle json e devices run data =
     bind_tx (lift_tx (Decode json data (l_MaxMessageBytes DefaultLimits))) (\<lambda>ev.
     if e_EventID ev = [] \<or> e_DeviceID ev = [] \<or> e_Type ev = []
     then fail_tx (Errorf CategoryValidation ''event is missing event_id, device_id or type'')
     else bind_tx (HandleEvent e ev) (\<lambda>(created, err).
          case err of
            Some er \<Rightarrow> fail_tx er
          | None \<Rightarrow>
              (case run of
                 None \<Rightarrow> return_tx ()
               | Some integrate \<Rightarrow>
                   (case Get_device devices (e_DeviceID ev) of
                      Some dev \<Rightarrow> integrate ev dev
                    | None \<Rightarrow> return_tx ()))))"


section \<open>Nothing but the adapter has effects\<close>

definition world_of :: "('x \<Rightarrow> 'e) \<Rightarrow> mem_store \<times> 'x \<Rightarrow> 'e" where
  "world_of effects s = effects (snd s)"

lemma quiet_store [quiet_intros]:
  "quiet (world_of f) (on_store g)" "quiet (world_of f) (asks h)" "quiet (world_of f) (complete_on_store res msgs)"
  by (auto simp: quiet_def world_of_def on_store_def asks_def complete_on_store_def split: prod.splits sum.splits)

lemma quiet_attempt [quiet_intros]: "quiet f m \<Longrightarrow> quiet f (attempt m)"
  by (auto simp: quiet_def attempt_def split: prod.splits outcome.splits; metis snd_conv)

lemma memAuto_sel [simp]:
  "ao_Insert memAuto = (\<lambda>req msgs. on_store (InsertAutomationRequest req msgs))"
  "ao_Due memAuto = (\<lambda>now lease limit. asks (DueAutomation now lease limit))"
  "ao_Claim memAuto = (\<lambda>i now lease. on_store (ClaimAutomation i now lease))"
  "ao_SetStatus memAuto = (\<lambda>i from to. on_store (SetAutomationStatus i from to))"
  "ao_Approve memAuto = (\<lambda>i by_whom. on_store (ApproveAutomation i by_whom))"
  "ao_Complete memAuto = complete_on_store"
  "ao_AwaitingBefore memAuto = (\<lambda>cutoff. asks (AwaitingApprovalBefore cutoff))"
  "ao_History memAuto = (\<lambda>p d t since. asks (AutomationHistory p d t since))"
  "ao_Attempts memAuto = (\<lambda>p k. asks (AttemptsForAlert p k))"
  "ao_AlertFiring memAuto = (\<lambda>k. asks (AlertFiring_for k))"
  by (simp_all add: memAuto_def)

text \<open>Every gate of a live action, read off the request, the configuration, the clock and the store.\<close>

definition passed :: "'s engine \<Rightarrow> automation_request \<Rightarrow> mem_store \<Rightarrow> gotime \<Rightarrow> bool" where
  "passed e req s now \<longleftrightarrow> (\<exists>pol dev spec.
     Get_policy (ge_Policies e) (q_PolicyID req) = Some pol \<and> Get_device (ge_Devices e) (q_DeviceID req) = Some dev
   \<and> fmlookup Catalog (q_Action req) = Some spec \<and> Validate_proposal (proposal_of req) dev = None
   \<and> \<not> ge_GlobalDryRun e \<and> \<not> policy_dryRun pol \<and> \<not> q_DryRun req
   \<and> d_Enabled dev \<and> (q_AlertKey req \<noteq> [] \<longrightarrow> AlertFiring_for (q_AlertKey req) s)
   \<and> script_allowed pol (q_Action req)
   \<and> (q_Action req = ''invoke_extension'' \<longrightarrow> ExtensionApproved (ge_Policies e) (str_at (q_Params req) ''script''))
   \<and> HasTag dev (sf_RequireTag (po_Safety pol)) \<and> (as_Capability spec \<noteq> [] \<longrightarrow> HasCapability dev (as_Capability spec))
   \<and> (as_Disruptive spec \<longrightarrow> Allowlisted (ge_Policies e) (d_ID dev))
   \<and> InMaintenance (ge_Zones e) (ge_Policies e) now dev = None
   \<and> (0 < sf_Cooldown (po_Safety pol) \<longrightarrow>
        AutomationHistory (po_ID pol) (d_ID dev) (q_Target req) (now - sf_Cooldown (po_Safety pol)) s = [])
   \<and> (0 < cd_RetriesBelow (po_Conditions pol) \<and> q_AlertKey req \<noteq> [] \<longrightarrow>
        AttemptsForAlert (po_ID pol) (q_AlertKey req) s < cd_RetriesBelow (po_Conditions pol))
   \<and> (sf_RequireApproval (po_Safety pol) \<longrightarrow> q_ApprovedBy req \<noteq> []))"

lemma static_gate_None:
  assumes "static_gate e req pol dev now = None"
  shows "\<exists>spec. fmlookup Catalog (q_Action req) = Some spec \<and> Validate_proposal (proposal_of req) dev = None
   \<and> script_allowed pol (q_Action req)
   \<and> (q_Action req = ''invoke_extension'' \<longrightarrow> ExtensionApproved (ge_Policies e) (str_at (q_Params req) ''script''))
   \<and> HasTag dev (sf_RequireTag (po_Safety pol)) \<and> (as_Capability spec \<noteq> [] \<longrightarrow> HasCapability dev (as_Capability spec))
   \<and> (\<not> run_dry e pol req \<and> as_Disruptive spec \<longrightarrow> Allowlisted (ge_Policies e) (d_ID dev))
   \<and> InMaintenance (ge_Zones e) (ge_Policies e) now dev = None"
proof -
  have valid: "Validate_proposal (proposal_of req) dev = None"
    using assms by (simp add: static_gate_def split: option.splits)
  then obtain spec where "fmlookup Catalog (q_Action req) = Some spec"
    by (auto simp: Validate_proposal_def proposal_of_def split: option.splits)
  with valid assms show ?thesis
    by (auto simp: static_gate_def Let_def split: if_splits option.splits)
qed

text \<open>
  An engine on the in-memory store, with a clock that only tells the time, and adapters that honour
  \<open>DryRun\<close> as the standard set does.
\<close>

locale mem_engine =
  fixes e :: "(mem_store \<times> 'x) engine" and effects :: "'x \<Rightarrow> 'e" and tm :: "'x \<Rightarrow> gotime" and tick :: "'x \<Rightarrow> 'x"
  assumes store: "ge_Store e = memAuto"
    and clock: "\<And>s x. ge_Now e (s, x) = (Done (tm x), (s, tick x))"
    and clock_quiet: "\<And>x. effects (tick x) = effects x"
    and adapters_dry: "\<And>dev action ad. For_adapter (ge_Adapters e) dev action = Inr ad \<Longrightarrow> dry (world_of effects) ad"
begin

lemma quiet_now: "quiet (world_of effects) (ge_Now e)"
  by (auto simp: quiet_def world_of_def clock clock_quiet)

lemma quiet_finish: "quiet (world_of effects) (finish e req st msg d t t')"
  by (auto simp: finish_def Let_def store intro!: quiet_intros)

lemmas quiet_engine = quiet_now quiet_finish

lemma quiet_deny: "quiet (world_of effects) (deny e req now gate msg)"
  unfolding deny_def by (intro quiet_intros quiet_engine)

lemma quiet_query: "quiet (world_of effects) m \<Longrightarrow> quiet (world_of effects) (query e req m)"
  unfolding query_def release_def store
  by (auto intro!: quiet_intros split: sum.splits)

lemma quiet_execute: "quiet (world_of effects) (execute e req dev True)"
proof -
  have ad: "quiet (world_of effects) (ad dev a)" if "For_adapter (ge_Adapters e) dev (q_Action req) = Inr ad" "ac_DryRun a" for ad a
    using adapters_dry [OF that(1)] that(2) by (simp add: dry_def)
  show ?thesis unfolding execute_def
    by (auto intro!: quiet_intros quiet_engine ad split: sum.splits)
qed

lemma query_asks: "query e req (asks f) s = (Done (f (fst s)), s)"
  by (simp add: query_def attempt_def asks_def bind_tx_def return_tx_def)


lemma process_history_eq:
  "process_history e req pol dev now (s, x) =
     (let prior = (if 0 < sf_Cooldown (po_Safety pol)
        then AutomationHistory (po_ID pol) (d_ID dev) (q_Target req) (now - sf_Cooldown (po_Safety pol)) s else []);
          n = AttemptsForAlert (po_ID pol) (q_AlertKey req) s; limit = cd_RetriesBelow (po_Conditions pol)
      in if prior \<noteq> []
         then deny e req now ''cooldown'' (''cooldown of '' @ show_duration (sf_Cooldown (po_Safety pol)) @
                '' has not elapsed since request '' @ q_RequestID (last prior)) (s, x)
         else if 0 < limit \<and> q_AlertKey req \<noteq> [] \<and> limit \<le> n
         then deny e req now ''retries'' (''already attempted '' @ show_int n @ '' time(s) for this alert (limit '' @ show_int limit @ '')'') (s, x)
         else if sf_RequireApproval (po_Safety pol) \<and> q_ApprovedBy req = []
         then bind_tx (on_store (SetAutomationStatus (q_RequestID req) [AutomationExecuting] AutomationAwaitingApproval)) (\<lambda>_. return_tx ()) (s, x)
         else execute e req dev (run_dry e pol req) (s, x))"
  by (auto simp: process_history_def store query_asks bind_tx_def [of "query _ _ _"] bind_tx_def [of "return_tx _"] return_tx_def Let_def
           bind_tx_def [of "bind_tx _ _"] bind_tx_def [of "\<lambda>s. (Done _, s)"])

lemma unchanged: "quiet (world_of effects) m \<Longrightarrow> m (s, x) = (r, (s', x')) \<Longrightarrow> effects x' = effects x"
  by (auto simp: quiet_def world_of_def dest!: spec [of _ s] spec [of _ x])

lemma process_history_guarded:
  assumes "process_history e req pol dev now (s, x) = (r, (s', x'))" "effects x' \<noteq> effects x"
  shows "\<not> run_dry e pol req
       \<and> (0 < sf_Cooldown (po_Safety pol) \<longrightarrow>
            AutomationHistory (po_ID pol) (d_ID dev) (q_Target req) (now - sf_Cooldown (po_Safety pol)) s = [])
       \<and> (0 < cd_RetriesBelow (po_Conditions pol) \<and> q_AlertKey req \<noteq> [] \<longrightarrow>
            AttemptsForAlert (po_ID pol) (q_AlertKey req) s < cd_RetriesBelow (po_Conditions pol))
       \<and> (sf_RequireApproval (po_Safety pol) \<longrightarrow> q_ApprovedBy req \<noteq> [])"
proof -
  have "\<not> quiet (world_of effects) m \<or> m (s, x) \<noteq> (r, (s', x'))" for m :: "(mem_store \<times> 'x, unit) prog"
    using unchanged assms(2) by blast
  note loud = this
  have "quiet (world_of effects)
      (bind_tx (on_store (SetAutomationStatus (q_RequestID req) [AutomationExecuting] AutomationAwaitingApproval)) (\<lambda>_. return_tx ()))"
    by (intro quiet_intros)
  with assms(1) [unfolded process_history_eq Let_def] loud quiet_deny quiet_execute show ?thesis
    by (auto split: if_splits)
qed

lemma process_eq:
  "process e req (s, x) =
     (case (Get_policy (ge_Policies e) (q_PolicyID req), Get_device (ge_Devices e) (q_DeviceID req)) of
        (None, _) \<Rightarrow> deny e req (tm x) ''policy'' ''policy no longer exists'' (s, tick x)
      | (Some pol, None) \<Rightarrow> deny e req (tm x) ''device'' ''device is unknown or disabled'' (s, tick x)
      | (Some pol, Some dev) \<Rightarrow>
          if \<not> d_Enabled dev then deny e req (tm x) ''device'' ''device is unknown or disabled'' (s, tick x)
          else if q_AlertKey req \<noteq> [] \<and> \<not> AlertFiring_for (q_AlertKey req) s
          then bind_tx (ge_Now e) (\<lambda>t.
                 bind_tx (finish e req AutomationExpired ''the alert resolved before the action was due'' (gate_detail ''alert'') (tm x) t)
                   (\<lambda>_. return_tx ())) (s, tick x)
          else case static_gate e req pol dev (tm x) of
                 Some (gate, msg) \<Rightarrow> deny e req (tm x) gate msg (s, tick x)
               | None \<Rightarrow> process_history e req pol dev (tm x) (s, tick x))"
  by (simp add: process_def bind_tx_def [of "ge_Now e"] bind_tx_def [of "query e _ _"] bind_tx_def [of "return_tx True"] bind_tx_def [of "if _ then _ else _"]
        clock store query_asks return_tx_def Let_def split: option.splits)

lemma process_passed:
  assumes "process e req (s, x) = (r, (s', x'))" "effects x' \<noteq> effects x"
  shows "passed e req s (tm x)"
proof -
  have "m (s, tick x) \<noteq> (r, (s', x'))" if "quiet (world_of effects) m" for m :: "(mem_store \<times> 'x, unit) prog"
    using unchanged [OF that, of s "tick x"] assms(2) clock_quiet by metis
  note loud = this [OF quiet_deny] this
  have "quiet (world_of effects) (bind_tx (ge_Now e) (\<lambda>t. bind_tx (finish e req st msg d now t) (\<lambda>_. return_tx ())))" for st msg d now
    by (intro quiet_intros quiet_engine)
  with assms(1) [unfolded process_eq] loud obtain pol dev where
      pd: "Get_policy (ge_Policies e) (q_PolicyID req) = Some pol" "Get_device (ge_Devices e) (q_DeviceID req) = Some dev"
      "d_Enabled dev" "q_AlertKey req \<noteq> [] \<longrightarrow> AlertFiring_for (q_AlertKey req) s"
    and gate: "static_gate e req pol dev (tm x) = None"
    and hist: "process_history e req pol dev (tm x) (s, tick x) = (r, (s', x'))"
    by (auto split: option.splits if_splits)
  from process_history_guarded [OF hist] assms(2) clock_quiet
  have dyn: "\<not> run_dry e pol req
       \<and> (0 < sf_Cooldown (po_Safety pol) \<longrightarrow>
            AutomationHistory (po_ID pol) (d_ID dev) (q_Target req) (tm x - sf_Cooldown (po_Safety pol)) s = [])
       \<and> (0 < cd_RetriesBelow (po_Conditions pol) \<and> q_AlertKey req \<noteq> [] \<longrightarrow>
            AttemptsForAlert (po_ID pol) (q_AlertKey req) s < cd_RetriesBelow (po_Conditions pol))
       \<and> (sf_RequireApproval (po_Safety pol) \<longrightarrow> q_ApprovedBy req \<noteq> [])"
    by simp
  obtain spec where spec: "fmlookup Catalog (q_Action req) = Some spec \<and> Validate_proposal (proposal_of req) dev = None
   \<and> script_allowed pol (q_Action req)
   \<and> (q_Action req = ''invoke_extension'' \<longrightarrow> ExtensionApproved (ge_Policies e) (str_at (q_Params req) ''script''))
   \<and> HasTag dev (sf_RequireTag (po_Safety pol)) \<and> (as_Capability spec \<noteq> [] \<longrightarrow> HasCapability dev (as_Capability spec))
   \<and> (\<not> run_dry e pol req \<and> as_Disruptive spec \<longrightarrow> Allowlisted (ge_Policies e) (d_ID dev))
   \<and> InMaintenance (ge_Zones e) (ge_Policies e) (tm x) dev = None"
    using static_gate_None [OF gate] by blast
  show ?thesis unfolding passed_def
    by (rule exI [of _ pol], rule exI [of _ dev], rule exI [of _ spec]) (use dyn spec pd in \<open>auto simp: run_dry_def\<close>)
qed

end


section \<open>The engine as it is assembled\<close>

text \<open>
  The world of the assembled engine has two parts: what the actions are done to, and the network the
  SNMP reader and the clock use. The reader cannot reach the first part.
\<close>

definition on_net :: "('n, 'a) prog \<Rightarrow> ('d \<times> 'n, 'a) prog" where
  "on_net m w = (case m (snd w) of (r, n) \<Rightarrow> (r, (fst w, n)))"

definition net_session :: "'n session \<Rightarrow> ('d \<times> 'n) session" where
  "net_session sess = \<lparr>se_Get = \<lambda>oids. on_net (se_Get sess oids), se_Walk = \<lambda>column. on_net (se_Walk sess column)\<rparr>"

definition net_reader :: "'n reader \<Rightarrow> ('d \<times> 'n) reader" where
  "net_reader r =
     \<lparr>re_Resolve = \<lambda>ref. on_net (re_Resolve r ref),
      re_Dial = \<lambda>addr cred. bind_tx (on_net (re_Dial r addr cred)) (\<lambda>sess. return_tx (net_session sess))\<rparr>"

definition beside_store :: "'x adapter \<Rightarrow> (mem_store \<times> 'x) adapter" where
  "beside_store ad dev a s = (case ad dev a (snd s) of (r, x) \<Rightarrow> (r, (fst s, x)))"

definition set_beside_store :: "'x adapter_set \<Rightarrow> (mem_store \<times> 'x) adapter_set" where
  "set_beside_store ads = \<lparr>st_ByType = fmmap beside_store (st_ByType ads), st_Generic = map_option beside_store (st_Generic ads)\<rparr>"

type_synonym ('d, 'n) plant = "('d \<times> 'n) fleet"

definition clock_time :: "('n \<Rightarrow> gotime \<times> 'n) \<Rightarrow> ('d, 'n) plant \<Rightarrow> gotime" where
  "clock_time clock x = fst (clock (snd (ft_world x)))"

definition clock_tick :: "('n \<Rightarrow> gotime \<times> 'n) \<Rightarrow> ('d, 'n) plant \<Rightarrow> ('d, 'n) plant" where
  "clock_tick clock x = x\<lparr>ft_world := (fst (ft_world x), snd (clock (snd (ft_world x))))\<rparr>"

definition automation_engine ::
    "policies \<Rightarrow> zones \<Rightarrow> registry \<Rightarrow> bool \<Rightarrow> trunc \<Rightarrow> ('d \<times> 'n) controller \<Rightarrow> 'n reader \<Rightarrow> ('d \<times> 'n) generic
     \<Rightarrow> (policy \<Rightarrow> event \<Rightarrow> device \<Rightarrow> (mem_store \<times> ('d, 'n) plant, proposal option) prog) option \<Rightarrow> ('n \<Rightarrow> gotime \<times> 'n)
     \<Rightarrow> (mem_store \<times> ('d, 'n) plant) engine" where
  "automation_engine ps zones devices default_dry trunc ctl reader generic ext clock =
     \<lparr>ge_Policies = ps, ge_Zones = zones, ge_Store = memAuto, ge_Devices = devices,
      ge_Adapters = set_beside_store (NewSet trunc ctl (Some (net_reader reader)) generic), ge_Proposer = ext,
      ge_GlobalDryRun = default_dry, ge_Lease = 0, ge_BatchSize = 0,
      ge_Now = \<lambda>(s, x). (Done (clock_time clock x), (s, clock_tick clock x))\<rparr>"

lemma quiet_net [quiet_intros]: "quiet fst (on_net m)"
  by (auto simp: quiet_def on_net_def split: prod.splits)

lemma net_reader_reads_only: "reader_ok fst (Some (net_reader r :: ('d \<times> 'n) reader))"
proof -
  have "\<exists>sess0. sess = net_session sess0" if "re_Dial (net_reader r) addr cred w = (Done sess, w')" for addr cred w sess and w' :: "'d \<times> 'n"
    using that by (auto simp: net_reader_def bind_tx_def return_tx_def split: prod.splits outcome.splits)
  then show ?thesis
    by (fastforce simp: reader_ok_def reads_only_def net_reader_def net_session_def intro: quiet_intros)
qed

lemma dry_beside_store: "dry f ad \<Longrightarrow> dry (world_of f) (beside_store ad)"
  unfolding dry_def quiet_def yields_def world_of_def beside_store_def
  by (auto split: prod.splits) (metis snd_conv)+

lemma For_beside_store:
  "For_adapter (set_beside_store ads) dev action = (case For_adapter ads dev action of Inl err \<Rightarrow> Inl err | Inr ad \<Rightarrow> Inr (beside_store ad))"
  by (auto simp: For_adapter_def set_beside_store_def split: option.splits)

interpretation std: mem_engine "automation_engine ps zones devices default_dry trunc ctl reader generic ext clock"
  "fleet_effects fst" "clock_time clock" "clock_tick clock"
  for ps zones devices default_dry trunc ctl reader generic ext clock
proof unfold_locales
  fix dev action ad
  assume "For_adapter (ge_Adapters (automation_engine ps zones devices default_dry trunc ctl reader generic ext clock)) dev action = Inr ad"
  then obtain ad0 where "For_adapter (NewSet trunc ctl (Some (net_reader reader)) generic) dev action = Inr ad0" "ad = beside_store ad0"
    by (auto simp: automation_engine_def For_beside_store split: sum.splits)
  then show "dry (world_of (fleet_effects fst)) ad"
    using dry_beside_store dry_NewSet net_reader_reads_only by blast
qed (auto simp: automation_engine_def fleet_effects_def clock_tick_def)

text \<open>
  Every gate stands between a request and a device (C18). Whenever processing a request changes anything at
  all on the devices, the events, the webhooks or the mock configurations, then at that time no dry-run
  switch was on, the policy and the enabled device exist, the request is valid for the catalog and the
  device and still allowed to its proposer, the alert is firing, the device carries the required tag and
  the capability and, for a disruptive action, is on the allowlist, no maintenance window is open, no
  request of the policy ran on the target within the cooldown, the attempts are below the limit, and an
  approval was given where one is needed.
\<close>

theorem live_action_passed_every_gate:
  assumes "process (automation_engine ps zones devices default_dry trunc ctl reader generic ext clock) req (s, x) = (r, (s', x'))"
    and "fleet_effects fst x' \<noteq> fleet_effects fst x"
  shows "passed (automation_engine ps zones devices default_dry trunc ctl reader generic ext clock) req s (clock_time clock x)"
  using assms by (rule std.process_passed)


section \<open>Redelivered events\<close>

definition known :: "mem_store \<Rightarrow> string \<Rightarrow> bool" where
  "known s i \<longleftrightarrow> fmlookup (ms_autoReq s) i \<noteq> None"

lemma known_InsertAutomationRequest:
  "known s i \<Longrightarrow> known (snd (InsertAutomationRequest req msgs s)) i"
  "known (snd (InsertAutomationRequest req msgs s)) (q_RequestID req)"
  by (auto simp: known_def InsertAutomationRequest_def)

lemma known_CompleteAutomation: "known s i \<Longrightarrow> known (snd (CompleteAutomation res msgs s)) i"
  by (auto simp: known_def CompleteAutomation_def split: option.splits)

lemma request_id [simp]:
  "q_RequestID (new_request e pol ev dev pr t) = requestID (po_ID pol) (e_EventID ev)"
  "q_RequestID (denied_request req t') = q_RequestID req"
  by (auto simp: new_request_def denied_request_def Let_def split: sum.splits)

context mem_engine
begin

lemma finish_known:
  assumes "attempt (finish e req st msg d t t') (s, x) = (r, (s', x'))"
  shows "(\<exists>a. r = Done a) \<and> x' = x \<and> (\<forall>i. known s i \<longrightarrow> known s' i)"
proof -
  let ?res = "\<lparr>u_RequestID = q_RequestID req, u_CorrelationID = q_CorrelationID req, u_Status = st,
                 u_DryRun = (q_DryRun req \<or> ge_GlobalDryRun e), u_Message = msg, u_Details = d, u_StartedAt = t, u_FinishedAt = t'\<rparr>"
  show ?thesis
  proof (cases "resultMessage ?res")
    case (Inl err)
    with assms show ?thesis
      by (auto simp: attempt_def finish_def Let_def lift_tx_def bind_tx_def fail_tx_def)
  next
    case (Inr m)
    obtain b s1 where "CompleteAutomation ?res [m] s = (b, s1)" by fastforce
    with Inr assms known_CompleteAutomation [of s _ ?res "[m]"] show ?thesis
      by (cases b) (auto simp: attempt_def finish_def Let_def store lift_tx_def bind_tx_def return_tx_def complete_on_store_def)
  qed
qed

text \<open>A request that is already there is left alone; otherwise it is there afterwards.\<close>

lemma record_request_known:
  assumes "known s (q_RequestID req)"
  shows "\<exists>err. record_request e req denied created (s, x) = (Done (created, err), (s, x))"
  using assms
  by (auto simp: record_request_def known_def InsertAutomationRequest_def store attempt_def on_store_def bind_tx_def return_tx_def split: sum.splits)

lemma record_request_records:
  assumes "record_request e req denied created (s, x) = (r, (s', x'))"
  shows "\<exists>c err. r = Done (c, err) \<and> (err = None \<longrightarrow> known s' (q_RequestID req)) \<and> (\<forall>i. known s i \<longrightarrow> known s' i)"
proof (cases "\<exists>err. requestMessage req = Inl err")
  case True
  with assms show ?thesis by (auto simp: record_request_def return_tx_def)
next
  case False
  then obtain msg where msg: "requestMessage req = Inr msg" by (meson sum.exhaust)
  obtain ins s1 where ins: "InsertAutomationRequest req [msg] s = (ins, s1)" by fastforce
  then have k: "known s1 (q_RequestID req)" "\<And>i. known s i \<Longrightarrow> known s1 i"
    using known_InsertAutomationRequest(2) [of req "[msg]" s] known_InsertAutomationRequest(1) [of s _ req "[msg]"] by simp_all
  have run: "attempt (ao_Insert (ge_Store e) req [msg]) (s, x) = (Done (Inr ins), (s1, x))"
    using ins by (simp add: store attempt_def on_store_def)
  show ?thesis
  proof (cases "ins \<and> denied \<noteq> None")
    case False
    with assms k run show ?thesis
      by (auto simp: record_request_def msg bind_tx_def [of "attempt _"] return_tx_def split: if_splits option.splits)
  next
    case True
    then obtain why where why: "denied = Some why" "ins" by auto
    let ?f = "attempt (finish e req AutomationDenied why (gate_detail ''proposal'') (tm x) (tm (tick x)))"
    obtain fr s2 x2 where f: "?f (s1, tick (tick x)) = (fr, (s2, x2))" by (metis surj_pair)
    with finish_known [OF f] obtain a where a: "fr = Done a" "\<And>i. known s1 i \<Longrightarrow> known s2 i" by auto
    with assms k run why f show ?thesis
      by (auto simp: record_request_def msg bind_tx_def clock return_tx_def)
  qed
qed

text \<open>A policy with its own action records a request under the id of the policy and the event.\<close>

lemma handle_policy_eq:
  assumes "po_Action pol = Some a"
  shows "\<exists>req denied y. q_RequestID req = requestID (po_ID pol) (e_EventID ev)
       \<and> handle_policy e ev dev pol created (s, x) = record_request e req denied created (s, y)"
proof -
  obtain pr where p: "propose e pol ev dev = return_tx (Some pr)"
    using assms by (simp add: propose_def)
  have eq: "handle_policy e ev dev pol created (s, x) =
     (let req = new_request e pol ev dev (Inr pr) (tm x) in
      case denial pol (Inr pr) dev of
        None \<Rightarrow> record_request e req None created (s, tick x)
      | Some why \<Rightarrow> record_request e (denied_request req (tm (tick x))) (Some why) created (s, tick (tick x)))"
    by (simp add: handle_policy_def p attempt_def return_tx_def bind_tx_def clock Let_def split: option.splits)
  show ?thesis
  proof (cases "denial pol (Inr pr) dev")
    case None
    with eq show ?thesis
      by (intro exI [of _ "new_request e pol ev dev (Inr pr) (tm x)"] exI [of _ None] exI [of _ "tick x"]) simp
  next
    case (Some why)
    with eq show ?thesis
      by (intro exI [of _ "denied_request (new_request e pol ev dev (Inr pr) (tm x)) (tm (tick x))"] exI [of _ "Some why"]
            exI [of _ "tick (tick x)"]) simp
  qed
qed

lemma handle_policy_records:
  assumes "po_Action pol = Some a" "handle_policy e ev dev pol created (s, x) = (r, (s', x'))"
  shows "\<exists>c err. r = Done (c, err) \<and> (err = None \<longrightarrow> known s' (requestID (po_ID pol) (e_EventID ev))) \<and> (\<forall>i. known s i \<longrightarrow> known s' i)"
  using handle_policy_eq [OF assms(1), of ev dev created s x] assms(2) record_request_records by metis

lemma handle_policy_known:
  assumes "po_Action pol = Some a" "known s (requestID (po_ID pol) (e_EventID ev))"
  shows "\<exists>err x'. handle_policy e ev dev pol created (s, x) = (Done (created, err), (s, x'))"
  using handle_policy_eq [OF assms(1), of ev dev created s x] assms(2) record_request_known by metis

lemma handle_policies_record:
  assumes "handle_policies e ev dev pols created (s, x) = (Done (c, None), (s', x'))" "\<forall>pol \<in> set pols. po_Action pol \<noteq> None"
  shows "(\<forall>pol \<in> set pols. known s' (requestID (po_ID pol) (e_EventID ev))) \<and> (\<forall>i. known s i \<longrightarrow> known s' i)"
  using assms
proof (induction pols arbitrary: created s x)
  case Nil
  then show ?case by (simp add: return_tx_def)
next
  case (Cons pol pols)
  obtain a where a: "po_Action pol = Some a" using Cons.prems(2) by auto
  obtain r s1 x1 where h: "handle_policy e ev dev pol created (s, x) = (r, (s1, x1))" by (metis surj_pair)
  with handle_policy_records [OF a h] Cons.prems(1) obtain c1 where
      "known s1 (requestID (po_ID pol) (e_EventID ev))" "\<And>i. known s i \<Longrightarrow> known s1 i"
      "handle_policies e ev dev pols c1 (s1, x1) = (Done (c, None), (s', x'))"
    by (auto simp: bind_tx_def return_tx_def split: option.splits)
  moreover have "\<forall>pol \<in> set pols. po_Action pol \<noteq> None" using Cons.prems(2) by simp
  ultimately show ?case using Cons.IH [of c1 s1 x1] by auto
qed

lemma handle_policies_known:
  assumes "\<forall>pol \<in> set pols. po_Action pol \<noteq> None \<and> known s (requestID (po_ID pol) (e_EventID ev))"
  shows "\<exists>err x'. handle_policies e ev dev pols created (s, x) = (Done (created, err), (s, x'))"
  using assms
proof (induction pols arbitrary: x)
  case Nil
  then show ?case by (simp add: return_tx_def)
next
  case (Cons pol pols)
  then obtain a where "po_Action pol = Some a" "known s (requestID (po_ID pol) (e_EventID ev))" by auto
  from handle_policy_known [OF this] obtain err x1 where
    h: "handle_policy e ev dev pol created (s, x) = (Done (created, err), (s, x1))" by blast
  show ?case
  proof (cases err)
    case None
    with h Cons.IH [of x1] Cons.prems show ?thesis by (simp add: bind_tx_def)
  next
    case (Some er)
    with h show ?thesis by (simp add: bind_tx_def return_tx_def)
  qed
qed

lemma redelivery:
  assumes "HandleEvent e ev (s, x) = (Done (created, None), (s', x'))"
    and "\<And>dev pol. Get_device (ge_Devices e) (e_DeviceID ev) = Some dev \<Longrightarrow> pol \<in> set (Match_policies (ge_Policies e) ev dev) \<Longrightarrow> po_Action pol \<noteq> None"
    and "\<And>i. known s' i \<Longrightarrow> known t i"
  shows "\<exists>err y'. HandleEvent e ev (t, y) = (Done ([], err), (t, y'))"
proof (cases "e_Resolves ev \<or> e_AlertKey ev = [] \<or> Get_device (ge_Devices e) (e_DeviceID ev) = None")
  case True
  then show ?thesis by (auto simp: HandleEvent_def return_tx_def)
next
  case False
  then obtain dev where dev: "Get_device (ge_Devices e) (e_DeviceID ev) = Some dev" by auto
  let ?pols = "Match_policies (ge_Policies e) ev dev"
  have all: "\<forall>pol \<in> set ?pols. po_Action pol \<noteq> None" using assms(2) dev by blast
  have "handle_policies e ev dev ?pols [] (s, x) = (Done (created, None), (s', x'))"
    using assms(1) False dev by (simp add: HandleEvent_def)
  from handle_policies_record [OF this all] all assms(3)
  have "\<forall>pol \<in> set ?pols. po_Action pol \<noteq> None \<and> known t (requestID (po_ID pol) (e_EventID ev))" by blast
  from handle_policies_known [OF this] show ?thesis using False dev by (simp add: HandleEvent_def)
qed

end



section \<open>Approvals and expiry\<close>

lemma finish_records:
  assumes "ge_Store e = memAuto" "fmlookup (ms_autoReq s) (q_RequestID req) = Some r" "fmlookup (ms_autoRes s) (q_RequestID req) = None"
    and "json_time t" "json_time t'"
  shows "\<exists>s'. finish e req st msg d t t' (s, x) = (Done True, (s', x)) \<and> fmlookup (ms_autoReq s') (q_RequestID req) = Some (r\<lparr>q_Status := st\<rparr>)"
  using assms by (simp add: finish_def Let_def resultMessage_def Encode_def json_result_def bind_res_def lift_tx_def bind_tx_def
      return_tx_def complete_on_store_def CompleteAutomation_first)

text \<open>
  The expiry of approvals wins over an approval that arrives while it runs (C20). It works on the requests
  it listed: a request listed as waiting past its timeout and then approved, successfully, before
  its turn comes, is still completed as expired, with the approver's name on it.
\<close>

theorem expiry_overrides_approval:
  fixes ps zones devices default_dry trunc ctl reader generic ext clock
  defines "eng \<equiv> automation_engine ps zones devices default_dry trunc ctl reader generic ext clock"
  assumes "fmlookup (ms_autoReq s) (q_RequestID r) = Some r" "fmlookup (ms_autoRes s) (q_RequestID r) = None"
    and "q_Status r = AutomationAwaitingApproval" "approval_timeout eng r \<le> time_sub now (q_CreatedAt r)" "json_time now"
    and "ApproveAutomation (q_RequestID r) by_whom s = (ok, s1)"
  shows "ok \<and> fmlookup (ms_autoReq s1) (q_RequestID r) = Some (r\<lparr>q_Status := AutomationApproved, q_ApprovedBy := by_whom\<rparr>)
       \<and> (\<exists>s2. expire_each eng now [r] (s1, x) = (Done (), (s2, x))
            \<and> fmlookup (ms_autoReq s2) (q_RequestID r) = Some (r\<lparr>q_Status := AutomationExpired, q_ApprovedBy := by_whom\<rparr>))"
proof -
  have s1: "ok" "fmlookup (ms_autoReq s1) (q_RequestID r) = Some (r\<lparr>q_Status := AutomationApproved, q_ApprovedBy := by_whom\<rparr>)"
      "fmlookup (ms_autoRes s1) (q_RequestID r) = None"
    using assms by (auto simp: ApproveAutomation_def)
  have "ge_Store eng = memAuto" by (simp add: eng_def automation_engine_def)
  from finish_records [OF this s1(2,3) assms(6,6), of AutomationExpired "''approval not granted in time''" "gate_detail ''approval''" x]
  obtain s2 where "finish eng r AutomationExpired ''approval not granted in time'' (gate_detail ''approval'') now now (s1, x) = (Done True, (s2, x))"
      "fmlookup (ms_autoReq s2) (q_RequestID r) = Some (r\<lparr>q_Status := AutomationExpired, q_ApprovedBy := by_whom\<rparr>)" by auto
  with s1 assms(5) show ?thesis by (auto simp: bind_tx_def return_tx_def)
qed

section \<open>A plant with one host\<close>

text \<open>A plant of one host and one live policy, whose controller counts what is done to the host.\<close>

definition ex_live_policy :: policy where
  "ex_live_policy = policy_defaults (ex_policy\<lparr>po_Safety := (po_Safety ex_policy)\<lparr>sf_DryRun := Some False\<rparr>\<rparr>)"

definition ex_policies :: policies where
  "ex_policies = \<lparr>pl_Allowlist = [''h1''], pl_AllowedExtensions = [], pl_Windows = [], pl_policies = [ex_live_policy],
     pl_byID = fmap_of_list [(''restart-agent'', ex_live_policy)]\<rparr>"

definition ex_controller :: "(int \<times> unit) controller" where
  "ex_controller dev ev args w = (Done (), (fst w + 1, ()))"

definition ex_offline :: "unit reader" where
  "ex_offline = \<lparr>re_Resolve = \<lambda>ref. fail_tx (EPlain []), re_Dial = \<lambda>addr cred. fail_tx (EPlain [])\<rparr>"

definition ex_notifier :: "(int \<times> unit) generic" where
  "ex_notifier = \<lparr>gn_Endpoints = fmempty, gn_Resolve = None, gn_ParseURL = \<lambda>t. None, gn_Do = \<lambda>post w. (None, w),
     gn_Record = None, gn_Invoke = None, gn_Now = return_tx 0\<rparr>"

definition ex_engine :: "(mem_store \<times> (int, unit) plant) engine" where
  "ex_engine = automation_engine ex_policies (\<lambda>tz. None) (NewRegistry [ex_host]) False (\<lambda>f. 0)
     ex_controller ex_offline ex_notifier None (\<lambda>n. (10 * hour, n))"

definition ex_plant :: "(int, unit) plant" where
  "ex_plant = \<lparr>ft_switch = fmempty, ft_router = fmempty, ft_ap = fmempty, ft_world = (0, ())\<rparr>"

definition ex_action :: automation_request where
  "ex_action =
     \<lparr>q_RequestID = ''q1'', q_CorrelationID = ''c1'', q_PolicyID = ''restart-agent'', q_EventID = ''e1'', q_AlertKey = [],
      q_DeviceID = ''h1'', q_Action = ''restart_service'', q_Target = [], q_Params = fmap_of_list [(''service'', ''observer-agent'')],
      q_Reason = [], q_Proposer = ''policy'', q_DryRun = False, q_Status = AutomationAwaitingApproval,
      q_NotBefore = 0, q_CreatedAt = 0, q_ApprovedBy = []\<rparr>"

definition ex_action_store :: mem_store where
  "ex_action_store = NewMemStore\<lparr>ms_autoReq := fmap_of_list [(''q1'', ex_action)], ms_autoOrder := [''q1'']\<rparr>"

definition ex_down :: event where
  "ex_down = (ex_event ''e1'' 5)\<lparr>e_DeviceID := ''h1''\<rparr>"

lemma ex_runs: "fst (ft_world (snd (snd (process ex_engine ex_action (ex_action_store, ex_plant))))) = 1"
  by code_simp

theorem live_action_passed_every_gate_witness:
  "passed ex_engine ex_action ex_action_store (10 * hour)
   \<and> fst (ft_world (snd (snd (process ex_engine ex_action (ex_action_store, ex_plant))))) = 1"
proof -
  obtain r s' x' where run: "process ex_engine ex_action (ex_action_store, ex_plant) = (r, (s', x'))" by (metis surj_pair)
  with ex_runs have "fleet_effects fst x' \<noteq> fleet_effects fst ex_plant" by (auto simp: fleet_effects_def ex_plant_def)
  from live_action_passed_every_gate [OF run [unfolded ex_engine_def] this] ex_runs show ?thesis
    by (simp add: ex_engine_def clock_time_def)
qed

theorem expiry_overrides_approval_witness:
  "\<exists>s2. expire_each ex_engine (10 * hour) [ex_action] (snd (ApproveAutomation ''q1'' ''alice'' ex_action_store), ex_plant) = (Done (), (s2, ex_plant))
     \<and> fmlookup (ms_autoReq s2) ''q1'' = Some (ex_action\<lparr>q_Status := AutomationExpired, q_ApprovedBy := ''alice''\<rparr>)"
proof -
  have id: "q_RequestID ex_action = ''q1''" by (simp add: ex_action_def)
  have late: "approval_timeout ex_engine ex_action \<le> time_sub (10 * hour) (q_CreatedAt ex_action)" "json_time (10 * hour)" by code_simp+
  have "fmlookup (ms_autoReq ex_action_store) (q_RequestID ex_action) = Some ex_action"
      "fmlookup (ms_autoRes ex_action_store) (q_RequestID ex_action) = None" "q_Status ex_action = AutomationAwaitingApproval"
    by (simp_all add: ex_action_store_def NewMemStore_def) (simp_all add: ex_action_def)
  from expiry_overrides_approval [OF this late(1) [unfolded ex_engine_def] late(2) surjective_pairing, of "''alice''" ex_plant] show ?thesis
    by (simp add: id ex_engine_def)
qed

lemma ex_handling:
  "Get_device (NewRegistry [ex_host]) (e_DeviceID ex_down) = Some ex_host" "Match_policies ex_policies ex_down ex_host = [ex_live_policy]"
  "denial ex_live_policy (Inr (the (case propose ex_engine ex_live_policy ex_down ex_host (NewMemStore, ex_plant) of (Done p, _) \<Rightarrow> p))) ex_host = None"
  "e_Resolves ex_down = False" "e_AlertKey ex_down \<noteq> []" "po_Action ex_live_policy \<noteq> None"
  by code_simp+

lemma ex_handled:
  "\<exists>created s' x'. HandleEvent ex_engine ex_down (NewMemStore, ex_plant) = (Done (created, None), (s', x')) \<and> map q_Action created = [''restart_service'']"
proof -
  obtain a where a: "po_Action ex_live_policy = Some a" "ar_Type a = ''restart_service''"
    by (simp add: ex_live_policy_def ex_policy_def policy_defaults_def Let_def)
  then obtain p where p: "propose ex_engine ex_live_policy ex_down ex_host = return_tx (Some p)" "pp_Action p = ''restart_service''"
    by (simp add: propose_def)
  have sel: "ge_Devices ex_engine = NewRegistry [ex_host]" "ge_Policies ex_engine = ex_policies" "ge_Store ex_engine = memAuto"
    "ge_Now ex_engine (s, x) = (Done (10 * hour), (s, clock_tick (\<lambda>n. (10 * hour, n)) x))" for s x
    by (simp_all add: ex_engine_def automation_engine_def clock_time_def)
  let ?req = "new_request ex_engine ex_live_policy ex_down ex_host (Inr p) (10 * hour)"
  have "json_time (e_OccurredAt ex_down + cd_Duration (po_Conditions ex_live_policy))" "json_time (10 * hour)" by code_simp+
  then have msg: "requestMessage ?req \<noteq> Inl err" for err
    by (simp add: requestMessage_def Encode_def json_request_def new_request_def Let_def bind_res_def)
  have act: "q_Action ?req = ''restart_service''" by (simp add: new_request_def Let_def p)
  have den: "denial ex_live_policy (Inr p) ex_host = None" using ex_handling(3) by (simp add: p return_tx_def)
  show ?thesis
    using ex_handling msg act
    by (auto simp: HandleEvent_def sel handle_policy_def p den attempt_def bind_tx_def return_tx_def Let_def record_request_def
        on_store_def InsertAutomationRequest_def NewMemStore_def split: sum.splits)
qed


end
