(* ===== verification/Messaging.thy ===== *)
theory Messaging
  imports Subjects Schema Persistence
begin

text \<open>
  \<open>internal/messaging/client.go\<close>: publishing with retry, batches, stream provisioning and the
  messages handed to handlers. NATS itself is not part of the sources: its operations are the fields
  of the record \<open>broker\<close>, over an unspecified world \<open>'b\<close>, and so are the error values of its packages
  the code compares with. The world also holds the clock. A context is what its \<open>Err\<close> method reports
  in a given world.
\<close>


section \<open>Calls\<close>

type_synonym ('b, 'a) call = "'b \<Rightarrow> (goerr + 'a) \<times> 'b"

type_synonym 'b ctx = "'b \<Rightarrow> goerr option"

definition ret :: "'a \<Rightarrow> ('b, 'a) call" where
  "ret a b = (Inr a, b)"

definition fail :: "goerr \<Rightarrow> ('b, 'a) call" where
  "fail e b = (Inl e, b)"

text \<open>Continue with the error or with the value.\<close>

definition on :: "('b, 'a) call \<Rightarrow> (goerr \<Rightarrow> ('b, 'c) call) \<Rightarrow> ('a \<Rightarrow> ('b, 'c) call) \<Rightarrow> ('b, 'c) call" where
  "on m f g b = (case m b of (Inl e, b') \<Rightarrow> f e b' | (Inr a, b') \<Rightarrow> g a b')"

text \<open>The usual early return: the error wrapped with a category and an operation.\<close>

definition wrapped :: "category \<Rightarrow> string \<Rightarrow> ('b, 'a) call \<Rightarrow> ('a \<Rightarrow> ('b, 'c) call) \<Rightarrow> ('b, 'c) call" where
  "wrapped cat op m g = on m (\<lambda>e. fail (EDomain cat op e)) g"

lemmas call_defs = ret_def fail_def on_def wrapped_def


section \<open>Messages and the broker\<close>

type_synonym header = "(string, string list) fmap"

record nats_msg =
  nm_Subject :: string
  nm_Data :: string
  nm_Header :: header

record metadata =
  md_Stream :: "64 word"
  md_NumDelivered :: "64 word"
  md_Timestamp :: gotime

text \<open>A delivered message; its metadata cannot be read when it is no JetStream message.\<close>

record message =
  m_msg :: nats_msg
  m_Metadata :: "metadata option"

definition StreamSeq :: "message \<Rightarrow> 64 word" where
  "StreamSeq m = (case m_Metadata m of None \<Rightarrow> 0 | Some md \<Rightarrow> md_Stream md)"

definition Attempt :: "message \<Rightarrow> 64 word" where
  "Attempt m = (case m_Metadata m of None \<Rightarrow> 1 | Some md \<Rightarrow> md_NumDelivered md)"

definition Data :: "message \<Rightarrow> string" where
  "Data m = nm_Data (m_msg m)"

definition Subject :: "message \<Rightarrow> string" where
  "Subject m = nm_Subject (m_msg m)"

definition Header :: "message \<Rightarrow> header" where
  "Header m = nm_Header (m_msg m)"

text \<open>\<open>Get\<close> and \<open>Set\<close> of \<open>nats.Header\<close>: the first value, and one value in place of all.\<close>

definition header_Get :: "header \<Rightarrow> string \<Rightarrow> string" where
  "header_Get h k = (case fmlookup h k of Some (v # _) \<Rightarrow> v | _ \<Rightarrow> [])"

definition header_of :: "strmap \<Rightarrow> header" where
  "header_of headers = fmmap (\<lambda>v. [v]) headers"

record stream_config =
  sc_Name :: string
  sc_Subjects :: "string list"
  sc_MaxAge :: duration
  sc_MaxBytes :: int
  sc_Duplicates :: duration

record stream_state =
  ss_Msgs :: "64 word"
  ss_FirstSeq :: "64 word"
  ss_LastSeq :: "64 word"

datatype answer = Acked | Refused goerr | Interrupted goerr

record 'b broker =
  br_PublishMsg :: "'b ctx \<Rightarrow> nats_msg \<Rightarrow> string \<Rightarrow> ('b, unit) call"
  br_PublishMsgAsync :: "nats_msg \<Rightarrow> string \<Rightarrow> ('b, int) call"
  br_Await :: "'b ctx \<Rightarrow> int \<Rightarrow> 'b \<Rightarrow> answer \<times> 'b"
  br_CreateOrUpdateStream :: "'b ctx \<Rightarrow> stream_config \<Rightarrow> ('b, unit) call"
  br_Stream :: "'b ctx \<Rightarrow> string \<Rightarrow> ('b, unit) call"
  br_StreamInfo :: "'b ctx \<Rightarrow> string \<Rightarrow> ('b, stream_state) call"
  br_GetMsg :: "'b ctx \<Rightarrow> string \<Rightarrow> 64 word \<Rightarrow> ('b, nats_msg) call"
  br_DeleteMsg :: "'b ctx \<Rightarrow> string \<Rightarrow> 64 word \<Rightarrow> ('b, unit) call"
  br_Purge :: "'b ctx \<Rightarrow> string \<Rightarrow> ('b, unit) call"
  br_Consumer :: "'b ctx \<Rightarrow> string \<Rightarrow> string \<Rightarrow> ('b, unit) call"
  br_ConsumerInfo :: "'b ctx \<Rightarrow> string \<Rightarrow> string \<Rightarrow> ('b, 64 word \<times> int) call"
  br_CreateConsumer :: "'b ctx \<Rightarrow> string \<Rightarrow> string \<Rightarrow> gotime \<Rightarrow> ('b, int) call"
  br_FetchNoWait :: "int \<Rightarrow> int \<Rightarrow> ('b, message list \<times> goerr option) call"
  br_Ack :: "message \<Rightarrow> ('b, unit) call"
  br_NakWithDelay :: "message \<Rightarrow> duration \<Rightarrow> ('b, unit) call"
  br_Term :: "message \<Rightarrow> ('b, unit) call"
  br_IsConnected :: "'b \<Rightarrow> bool"
  br_Flush :: "'b ctx \<Rightarrow> ('b, unit) call"
  br_Now :: "'b \<Rightarrow> gotime"
  br_Sleep :: "'b ctx \<Rightarrow> duration \<Rightarrow> 'b \<Rightarrow> 'b"
  br_Int63n :: "int \<Rightarrow> 'b \<Rightarrow> int \<times> 'b"
  br_ErrTimeout :: goerr
  br_ErrNoResponders :: goerr
  br_ErrConnectionClosed :: goerr
  br_ErrDisconnected :: goerr
  br_ErrNoStreamResponse :: goerr
  br_ErrMsgNotFound :: goerr

text \<open>\<open>context.WithTimeout(context.WithoutCancel(ctx), d)\<close>, made in the world \<open>b\<close>.\<close>

definition detached :: "'b broker \<Rightarrow> duration \<Rightarrow> 'b \<Rightarrow> 'b ctx" where
  "detached br d b = (\<lambda>b'. if br_Now br b + d \<le> br_Now br b' then Some EDeadlineExceeded else None)"


section \<open>Health and streams\<close>

definition Ping :: "'b broker \<Rightarrow> 'b ctx \<Rightarrow> ('b, unit) call" where
  "Ping br ctx b =
     (if \<not> br_IsConnected br b then fail (Errorf CategoryDependency ''nats not connected'') b
      else wrapped CategoryDependency ''nats flush'' (br_Flush br ctx) ret b)"

definition StreamTelemetryRaw :: string where "StreamTelemetryRaw = ''TELEMETRY_RAW''"
definition StreamTelemetryNormalized :: string where "StreamTelemetryNormalized = ''TELEMETRY_NORMALIZED''"
definition StreamInventory :: string where "StreamInventory = ''INVENTORY''"
definition StreamEvents :: string where "StreamEvents = ''EVENTS''"
definition StreamAutomation :: string where "StreamAutomation = ''AUTOMATION''"
definition StreamDeadLetter :: string where "StreamDeadLetter = ''DEADLETTER''"

text \<open>All streams keep messages up to their limits, in files, and discard the oldest.\<close>

definition StreamSpecs :: "stream_config list" where
  "StreamSpecs =
     (let day = 24 * hour in
      [\<lparr>sc_Name = StreamTelemetryRaw, sc_Subjects = [SubjectRawPrefix @ ''.>''], sc_MaxAge = 2 * day,
        sc_MaxBytes = 2 ^ 30, sc_Duplicates = 2 * minute\<rparr>,
       \<lparr>sc_Name = StreamTelemetryNormalized, sc_Subjects = [SubjectNormalized], sc_MaxAge = 2 * day,
        sc_MaxBytes = 2 ^ 30, sc_Duplicates = 2 * minute\<rparr>,
       \<lparr>sc_Name = StreamInventory, sc_Subjects = [SubjectInventoryObserved], sc_MaxAge = 7 * day,
        sc_MaxBytes = 64 * 2 ^ 20, sc_Duplicates = 2 * minute\<rparr>,
       \<lparr>sc_Name = StreamEvents, sc_Subjects = [SubjectEventDevice, SubjectEventAlert], sc_MaxAge = 30 * day,
        sc_MaxBytes = 256 * 2 ^ 20, sc_Duplicates = 10 * minute\<rparr>,
       \<lparr>sc_Name = StreamAutomation, sc_Subjects = [SubjectAutomationRequest, SubjectAutomationResult],
        sc_MaxAge = 30 * day, sc_MaxBytes = 256 * 2 ^ 20, sc_Duplicates = 10 * minute\<rparr>,
       \<lparr>sc_Name = StreamDeadLetter, sc_Subjects = [SubjectDeadLetter], sc_MaxAge = 14 * day,
        sc_MaxBytes = 128 * 2 ^ 20, sc_Duplicates = 0\<rparr>])"

fun ensure_streams :: "'b broker \<Rightarrow> 'b ctx \<Rightarrow> stream_config list \<Rightarrow> ('b, unit) call" where
  "ensure_streams br ctx [] = ret ()"
| "ensure_streams br ctx (spec # specs) =
     wrapped CategoryDependency (''ensure stream '' @ sc_Name spec) (br_CreateOrUpdateStream br ctx spec)
       (\<lambda>_. ensure_streams br ctx specs)"

definition EnsureStreams :: "'b broker \<Rightarrow> 'b ctx \<Rightarrow> ('b, unit) call" where
  "EnsureStreams br ctx = ensure_streams br ctx StreamSpecs"

definition ConsumerBacklog :: "'b broker \<Rightarrow> 'b ctx \<Rightarrow> string \<Rightarrow> string \<Rightarrow> ('b, 64 word \<times> 64 word) call" where
  "ConsumerBacklog br ctx stream durable =
     wrapped CategoryDependency (''consumer '' @ durable) (br_Consumer br ctx stream durable) (\<lambda>_.
     wrapped CategoryDependency (''consumer info '' @ durable) (br_ConsumerInfo br ctx stream durable) (\<lambda>(pending, ackPending).
     ret (pending, word_of_int ackPending)))"


section \<open>Publishing\<close>

definition retryablePublish :: "'b broker \<Rightarrow> goerr \<Rightarrow> bool" where
  "retryablePublish br err \<longleftrightarrow>
     err_is err (br_ErrTimeout br) \<or> err_is err (br_ErrNoResponders br) \<or>
     err_is err (br_ErrConnectionClosed br) \<or> err_is err (br_ErrDisconnected br) \<or>
     err_is err (br_ErrNoStreamResponse br)"

definition categoryOfPublish :: "'b broker \<Rightarrow> goerr \<Rightarrow> category" where
  "categoryOfPublish br err =
     (if err_is err EDeadlineExceeded \<or> err_is err (br_ErrTimeout br) then CategoryTimeout
      else if retryablePublish br err then CategoryDependency
      else CategoryPermanent)"

text \<open>
  The retry loop: \<open>attempts\<close> are the numbers still to try. The wait also happens after the last one.
\<close>

fun publish_loop :: "'b broker \<Rightarrow> 'b ctx \<Rightarrow> nats_msg \<Rightarrow> string \<Rightarrow> int list \<Rightarrow> goerr option \<Rightarrow> ('b, unit) call" where
  "publish_loop br ctx msg msgID [] err =
     (case err of None \<Rightarrow> ret () | Some e \<Rightarrow> fail (EDomain (categoryOfPublish br e) (''publish '' @ nm_Subject msg) e))"
| "publish_loop br ctx msg msgID (a # as) err =
     on (br_PublishMsg br ctx msg msgID)
       (\<lambda>e b. if ctx b \<noteq> None \<or> \<not> retryablePublish br e then publish_loop br ctx msg msgID [] (Some e) b
              else publish_loop br ctx msg msgID as (Some e) (br_Sleep br ctx ((a + 1) * (100 * millisecond)) b))
       ret"

definition Publish :: "'b broker \<Rightarrow> 'b ctx \<Rightarrow> string \<Rightarrow> string \<Rightarrow> string \<Rightarrow> strmap \<Rightarrow> ('b, unit) call" where
  "Publish br ctx subject msgID payload headers =
     publish_loop br ctx \<lparr>nm_Subject = subject, nm_Data = payload, nm_Header = header_of headers\<rparr> msgID [0, 1, 2] None"

record out_msg =
  out_Subject :: string
  out_MsgID :: string
  out_Payload :: string
  out_Headers :: strmap

fun publish_async :: "'b broker \<Rightarrow> out_msg list \<Rightarrow> ('b, int list) call" where
  "publish_async br [] = ret []"
| "publish_async br (m # ms) =
     on (br_PublishMsgAsync br \<lparr>nm_Subject = out_Subject m, nm_Data = out_Payload m, nm_Header = header_of (out_Headers m)\<rparr>
           (out_MsgID m))
       (\<lambda>e. fail (EDomain (categoryOfPublish br e) (''publish '' @ out_Subject m) e))
       (\<lambda>f. on (publish_async br ms) fail (\<lambda>fs. ret (f # fs)))"

fun await_all :: "'b broker \<Rightarrow> 'b ctx \<Rightarrow> int list \<Rightarrow> ('b, unit) call" where
  "await_all br ctx [] b = (Inr (), b)"
| "await_all br ctx (f # fs) b =
     (case br_Await br ctx f b of
        (Acked, b') \<Rightarrow> await_all br ctx fs b'
      | (Refused e, b') \<Rightarrow> (Inl (EDomain (categoryOfPublish br e) ''publish batch'' e), b')
      | (Interrupted e, b') \<Rightarrow> (Inl (EDomain CategoryTimeout ''publish batch'' e), b'))"

definition PublishBatch :: "'b broker \<Rightarrow> 'b ctx \<Rightarrow> out_msg list \<Rightarrow> ('b, unit) call" where
  "PublishBatch br ctx msgs = on (publish_async br msgs) fail (await_all br ctx)"

end
