(* ===== verification/Dead_Letters.thy ===== *)
theory Dead_Letters
  imports Messaging Go_Json
begin

text \<open>
  Dead letters (\<open>internal/messaging/deadletter.go\<close> and the envelope of worker.go): the envelope and
  its JSON text, listing, replaying and purging, the watch for exhausted deliveries, and the replay
  of a window of a stream. A byte slice is a string; Go writes a nil slice as \<open>null\<close> and an empty one
  as an empty text, and reads both back as no bytes. The texts of the decoder's errors are left out.
\<close>


section \<open>The envelope (worker.go)\<close>

record dead_letter =
  dl_ID :: string
  dl_Consumer :: string
  dl_Stream :: string
  dl_Sequence :: "64 word"
  dl_Subject :: string
  dl_Headers :: header
  dl_Payload :: string
  dl_Error :: string
  dl_Category :: string
  dl_Reason :: string
  dl_Attempts :: "64 word"
  dl_FailedAt :: gotime

definition dead_letter_zero :: dead_letter where
  "dead_letter_zero = \<lparr>dl_ID = [], dl_Consumer = [], dl_Stream = [], dl_Sequence = 0, dl_Subject = [],
     dl_Headers = fmempty, dl_Payload = [], dl_Error = [], dl_Category = [], dl_Reason = [], dl_Attempts = 0,
     dl_FailedAt = 0\<rparr>"

definition dead_letter_json :: "dead_letter \<Rightarrow> json" where
  "dead_letter_json dl = JObj (
     [(''id'', JStr (dl_ID dl)), (''consumer'', JStr (dl_Consumer dl)), (''stream'', JStr (dl_Stream dl)),
      (''sequence'', uint_json (dl_Sequence dl)), (''subject'', JStr (dl_Subject dl))]
     @ (if dl_Headers dl = fmempty then [] else [(''headers'', map_json strings_json (dl_Headers dl))])
     @ [(''payload'', JStr (encode64 std64 True (dl_Payload dl))), (''error'', JStr (dl_Error dl)),
      (''category'', JStr (dl_Category dl)), (''reason'', JStr (dl_Reason dl)),
      (''attempts'', uint_json (dl_Attempts dl)), (''failed_at'', time_json (dl_FailedAt dl))])"

definition marshal_dead_letter :: "dead_letter \<Rightarrow> goerr + string" where
  "marshal_dead_letter dl =
     (if json_time (dl_FailedAt dl) then Inr (show_json (dead_letter_json dl))
      else Inl (EPlain ''json: error calling MarshalJSON for type time.Time: Time.MarshalJSON: year outside of range [0,9999]''))"

definition dead_letter_fields :: "dead_letter field list" where
  "dead_letter_fields =
     [(''id'', str_field (\<lambda>x r. r\<lparr>dl_ID := x\<rparr>)),
      (''consumer'', str_field (\<lambda>x r. r\<lparr>dl_Consumer := x\<rparr>)),
      (''stream'', str_field (\<lambda>x r. r\<lparr>dl_Stream := x\<rparr>)),
      (''sequence'', uint64_field (\<lambda>x r. r\<lparr>dl_Sequence := x\<rparr>)),
      (''subject'', str_field (\<lambda>x r. r\<lparr>dl_Subject := x\<rparr>)),
      (''headers'', map_field read_strings dl_Headers (\<lambda>x r. r\<lparr>dl_Headers := x\<rparr>)),
      (''payload'', bytes_field (\<lambda>x r. r\<lparr>dl_Payload := x\<rparr>)),
      (''error'', str_field (\<lambda>x r. r\<lparr>dl_Error := x\<rparr>)),
      (''category'', str_field (\<lambda>x r. r\<lparr>dl_Category := x\<rparr>)),
      (''reason'', str_field (\<lambda>x r. r\<lparr>dl_Reason := x\<rparr>)),
      (''attempts'', uint64_field (\<lambda>x r. r\<lparr>dl_Attempts := x\<rparr>)),
      (''failed_at'', time_field (\<lambda>x r. r\<lparr>dl_FailedAt := x\<rparr>))]"

definition unmarshal_dead_letter :: "string \<Rightarrow> dead_letter option" where
  "unmarshal_dead_letter b = Option.bind (parse_json b) (decode_struct False dead_letter_fields dead_letter_zero)"


section \<open>Listing, replay, purge\<close>

record dead_letter_record =
  dr_StreamSeq :: "64 word"
  dr_DeadLetter :: dead_letter

text \<open>
  The loop over the sequence numbers, counted as integers: a stream whose last number is the largest
  64-bit one, where the code's counter would wrap, does not occur.
\<close>

function list_loop :: "'b broker \<Rightarrow> 'b ctx \<Rightarrow> int \<Rightarrow> int \<Rightarrow> int \<Rightarrow> dead_letter_record list \<Rightarrow> ('b, dead_letter_record list) call" where
  "list_loop br ctx limit lastSeq seq out =
     (if lastSeq < seq \<or> limit \<le> int (length out) then ret out
      else on (br_GetMsg br ctx StreamDeadLetter (word_of_int seq))
        (\<lambda>e. if err_is e (br_ErrMsgNotFound br) then list_loop br ctx limit lastSeq (seq + 1) out
             else fail (EDomain CategoryDependency ''read dead letter'' e))
        (\<lambda>raw. case unmarshal_dead_letter (nm_Data raw) of
             None \<Rightarrow> list_loop br ctx limit lastSeq (seq + 1) out
           | Some dl \<Rightarrow> list_loop br ctx limit lastSeq (seq + 1)
                          (out @ [\<lparr>dr_StreamSeq = word_of_int seq, dr_DeadLetter = dl\<rparr>])))"
  by pat_completeness auto
termination
  by (relation "measure (\<lambda>(br, ctx, limit, lastSeq, seq, out). nat (lastSeq + 1 - seq))") auto

declare list_loop.simps [simp del]

definition ListDeadLetters :: "'b broker \<Rightarrow> 'b ctx \<Rightarrow> int \<Rightarrow> ('b, dead_letter_record list) call" where
  "ListDeadLetters br ctx limit =
     wrapped CategoryDependency ''open dead-letter stream'' (br_Stream br ctx StreamDeadLetter) (\<lambda>_.
     wrapped CategoryDependency ''dead-letter stream info'' (br_StreamInfo br ctx StreamDeadLetter) (\<lambda>st.
     if ss_Msgs st = 0 then ret []
     else list_loop br ctx limit (uint (ss_LastSeq st)) (max (uint (ss_FirstSeq st)) 1) []))"

text \<open>\<open>strconv.FormatInt(_, 36)\<close>.\<close>

definition digit36 :: "int \<Rightarrow> char" where
  "digit36 d = (if d < 10 then digit_char d else char_of (87 + d))"

function show36_pos :: "int \<Rightarrow> string" where
  "show36_pos n = (if n < 36 then [digit36 n] else show36_pos (n div 36) @ [digit36 (n mod 36)])"
  by pat_completeness auto
termination
  by (relation "measure nat") auto

declare show36_pos.simps [simp del]

definition show36 :: "int \<Rightarrow> string" where
  "show36 n = (if n < 0 then ''-'' @ show36_pos (- n) else show36_pos n)"

definition unix_nano :: "gotime \<Rightarrow> int" where
  "unix_nano t = t - 62135596800 * second"

text \<open>The first value of every header that has one, except the de-duplication id.\<close>

definition first_headers :: "header \<Rightarrow> strmap" where
  "first_headers h = fmmap hd (fmfilter (\<lambda>k. k \<noteq> HeaderMsgID \<and> fmlookup h k \<noteq> Some []) h)"

definition replay_letter :: "'b broker \<Rightarrow> 'b ctx \<Rightarrow> 64 word \<Rightarrow> dead_letter \<Rightarrow> ('b, unit) call" where
  "replay_letter br ctx streamSeq dl b =
     (let headers = fmap_of_list [(''X-Replay'', ''true''), (''X-Replay-Of'', dl_ID dl)] ++\<^sub>f first_headers (dl_Headers dl);
          msgID = dl_ID dl @ ''.replay.'' @ show36 (unix_nano (br_Now br b))
      in on (Publish br ctx (dl_Subject dl) msgID (dl_Payload dl) headers) fail (\<lambda>_.
         wrapped CategoryDependency ''remove replayed dead letter'' (br_DeleteMsg br ctx StreamDeadLetter streamSeq) ret) b)"

definition ReplayDeadLetter :: "'b broker \<Rightarrow> 'b ctx \<Rightarrow> 64 word \<Rightarrow> ('b, unit) call" where
  "ReplayDeadLetter br ctx streamSeq =
     wrapped CategoryDependency ''open dead-letter stream'' (br_Stream br ctx StreamDeadLetter) (\<lambda>_.
     wrapped CategoryPermanent ''read dead letter'' (br_GetMsg br ctx StreamDeadLetter streamSeq) (\<lambda>raw.
     case unmarshal_dead_letter (nm_Data raw) of
       None \<Rightarrow> fail (EDomain CategoryValidation ''decode dead letter'' (EPlain ''json''))
     | Some dl \<Rightarrow> replay_letter br ctx streamSeq dl))"

definition PurgeDeadLetters :: "'b broker \<Rightarrow> 'b ctx \<Rightarrow> ('b, unit) call" where
  "PurgeDeadLetters br ctx =
     wrapped CategoryDependency ''open dead-letter stream'' (br_Stream br ctx StreamDeadLetter) (\<lambda>_.
     wrapped CategoryDependency ''purge dead letters'' (br_Purge br ctx StreamDeadLetter) ret)"


section \<open>Exhausted deliveries\<close>

record max_delivery_advisory =
  adv_Stream :: string
  adv_Consumer :: string
  adv_StreamSeq :: "64 word"
  adv_Deliveries :: "64 word"

definition advisory_fields :: "max_delivery_advisory field list" where
  "advisory_fields =
     [(''stream'', str_field (\<lambda>x r. r\<lparr>adv_Stream := x\<rparr>)),
      (''consumer'', str_field (\<lambda>x r. r\<lparr>adv_Consumer := x\<rparr>)),
      (''stream_seq'', uint64_field (\<lambda>x r. r\<lparr>adv_StreamSeq := x\<rparr>)),
      (''deliveries'', uint64_field (\<lambda>x r. r\<lparr>adv_Deliveries := x\<rparr>))]"

text \<open>The handler \<open>WatchMaxDeliveries\<close> subscribes; it has no result, errors are logged.\<close>

definition on_max_deliveries :: "'b broker \<Rightarrow> string \<Rightarrow> string \<Rightarrow> string \<Rightarrow> string \<Rightarrow> 'b \<Rightarrow> 'b" where
  "on_max_deliveries br stream consumer deadLetterSubject data b =
     (case Option.bind (parse_json data) (decode_struct False advisory_fields
             \<lparr>adv_Stream = [], adv_Consumer = [], adv_StreamSeq = 0, adv_Deliveries = 0\<rparr>) of
        None \<Rightarrow> b
      | Some adv \<Rightarrow>
          if adv_StreamSeq adv = 0 then b
          else let pctx = detached br (10 * second) b in
            (case br_GetMsg br pctx stream (adv_StreamSeq adv) b of
               (Inl err, b1) \<Rightarrow> b1
             | (Inr raw, b1) \<Rightarrow>
                 let dl = \<lparr>dl_ID = StableID [''dlq'', consumer, stream, show_int (uint (adv_StreamSeq adv))],
                           dl_Consumer = consumer, dl_Stream = stream, dl_Sequence = adv_StreamSeq adv,
                           dl_Subject = nm_Subject raw, dl_Headers = nm_Header raw, dl_Payload = nm_Data raw,
                           dl_Error = ''delivery attempts exhausted without the handler reporting a result (worker stopped mid-handling?)'',
                           dl_Category = category_text CategoryTransient, dl_Reason = ''max_deliveries'',
                           dl_Attempts = adv_Deliveries adv, dl_FailedAt = br_Now br b1\<rparr>;
                     payload = (case marshal_dead_letter dl of Inl e \<Rightarrow> [] | Inr p \<Rightarrow> p)
                 in snd (Publish br pctx deadLetterSubject (dl_ID dl) payload (fmap_of_list [(HeaderSchema, DeadLetterV1)]) b1)))"

definition watch_subject :: "string \<Rightarrow> string" where
  "watch_subject deadLetterSubject = (if deadLetterSubject = [] then SubjectDeadLetter else deadLetterSubject)"


section \<open>Replaying a window of a stream\<close>

definition replay_headers :: "header \<Rightarrow> strmap" where
  "replay_headers h = fmap_of_list [(''X-Replay'', ''true'')] ++\<^sub>f first_headers h"

definition replay_id :: "message \<Rightarrow> metadata \<Rightarrow> string \<Rightarrow> string" where
  "replay_id m md stamp =
     (let given = header_Get (Header m) HeaderMsgID
      in (if given = [] then ''seq-'' @ show_int (uint (md_Stream md)) else given) @ ''.replay.'' @ stamp)"

text \<open>
  One batch: the count so far, and whether the window or the horizon was passed, which ends the
  replay. A failed publish ends it with the error; the message it failed on is counted.
\<close>

fun replay_batch :: "'b broker \<Rightarrow> 'b ctx \<Rightarrow> 64 word \<Rightarrow> gotime \<Rightarrow> bool \<Rightarrow> string \<Rightarrow> message list \<Rightarrow> int \<Rightarrow> 'b \<Rightarrow>
    (bool \<times> int \<times> goerr option) \<times> 'b" where
  "replay_batch br ctx horizon until dryRun stamp [] n b = ((False, n, None), b)"
| "replay_batch br ctx horizon until dryRun stamp (m # ms) n b =
     (case m_Metadata m of
        None \<Rightarrow> replay_batch br ctx horizon until dryRun stamp ms n b
      | Some md \<Rightarrow>
          if horizon < md_Stream md \<or> (until \<noteq> 0 \<and> \<not> md_Timestamp md < until) then ((True, n, None), b)
          else if dryRun then replay_batch br ctx horizon until dryRun stamp ms (n + 1) b
          else case Publish br ctx (Subject m) (replay_id m md stamp) (Data m) (replay_headers (Header m)) b of
                 (Inl e, b') \<Rightarrow> ((True, n + 1, Some e), b')
               | (Inr _, b') \<Rightarrow> replay_batch br ctx horizon until dryRun stamp ms (n + 1) b')"

text \<open>The outer loop; \<open>None\<close> when the fuel is used up before it returned.\<close>

fun replay_loop :: "'b broker \<Rightarrow> 'b ctx \<Rightarrow> int \<Rightarrow> 64 word \<Rightarrow> gotime \<Rightarrow> bool \<Rightarrow> string \<Rightarrow> nat \<Rightarrow> int \<Rightarrow> 'b \<Rightarrow>
    ((int \<times> goerr option) \<times> 'b) option" where
  "replay_loop br ctx cons horizon until dryRun stamp 0 n b = None"
| "replay_loop br ctx cons horizon until dryRun stamp (Suc fuel) n b =
     (case br_FetchNoWait br cons 200 b of
        (Inl e, b1) \<Rightarrow> Some ((n, Some (EDomain CategoryDependency ''fetch for replay'' e)), b1)
      | (Inr (ms, batchErr), b1) \<Rightarrow>
          (case replay_batch br ctx horizon until dryRun stamp ms n b1 of
             ((True, n', err), b2) \<Rightarrow> Some ((n', err), b2)
           | ((False, n', _), b2) \<Rightarrow>
               (case batchErr of
                  Some e \<Rightarrow>
                    if err_is e (br_ErrTimeout br)
                    then (if ms = [] then Some ((n', None), b2) else replay_loop br ctx cons horizon until dryRun stamp fuel n' b2)
                    else Some ((n', Some (EDomain CategoryDependency ''replay batch'' e)), b2)
                | None \<Rightarrow> if ms = [] then Some ((n', None), b2) else replay_loop br ctx cons horizon until dryRun stamp fuel n' b2)))"

definition ReplayStream :: "'b broker \<Rightarrow> nat \<Rightarrow> 'b ctx \<Rightarrow> string \<Rightarrow> string \<Rightarrow> gotime \<Rightarrow> gotime \<Rightarrow> bool \<Rightarrow> 'b \<Rightarrow>
    ((int \<times> goerr option) \<times> 'b) option" where
  "ReplayStream br fuel ctx streamName filt since until dryRun b =
     (case br_Stream br ctx streamName b of
        (Inl e, b1) \<Rightarrow> Some ((0, Some (EDomain CategoryDependency (''open stream '' @ streamName) e)), b1)
      | (Inr _, b1) \<Rightarrow>
        (case br_StreamInfo br ctx streamName b1 of
           (Inl e, b2) \<Rightarrow> Some ((0, Some (EDomain CategoryDependency ''stream info'' e)), b2)
         | (Inr st, b2) \<Rightarrow>
           (case br_CreateConsumer br ctx streamName filt since b2 of
              (Inl e, b3) \<Rightarrow> Some ((0, Some (EDomain CategoryDependency ''create replay consumer'' e)), b3)
            | (Inr cons, b3) \<Rightarrow>
                replay_loop br ctx cons (ss_LastSeq st) until dryRun (show36 (unix_seconds (br_Now br b3))) fuel 0 b3)))"


section \<open>The envelope round trip\<close>

definition utf8_header :: "header \<Rightarrow> bool" where
  "utf8_header h \<longleftrightarrow> list_all (\<lambda>(k, vs). valid_utf8 k \<and> list_all valid_utf8 vs) (fm_items h)"

text \<open>The envelopes whose text carries them: valid text everywhere but in the payload, and a writable time.\<close>

definition portable :: "dead_letter \<Rightarrow> bool" where
  "portable dl \<longleftrightarrow> list_all valid_utf8 [dl_ID dl, dl_Consumer dl, dl_Stream dl, dl_Subject dl, dl_Error dl, dl_Category dl, dl_Reason dl]
     \<and> utf8_header (dl_Headers dl) \<and> json_time (dl_FailedAt dl)"

lemma literal_names:
  "list_all valid_utf8 [''id'', ''consumer'', ''stream'', ''sequence'', ''subject'', ''headers'', ''payload'', ''error'',
     ''category'', ''reason'', ''attempts'', ''failed_at'']"
  by code_simp

lemma dead_letter_writable: "portable dl \<Longrightarrow> writable 0 (dead_letter_json dl)"
proof -
  assume dl: "portable dl"
  have "writable 1 (map_json strings_json (dl_Headers dl))"
  proof (rule writable_map)
    fix k v assume "fmlookup (dl_Headers dl) k = Some v"
    then have "(k, v) \<in> set (fm_items (dl_Headers dl))" by (simp add: set_fm_items)
    with dl show "valid_utf8 k \<and> writable (Suc 1) (strings_json v)"
      by (auto simp: portable_def utf8_header_def list_all_iff max_nesting_def intro!: writable_strings)
  qed (simp add: max_nesting_def)
  with dl literal_names writable_bytes show ?thesis by (simp add: dead_letter_json_def portable_def max_nesting_def)
qed

lemma dead_letter_decode: "portable dl \<Longrightarrow> decode_struct False dead_letter_fields dead_letter_zero (dead_letter_json dl) = Some dl"
  by (simp add: decode_struct_def dead_letter_json_def set_fields_append find_field_def dead_letter_fields_def json_fields
      map_field_write dead_letter_zero_def portable_def)

lemma dead_letter_text: "portable dl \<Longrightarrow> \<exists>text. marshal_dead_letter dl = Inr text \<and> unmarshal_dead_letter text = Some dl"
  using parse_json_show [OF dead_letter_writable] dead_letter_decode
  by (simp add: marshal_dead_letter_def unmarshal_dead_letter_def portable_def)


section \<open>The replay of a window ends\<close>

text \<open>
  What JetStream documents of a consumer: it hands out the messages of its stream in the order of
  their sequence numbers, each once. \<open>pos\<close> is the number it has reached in a world; publishing and
  waiting do not turn it back.
\<close>

definition seq_of :: "message \<Rightarrow> int" where
  "seq_of m = uint (StreamSeq m)"

definition forward_consumer :: "'b broker \<Rightarrow> int \<Rightarrow> ('b \<Rightarrow> int) \<Rightarrow> bool" where
  "forward_consumer br cons pos \<longleftrightarrow>
     (\<forall>b ms e b1. br_FetchNoWait br cons 200 b = (Inr (ms, e), b1) \<longrightarrow>
        list_all (\<lambda>m. m_Metadata m \<noteq> None) ms \<and> sorted_wrt (<) (pos b # map seq_of ms) \<and> (ms \<noteq> [] \<longrightarrow> seq_of (last ms) \<le> pos b1))
   \<and> (\<forall>ctx m i b. pos b \<le> pos (snd (br_PublishMsg br ctx m i b)))
   \<and> (\<forall>ctx d b. pos b \<le> pos (br_Sleep br ctx d b))
   \<and> (\<forall>b. 0 \<le> pos b)"

lemma publish_loop_keeps_pos:
  assumes "forward_consumer br cons pos"
  shows "pos b \<le> pos (snd (publish_loop br ctx msg i as err b))"
proof -
  have pub: "pos b \<le> pos (snd (br_PublishMsg br ctx msg i b))" and sleep: "pos b \<le> pos (br_Sleep br ctx d b)" for b d
    using assms by (simp_all add: forward_consumer_def)
  show ?thesis
  proof (induction as arbitrary: err b)
    case (Cons a as)
    obtain r b1 where r: "br_PublishMsg br ctx msg i b = (r, b1)" by fastforce
    have b1: "pos b \<le> pos b1" using pub [of b] r by simp
    show ?case
    proof (cases r)
      case (Inl e)
      have "pos b1 \<le> pos (snd (publish_loop br ctx msg i as (Some e) (br_Sleep br ctx ((a + 1) * (100 * millisecond)) b1)))"
        using Cons.IH sleep order_trans by blast
      with b1 Inl r show ?thesis by (simp add: call_defs)
    qed (use b1 r in \<open>simp add: call_defs\<close>)
  qed (simp add: call_defs split: option.splits)
qed

lemma replay_batch_bounds:
  assumes "forward_consumer br cons pos" "list_all (\<lambda>m. m_Metadata m \<noteq> None) ms" "sorted_wrt (<) (p # map seq_of ms)"
    and "replay_batch br ctx horizon until dryRun stamp ms n b = ((stop, n', err), b')"
  shows "pos b \<le> pos b' \<and> n \<le> n' \<and> n' \<le> n + max 0 (uint horizon - p)
    \<and> (\<not> stop \<and> ms \<noteq> [] \<longrightarrow> seq_of (last ms) \<le> uint horizon \<and> n' \<le> n + seq_of (last ms) - p)"
  using assms(2-4)
proof (induction ms arbitrary: p n b)
  case (Cons m ms)
  obtain md where md: "m_Metadata m = Some md" using Cons.prems(1) by auto
  then have seq: "seq_of m = uint (md_Stream md)" by (simp add: seq_of_def StreamSeq_def)
  show ?case
  proof (cases "horizon < md_Stream md \<or> (until \<noteq> 0 \<and> \<not> md_Timestamp md < until)")
    case True
    with Cons.prems(3) md show ?thesis by auto
  next
    case False
    then have h: "seq_of m \<le> uint horizon" by (simp add: seq word_le_def linorder_not_less)
    have p: "p < seq_of m" "list_all (\<lambda>m. m_Metadata m \<noteq> None) ms" "sorted_wrt (<) (seq_of m # map seq_of ms)"
      using Cons.prems(1,2) by simp_all
    have rest: ?thesis if run: "replay_batch br ctx horizon until dryRun stamp ms (n + 1) b0 = ((stop, n', err), b')" "pos b \<le> pos b0" for b0
      using Cons.IH [OF p(2,3) run(1)] run p(1) h by (cases "ms = []") auto
    show ?thesis
    proof (cases dryRun)
      case True
      with False md Cons.prems(3) show ?thesis by (intro rest [of b]) (simp_all split: if_splits)
    next
      case live: False
      obtain r b1 where r: "Publish br ctx (Subject m) (replay_id m md stamp) (Data m) (replay_headers (Header m)) b = (r, b1)" by fastforce
      then have b1: "pos b \<le> pos b1" using publish_loop_keeps_pos [OF assms(1)] unfolding Publish_def by (metis snd_conv)
      show ?thesis
      proof (cases r)
        case (Inl e)
        with r md False live Cons.prems(3) b1 p(1) h show ?thesis by auto
      next
        case (Inr u)
        with r md False live Cons.prems(3) b1 show ?thesis by (intro rest [of b1]) (simp_all split: if_splits)
      qed
    qed
  qed
qed auto

lemma replay_loop_ends:
  assumes "forward_consumer br cons pos" "max 0 (uint horizon - pos b) < int fuel"
  shows "\<exists>n' err b'. replay_loop br ctx cons horizon until dryRun stamp fuel n b = Some ((n', err), b')
      \<and> n \<le> n' \<and> n' \<le> n + max 0 (uint horizon - pos b)"
  using assms(2)
proof (induction fuel arbitrary: n b)
  case (Suc fuel)
  obtain r b1 where r: "br_FetchNoWait br cons 200 b = (r, b1)" by fastforce
  show ?case
  proof (cases r)
    case (Inl e)
    with r show ?thesis by simp
  next
    case (Inr x)
    then obtain ms e where x: "r = Inr (ms, e)" by (cases x) auto
    have fwd: "list_all (\<lambda>m. m_Metadata m \<noteq> None) ms" "sorted_wrt (<) (pos b # map seq_of ms)" "ms \<noteq> [] \<longrightarrow> seq_of (last ms) \<le> pos b1"
      using assms(1) r x unfolding forward_consumer_def by blast+
    obtain stop n1 err b2 where batch: "replay_batch br ctx horizon until dryRun stamp ms n b1 = ((stop, n1, err), b2)" by (metis surj_pair)
    note bounds = replay_batch_bounds [OF assms(1) fwd(1,2) batch]
    show ?thesis
    proof (cases "stop \<or> ms = [] \<or> (\<exists>e'. e = Some e' \<and> \<not> err_is e' (br_ErrTimeout br))")
      case True
      with r x batch bounds show ?thesis by (auto split: option.splits bool.splits)
    next
      case False
      then have last: "seq_of (last ms) \<le> uint horizon" "n1 \<le> n + seq_of (last ms) - pos b" "seq_of (last ms) \<le> pos b2" "pos b < seq_of (last ms)"
        using bounds fwd by (auto simp: last_in_set)
      then have "max 0 (uint horizon - pos b2) < int fuel" using Suc.prems by linarith
      from Suc.IH [OF this, of n1] obtain n' err' b' where
        "replay_loop br ctx cons horizon until dryRun stamp fuel n1 b2 = Some ((n', err'), b')" "n1 \<le> n'" "n' \<le> n1 + max 0 (uint horizon - pos b2)"
        by blast
      with False r x batch bounds last show ?thesis by (auto split: option.splits)
    qed
  qed
qed simp


section \<open>Properties\<close>

text \<open>
  (C27) A dead letter survives the trip through the stream: whatever bytes the payload holds, reading
  back the text that was published gives the same envelope, if its other texts are valid UTF-8 and
  the time of the failure has a four-digit year.
\<close>

theorem dead_letter_roundtrip:
  assumes "portable dl"
  shows "\<exists>text. marshal_dead_letter dl = Inr text \<and> unmarshal_dead_letter text = Some dl"
  using assms by (rule dead_letter_text)

text \<open>
  (C28) Replaying a stream window ends, although it publishes into the stream it reads: once the
  fuel exceeds the last sequence number the stream had at the start, the loop has returned, and it
  has counted at most that many messages. The consumer is assumed to hand out messages in sequence
  order, each once.
\<close>

theorem stream_replay_ends:
  assumes "\<forall>cons. \<exists>pos. forward_consumer br cons pos"
    and "\<forall>b1 st b2. br_Stream br ctx streamName b = (Inr (), b1) \<longrightarrow> br_StreamInfo br ctx streamName b1 = (Inr st, b2) \<longrightarrow> uint (ss_LastSeq st) \<le> bound"
    and "bound < int fuel" "0 \<le> bound"
  shows "\<exists>n err b'. ReplayStream br fuel ctx streamName filt since until dryRun b = Some ((n, err), b') \<and> 0 \<le> n \<and> n \<le> bound"
proof -
  have loop: "\<exists>n err b'. replay_loop br ctx cons (ss_LastSeq st) until dryRun stamp fuel 0 b3 = Some ((n, err), b') \<and> 0 \<le> n \<and> n \<le> bound"
    if "br_Stream br ctx streamName b = (Inr (), b1)" "br_StreamInfo br ctx streamName b1 = (Inr st, b2)" for cons st b1 b2 b3 stamp
  proof -
    obtain pos where pos: "forward_consumer br cons pos" using assms(1) by blast
    then have "0 \<le> pos b3" by (simp add: forward_consumer_def)
    moreover have "uint (ss_LastSeq st) \<le> bound" using assms(2) that by blast
    ultimately have "max 0 (uint (ss_LastSeq st) - pos b3) \<le> bound" using assms(4) by simp
    with replay_loop_ends [OF pos, of "ss_LastSeq st" b3 fuel ctx until dryRun stamp 0] assms(3) show ?thesis by fastforce
  qed
  show ?thesis
    unfolding ReplayStream_def using loop assms(4) by (auto split: prod.splits sum.splits)
qed


section \<open>Witnesses\<close>

text \<open>A broker with one stream, a list of messages into which publishing appends, and a read position.\<close>

record ex_world =
  xw_msgs :: "nats_msg list"
  xw_pos :: nat

definition ex_message :: "nats_msg list \<Rightarrow> nat \<Rightarrow> message" where
  "ex_message ms i = \<lparr>m_msg = ms ! i, m_Metadata = Some \<lparr>md_Stream = word_of_nat (Suc i), md_NumDelivered = 1, md_Timestamp = 5\<rparr>\<rparr>"

definition ex_broker :: "ex_world broker" where
  "ex_broker = \<lparr>
     br_PublishMsg = (\<lambda>ctx m i b. (Inr (), b\<lparr>xw_msgs := xw_msgs b @ [m]\<rparr>)),
     br_PublishMsgAsync = (\<lambda>m i b. (Inr 0, b\<lparr>xw_msgs := xw_msgs b @ [m]\<rparr>)),
     br_Await = (\<lambda>ctx f b. (Acked, b)),
     br_CreateOrUpdateStream = (\<lambda>ctx c. ret ()), br_Stream = (\<lambda>ctx s. ret ()),
     br_StreamInfo = (\<lambda>ctx s b. ret \<lparr>ss_Msgs = word_of_nat (length (xw_msgs b)), ss_FirstSeq = 1,
        ss_LastSeq = word_of_nat (length (xw_msgs b))\<rparr> b),
     br_GetMsg = (\<lambda>ctx s i b. if 0 < i \<and> unat i \<le> length (xw_msgs b) then ret (xw_msgs b ! (unat i - 1)) b
        else fail (ESentinel ''message not found'') b),
     br_DeleteMsg = (\<lambda>ctx s i. ret ()), br_Purge = (\<lambda>ctx s b. ret () (b\<lparr>xw_msgs := []\<rparr>)),
     br_Consumer = (\<lambda>ctx s d. ret ()), br_ConsumerInfo = (\<lambda>ctx s d. ret (0, 0)),
     br_CreateConsumer = (\<lambda>ctx s f t. ret 1),
     br_FetchNoWait = (\<lambda>c k b. let is = filter (\<lambda>i. int (Suc i) < 2 ^ 64) [xw_pos b ..< min (length (xw_msgs b)) (xw_pos b + nat k)]
        in (Inr (map (ex_message (xw_msgs b)) is, None), b\<lparr>xw_pos := max (xw_pos b) (min (length (xw_msgs b)) (xw_pos b + nat k))\<rparr>)),
     br_Ack = (\<lambda>m. ret ()), br_NakWithDelay = (\<lambda>m d. ret ()), br_Term = (\<lambda>m. ret ()),
     br_IsConnected = (\<lambda>b. True), br_Flush = (\<lambda>ctx. ret ()), br_Now = (\<lambda>b. 63000000000 * second),
     br_Sleep = (\<lambda>ctx d b. b), br_Int63n = (\<lambda>n b. (0, b)),
     br_ErrTimeout = ESentinel ''nats: timeout'', br_ErrNoResponders = ESentinel ''nats: no responders'',
     br_ErrConnectionClosed = ESentinel ''nats: connection closed'', br_ErrDisconnected = ESentinel ''nats: disconnected'',
     br_ErrNoStreamResponse = ESentinel ''nats: no response from stream'', br_ErrMsgNotFound = ESentinel ''message not found''\<rparr>"

lemma ex_message_seq: "int (Suc i) < 2 ^ 64 \<Longrightarrow> seq_of (ex_message ms i) = int (Suc i)"
proof -
  have "uint (word_of_nat n :: 64 word) = int n" if "int n < 2 ^ 64" for n
    using that by (simp add: unsigned_of_nat take_bit_eq_mod of_nat_mod)
  from this [of "Suc i"] show "int (Suc i) < 2 ^ 64 \<Longrightarrow> ?thesis"
    by (simp add: seq_of_def StreamSeq_def ex_message_def del: of_nat_Suc)
qed

lemma ex_broker_forward: "forward_consumer ex_broker cons (\<lambda>b. int (xw_pos b))"
proof -
  have "list_all (\<lambda>m. m_Metadata m \<noteq> None) ms \<and> sorted_wrt (<) (int (xw_pos b) # map seq_of ms) \<and> (ms \<noteq> [] \<longrightarrow> seq_of (last ms) \<le> int (xw_pos b1))"
    if fetch: "br_FetchNoWait ex_broker cons 200 b = (Inr (ms, e), b1)" for b ms e b1
  proof -
    define ix where "ix = filter (\<lambda>i. int (Suc i) < 2 ^ 64) [xw_pos b ..< min (length (xw_msgs b)) (xw_pos b + 200)]"
    have ms: "ms = map (ex_message (xw_msgs b)) ix" "xw_pos b1 = max (xw_pos b) (min (length (xw_msgs b)) (xw_pos b + 200))"
      using fetch by (auto simp: ex_broker_def ix_def Let_def)
    have small: "int (Suc i) < 2 ^ 64" "xw_pos b \<le> i" "Suc i \<le> xw_pos b1" if "i \<in> set ix" for i
      using that by (auto simp: ix_def ms(2))
    have seqs: "map seq_of ms = map (\<lambda>i. int (Suc i)) ix" using small(1) by (auto simp: ms(1) ex_message_seq simp del: of_nat_Suc)
    have "sorted_wrt (<) ix" unfolding ix_def by (intro sorted_wrt_filter) simp
    then have "sorted_wrt (<) (map (\<lambda>i. int (Suc i)) ix)" by (simp add: sorted_wrt_map)
    moreover have "\<forall>i \<in> set ix. int (xw_pos b) < int (Suc i)" using small(2) by force
    ultimately have "sorted_wrt (<) (int (xw_pos b) # map seq_of ms)" unfolding seqs by auto
    moreover have "seq_of (last ms) \<le> int (xw_pos b1)" if "ms \<noteq> []"
    proof -
      have "last ms = ex_message (xw_msgs b) (last ix)" "last ix \<in> set ix" using that by (simp_all add: ms(1) last_map)
      with small(1,3) show ?thesis by (metis ex_message_seq of_nat_mono)
    qed
    moreover have "list_all (\<lambda>m. m_Metadata m \<noteq> None) ms" by (auto simp: ms(1) list_all_iff ex_message_def)
    ultimately show ?thesis by blast
  qed
  then show ?thesis by (simp add: forward_consumer_def) (simp add: ex_broker_def)
qed

definition ex_letter :: dead_letter where
  "ex_letter = dead_letter_zero\<lparr>dl_ID := ''d1'', dl_Subject := ''telemetry.raw.snmp'', dl_Payload := [CHR 0xFF, CHR 0x00, CHR 0x41],
     dl_Headers := fmap_of_list [(''X-Schema'', [''observation.v1''])], dl_Sequence := 7, dl_FailedAt := 63000000000 * second\<rparr>"

theorem dead_letter_roundtrip_witness:
  "portable ex_letter \<and> (\<exists>text. marshal_dead_letter ex_letter = Inr text \<and> unmarshal_dead_letter text = Some ex_letter)"
proof -
  have "portable ex_letter" by code_simp
  with dead_letter_roundtrip [OF this] show ?thesis by simp
qed

definition ex_stream :: ex_world where
  "ex_stream = \<lparr>xw_msgs = [\<lparr>nm_Subject = ''a'', nm_Data = ''x'', nm_Header = fmempty\<rparr>, \<lparr>nm_Subject = ''a'', nm_Data = ''y'', nm_Header = fmempty\<rparr>], xw_pos = 0\<rparr>"

theorem stream_replay_ends_witness:
  "\<exists>n err b'. ReplayStream ex_broker 3 (\<lambda>b. None) ''S'' ''a'' 0 0 False ex_stream = Some ((n, err), b') \<and> 0 \<le> n \<and> n \<le> 2"
  using ex_broker_forward
  by (intro stream_replay_ends) (auto simp: ex_broker_def ret_def ex_stream_def)

end
