(* ===== verification/Float_Error.thy ===== *)
theory Float_Error
  imports Go_Float
begin

text \<open>
  The rounding of \<open>float64\<close>: in the range of normal numbers a result is the exact one up to a relative
  error of \<open>2 ^ - 53\<close>, and a number close enough to a double rounds to it.
\<close>

lemma pow_int_eq: "pow_int b e = (of_int b) powi e"
  by (simp add: pow_int_def power_int_def field_simps)

lemma powi_less: "(2::rat) powi a < 2 powi b \<Longrightarrow> a < b"
  using power_int_increasing [of b a "2::rat"] by (meson leD leI one_le_numeral)

lemma num_digits_bounds:
  assumes "0 < n" "2 \<le> b"
  shows "1 \<le> num_digits b n \<and> (of_int b :: rat) powi (num_digits b n - 1) \<le> of_int n \<and> of_int n < (of_int b :: rat) powi (num_digits b n)"
  using assms
proof (induction b n rule: num_digits.induct)
  case (1 b n)
  let ?b = "of_int b :: rat"
  have b: "0 < ?b" using 1 by simp
  show ?case
  proof (cases "n < b")
    case True
    then have "num_digits b (n div b) = 0" using 1 by (simp add: num_digits.simps)
    then have "num_digits b n = 1" using 1 by (subst num_digits.simps) simp
    with True 1 show ?thesis by simp
  next
    case False
    with 1 have "0 < n div b" by (simp add: pos_imp_zdiv_pos_iff)
    with 1 have IH: "1 \<le> num_digits b (n div b)" "?b powi (num_digits b (n div b) - 1) \<le> of_int (n div b)"
      "of_int (n div b) < ?b powi (num_digits b (n div b))" by auto
    define k where "k = num_digits b (n div b)"
    have d: "num_digits b n = k + 1" using 1 by (subst num_digits.simps) (simp add: k_def)
    have pw: "?b powi k = ?b * ?b powi (k - 1)" "?b powi (k + 1) = ?b * ?b powi k"
      using b by (simp_all add: power_int_diff power_int_add)
    have "of_int (n div b) < (of_int (b ^ nat k) :: rat)" using IH(1,3) by (simp add: power_int_def k_def)
    then have "n div b + 1 \<le> b ^ nat k" by (simp only: of_int_less_iff)
    then have "b * (n div b + 1) \<le> b * b ^ nat k" using 1 by (intro mult_left_mono) auto
    moreover have "n < b * (n div b + 1)" using 1 by (simp add: algebra_simps) (smt (verit) pos_mod_bound mult_div_mod_eq)
    ultimately have "of_int n < (of_int (b * b ^ nat k) :: rat)" by (simp only: of_int_less_iff)
    then have up: "of_int n < ?b powi (k + 1)" using IH(1) pw by (simp add: power_int_def k_def)
    have "b * (n div b) \<le> n" using 1 by (smt (verit) pos_mod_sign mult_div_mod_eq)
    then have "of_int (b * (n div b)) \<le> (of_int n :: rat)" by (simp only: of_int_le_iff)
    moreover have "?b * ?b powi (k - 1) \<le> ?b * of_int (n div b)" using IH(2) b by (intro mult_left_mono) (simp_all add: k_def)
    ultimately have "?b powi k \<le> of_int n" using pw(1) by simp
    with up d IH(1) show ?thesis by (simp add: k_def)
  qed
qed

lemma lead_exp_general:
  assumes "0 < x" "2 \<le> b"
  shows "(of_int b :: rat) powi (lead_exp b x - 1) \<le> x" "x < of_int b powi (lead_exp b x)"
proof -
  let ?b = "of_int b :: rat"
  have b: "0 < ?b" using assms(2) by simp
  obtain p q where pq: "quotient_of x = (p, q)" by fastforce
  then have q: "0 < q" and x: "x = of_int p / of_int q" by (simp_all add: quotient_of_denom_pos quotient_of_div)
  with assms have p: "0 < p" by (simp add: zero_less_divide_iff)
  define a c where "a = num_digits b p" and "c = num_digits b q"
  have A: "?b powi (a - 1) \<le> of_int p" "of_int p < ?b powi a" and B: "?b powi (c - 1) \<le> of_int q" "of_int q < ?b powi c"
    using num_digits_bounds [OF p assms(2)] num_digits_bounds [OF q assms(2)] by (simp_all add: a_def c_def)
  have "?b powi (a - 1) / ?b powi c \<le> x"
    unfolding x using A B p q b by (intro frac_le) auto
  then have low: "?b powi (a - c - 1) \<le> x" using b by (simp add: power_int_diff mult.commute)
  have "x < ?b powi a / ?b powi (c - 1)"
    unfolding x using A B p b by (intro frac_less) auto
  then have high: "x < ?b powi (a - c + 1)" using b by (simp add: power_int_diff power_int_add algebra_simps)
  have lead: "lead_exp b x = (if ?b powi (a - c) \<le> x then a - c + 1 else a - c)"
    by (simp add: lead_exp_def pq a_def c_def pow_int_eq)
  with low high show "?b powi (lead_exp b x - 1) \<le> x" "x < ?b powi (lead_exp b x)" by (auto split: if_splits)
qed

lemma lead_exp_bounds: "0 < x \<Longrightarrow> (2::rat) powi (lead_exp 2 x - 1) \<le> x" "0 < x \<Longrightarrow> x < 2 powi (lead_exp 2 x)"
  using lead_exp_general [of x 2] by simp_all

lemma round_half_even_error: "\<bar>of_int (round_half_even x) - x\<bar> \<le> 1 / 2"
proof -
  have "of_int \<lfloor>x\<rfloor> \<le> x" "x < of_int \<lfloor>x\<rfloor> + 1" by linarith+
  then show ?thesis by (simp add: round_half_even_def Let_def abs_if; linarith)
qed

theorem f64_round_error:
  assumes "2 powi (- 1022) \<le> x" "x < 2 powi 1023"
  shows "\<exists>y. f64_round x = F_Fin y \<and> \<bar>y - x\<bar> \<le> x * 2 powi (- 53)"
proof -
  have "(0::rat) < 2 powi (- 1022)" by simp
  with assms(1) have pos: "0 < x" by linarith
  define l where "l = lead_exp 2 x"
  note L = lead_exp_bounds [OF pos, folded l_def]
  have "(2::rat) powi (- 1022) < 2 powi l" using assms(1) L(2) by linarith
  then have l: "- 1022 < l" by (rule powi_less)
  define e where "e = l - 53"
  have e: "max (lead_exp 2 \<bar>x\<bar> - 53) (- 1074) = e" using l pos by (simp add: e_def l_def)
  define m where "m = round_half_even (x / 2 powi e)"
  define y where "y = of_int m * (2::rat) powi e"
  have "\<bar>y - x\<bar> = \<bar>of_int m - x / 2 powi e\<bar> * 2 powi e" proof -
    have "y - x = (of_int m - x / 2 powi e) * 2 powi e" by (simp add: y_def left_diff_distrib)
    then show ?thesis by (simp add: abs_mult)
  qed
  also have "\<dots> \<le> 1 / 2 * 2 powi e" using round_half_even_error [of "x / 2 powi e"] by (intro mult_right_mono) (simp_all add: m_def)
  also have "\<dots> = 2 powi (l - 1) * 2 powi (- 53)" by (simp add: e_def power_int_diff power_int_minus field_simps)
  also have "\<dots> \<le> x * 2 powi (- 53)" using L(1) by (intro mult_right_mono) simp_all
  finally have err: "\<bar>y - x\<bar> \<le> x * 2 powi (- 53)" .
  moreover have "x * 2 powi (- 53) \<le> x * (1 / 2)" using pos by (intro mult_left_mono) (simp_all add: power_int_minus field_simps)
  ultimately have y: "0 < y" "y < 2 * x" using pos by linarith+
  have "2 * x < (2::rat) powi 1024" using assms(2) by (simp add: power_int_add [of 2 1023 1, simplified])
  with y lead_exp_bounds(1) [OF y(1)] have "(2::rat) powi (lead_exp 2 y - 1) < 2 powi 1024" by linarith
  then have "lead_exp 2 y - 1 < 1024" by (rule powi_less)
  then have "f64_round x = F_Fin y"
    using pos e by (simp add: f64_round_def Let_def pow_int_eq flip: m_def y_def)
  with err show ?thesis by blast
qed



section \<open>Numbers close to a double\<close>

lemma round_half_even_near: "\<bar>x - of_int n\<bar> < 1 / 2 \<Longrightarrow> round_half_even x = n"
proof -
  assume near: "\<bar>x - of_int n\<bar> < 1 / 2"
  have "\<lfloor>x\<rfloor> = n \<or> \<lfloor>x\<rfloor> = n - 1" using near by linarith
  then show ?thesis using near by (auto simp: round_half_even_def Let_def abs_if split: if_splits)
qed

lemma powi_mult: "(2::rat) powi a * 2 powi b = 2 powi (a + b)"
  by (simp add: power_int_add)

text \<open>A positive double: an integer times a power of two that is not too small, below the largest exponent.\<close>

lemma f64_round_fixed:
  assumes "f64_round x = F_Fin x" "0 < x"
  obtains M where "x = of_int M * 2 powi (max (lead_exp 2 x - 53) (- 1074))" "1 \<le> M" "lead_exp 2 x \<le> 1024"
proof -
  define e where "e = max (lead_exp 2 x - 53) (- 1074)"
  define M where "M = round_half_even (x / 2 powi e)"
  have x: "x = of_int M * 2 powi e" "lead_exp 2 x \<le> 1024"
    using assms by (auto simp: f64_round_def Let_def pow_int_eq e_def M_def split: if_splits)
  have "0 < of_int M * (2::rat) powi e" using assms(2) x(1) by (simp only:)
  moreover have "\<not> (2::rat) powi e < 0" by (simp add: not_less)
  ultimately have "1 \<le> M" by (auto simp: zero_less_mult_iff)
  from that [OF x(1) [unfolded e_def] this x(2)] show ?thesis .
qed

lemma powi_multiple:
  assumes "a \<le> b"
  shows "(2::rat) powi b = of_int (2 ^ nat (b - a)) * 2 powi a"
proof -
  have "(2::rat) powi b = 2 powi (b - a) * 2 powi a" by (simp add: powi_mult)
  also have "(2::rat) powi (b - a) = of_int (2 ^ nat (b - a))" using assms by (simp add: power_int_def)
  finally show ?thesis .
qed

lemma lead_exp_near:
  assumes x: "x = of_int M * 2 powi e" "1 \<le> M" "e = max (lead_exp 2 x - 53) (- 1074)"
    and y: "\<bar>y - x\<bar> < x * 2 powi (- 54)"
  shows "lead_exp 2 y = lead_exp 2 x \<or> (lead_exp 2 y = lead_exp 2 x - 1 \<and> x = 2 powi (lead_exp 2 x - 1))"
proof -
  define l where "l = lead_exp 2 x"
  have pos: "0 < x" using x(1,2) by simp
  note L = lead_exp_bounds [OF pos, folded l_def]
  have small: "x * 2 powi (- 54) < 2 powi (l - 54)" using L(2) by (simp add: power_int_diff power_int_minus field_simps)
  have half: "x * 2 powi (- 54) \<le> x / 4" using pos by (simp add: power_int_minus field_simps)
  have ypos: "0 < y" using y half pos by linarith
  note LY = lead_exp_bounds [OF ypos]
  have "of_int 1 * (2::rat) powi e \<le> of_int M * 2 powi e" using x(2) by (intro mult_right_mono) simp_all
  then have "(2::rat) powi e \<le> x" by (simp add: x(1))
  with L(2) have "(2::rat) powi e < 2 powi l" by linarith
  then have el: "e < l" by (rule powi_less)
  have e53: "(2::rat) powi (l - 53) \<le> 2 powi e" using x(3) by (simp add: l_def power_int_increasing)
  have unit: "(2::rat) powi (l - 54) < 2 powi e"
  proof -
    have "(2::rat) powi (l - 54) < 2 powi (l - 53)" by (simp add: power_int_strict_increasing)
    with e53 show ?thesis by linarith
  qed
  have up: "lead_exp 2 y \<le> l"
  proof (rule ccontr)
    assume "\<not> lead_exp 2 y \<le> l"
    then have "(2::rat) powi l \<le> 2 powi (lead_exp 2 y - 1)" by (simp add: power_int_increasing)
    with LY(1) have "2 powi l \<le> y" by linarith
    moreover define N :: int where "N = 2 ^ nat (l - e)"
    have N: "(2::rat) powi l = of_int N * 2 powi e" using el by (simp add: N_def powi_multiple [of e l])
    have "of_int M * (2::rat) powi e < of_int N * 2 powi e" using L(2) x(1) N by simp
    then have "M + 1 \<le> N" by simp
    then have "of_int (M + 1) * (2::rat) powi e \<le> of_int N * 2 powi e" by (intro mult_right_mono) (simp_all only: of_int_le_iff, simp)
    then have "x + 2 powi e \<le> 2 powi l" using x(1) N by (simp add: distrib_right)
    ultimately show False using y small unit by linarith
  qed
  show ?thesis
  proof (cases "lead_exp 2 y = l")
    case False
    with up have less: "lead_exp 2 y \<le> l - 1" by simp
    then have "(2::rat) powi (lead_exp 2 y) \<le> 2 powi (l - 1)" by (simp add: power_int_increasing)
    with LY(2) have below: "y < 2 powi (l - 1)" by linarith
    define N :: int where "N = 2 ^ nat (l - 1 - e)"
    have N: "(2::rat) powi (l - 1) = of_int N * 2 powi e" using el by (simp add: N_def powi_multiple [of e "l - 1"])
    have "(of_int M - of_int N) * (2::rat) powi e < 1 * 2 powi e"
      using y small unit below x(1) N by (simp add: left_diff_distrib; linarith)
    then have "M - N < 1" by (simp flip: of_int_diff)
    moreover have "of_int N * (2::rat) powi e \<le> of_int M * 2 powi e" using L(1) x(1) N by simp
    then have "N \<le> M" by simp
    ultimately have eq: "x = 2 powi (l - 1)" using x(1) N by simp
    have "(2::rat) powi (l - 2) < y"
    proof -
      have "x / 4 < x / 2" using pos by simp
      then have "x / 2 < y" using y half by linarith
      then show ?thesis using eq by (simp add: power_int_diff)
    qed
    with LY(2) have "(2::rat) powi (l - 2) < 2 powi (lead_exp 2 y)" by linarith
    then have "l - 2 < lead_exp 2 y" by (rule powi_less)
    with less have "lead_exp 2 y = l - 1" by simp
    with eq show ?thesis unfolding l_def by blast
  qed (simp add: l_def)
qed


theorem f64_round_near:
  assumes x: "f64_round x = F_Fin x" "0 < x" and y: "\<bar>y - x\<bar> < x * 2 powi (- 54)"
  shows "f64_round y = F_Fin x"
proof -
  define l e where "l = lead_exp 2 x" and "e = max (l - 53) (- 1074)"
  obtain M where M: "x = of_int M * 2 powi e" "1 \<le> M" "l \<le> 1024"
    using f64_round_fixed [OF x] unfolding l_def e_def by blast
  note L = lead_exp_bounds [OF x(2), folded l_def]
  define k d where "k = lead_exp 2 y" and "d = max (k - 53) (- 1074)"
  have half: "x * 2 powi (- 54) \<le> x / 4" using x(2) by (simp add: power_int_minus field_simps)
  have ypos: "0 < y" using y half x(2) by linarith
  have "\<exists>N. x = of_int N * 2 powi d \<and> \<bar>y - x\<bar> < 2 powi (d - 1)"
    using lead_exp_near [OF M(1,2) _ y]
  proof (rule disjE)
    show "e = max (lead_exp 2 x - 53) (- 1074)" by (simp add: e_def l_def)
  next
    assume "lead_exp 2 y = lead_exp 2 x"
    then have d: "d = e" by (simp add: d_def e_def k_def l_def)
    have "x * 2 powi (- 54) < 2 powi l * 2 powi (- 54)" using L(2) by (intro mult_strict_right_mono) simp_all
    also have "\<dots> = 2 powi (l - 54)" by (simp only: powi_mult add_uminus_conv_diff)
    also have "\<dots> \<le> 2 powi (d - 1)" by (intro power_int_increasing) (simp_all add: d e_def)
    finally show ?thesis using y M(1) d by (intro exI [of _ M]) auto
  next
    assume a: "lead_exp 2 y = lead_exp 2 x - 1 \<and> x = 2 powi (lead_exp 2 x - 1)"
    then have k: "x = 2 powi k" by (simp add: k_def)
    have "of_int 1 * (2::rat) powi e \<le> of_int M * 2 powi e" using M(2) by (intro mult_right_mono) simp_all
    then have "(2::rat) powi e \<le> x" by (simp add: M(1))
    with L(2) have "(2::rat) powi e < 2 powi l" by linarith
    then have "e < l" by (rule powi_less)
    then have "d \<le> k" using a by (simp add: d_def e_def k_def l_def)
    then have N: "x = of_int (2 ^ nat (k - d)) * 2 powi d" unfolding k by (rule powi_multiple)
    have "x * 2 powi (- 54) = 2 powi (k - 54)" unfolding k by (simp only: powi_mult add_uminus_conv_diff)
    also have "\<dots> \<le> 2 powi (d - 1)" by (intro power_int_increasing) (simp_all add: d_def)
    finally show ?thesis using y N by (intro exI [of _ "2 ^ nat (k - d)"]) auto
  qed
  then obtain N where N: "x = of_int N * 2 powi d" "\<bar>y - x\<bar> < 2 powi (d - 1)" by blast
  have "\<bar>y / 2 powi d - of_int N\<bar> < 1 / 2"
  proof -
    have "y / 2 powi d - of_int N = (y - x) / 2 powi d" by (subst N(1)) (simp add: diff_divide_distrib)
    then have "\<bar>y / 2 powi d - of_int N\<bar> = \<bar>y - x\<bar> / 2 powi d" by simp
    also have "\<dots> < 2 powi (d - 1) / 2 powi d" using N(2) by (intro divide_strict_right_mono) simp_all
    also have "\<dots> = 1 / 2" by (simp add: power_int_diff)
    finally show ?thesis .
  qed
  then have r: "round_half_even (y / 2 powi d) = N" by (rule round_half_even_near)
  have "\<not> 1024 < lead_exp 2 x" using M(3) by (simp add: l_def)
  then show ?thesis
    using ypos r N(1) by (simp add: f64_round_def Let_def pow_int_eq flip: d_def k_def)
qed

end
