(* ===== verification/Worker.thy ===== *)
theory Worker
  imports Dead_Letters Float_Error "HOL-Library.Sublist"
begin

text \<open>
  The consumer of \<open>internal/messaging/worker.go\<close>: defaults of its options, the retry delay with its
  jitter, the handling of one message with retry and dead-lettering, and the shards that keep messages
  of one key in order. The heartbeat that extends a message's deadline while its handler runs is left
  out; it settles nothing. A panic's value is not part of the error text.
\<close>


section \<open>Options and counters\<close>

record 'b worker_options =
  wo_Name :: string
  wo_Stream :: string
  wo_Durable :: string
  wo_FilterSubject :: string
  wo_Shards :: int
  wo_QueueSize :: int
  wo_MaxDeliver :: int
  wo_AckWait :: duration
  wo_RetryDelay :: duration
  wo_MaxRetryDelay :: duration
  wo_KeyFunc :: "(message \<Rightarrow> string) option"
  wo_DeadLetterSubject :: string
  wo_ShutdownTimeout :: duration
  wo_DeadLetterRetryDelay :: duration
  wo_OnOutcome :: "(string \<Rightarrow> string \<Rightarrow> duration \<Rightarrow> 'b \<Rightarrow> 'b) option"

definition NewWorker :: "'b worker_options \<Rightarrow> 'b worker_options" where
  "NewWorker o' = o'\<lparr>
     wo_Shards := if wo_Shards o' < 1 then 1 else wo_Shards o',
     wo_QueueSize := if wo_QueueSize o' < 1 then 1 else wo_QueueSize o',
     wo_MaxDeliver := if wo_MaxDeliver o' < 1 then 5 else wo_MaxDeliver o',
     wo_AckWait := if wo_AckWait o' \<le> 0 then 30 * second else wo_AckWait o',
     wo_RetryDelay := if wo_RetryDelay o' \<le> 0 then second else wo_RetryDelay o',
     wo_MaxRetryDelay := if wo_MaxRetryDelay o' \<le> 0 then minute else wo_MaxRetryDelay o',
     wo_ShutdownTimeout := if wo_ShutdownTimeout o' \<le> 0 then 30 * second else wo_ShutdownTimeout o',
     wo_DeadLetterRetryDelay := if wo_DeadLetterRetryDelay o' \<le> 0 then 5 * second else wo_DeadLetterRetryDelay o',
     wo_DeadLetterSubject := if wo_DeadLetterSubject o' = [] then SubjectDeadLetter else wo_DeadLetterSubject o',
     wo_KeyFunc := (case wo_KeyFunc o' of None \<Rightarrow> Some Subject | Some f \<Rightarrow> Some f)\<rparr>"

definition KeyFunc :: "'b worker_options \<Rightarrow> message \<Rightarrow> string" where
  "KeyFunc o' m = (case wo_KeyFunc o' of None \<Rightarrow> Subject m | Some f \<Rightarrow> f m)"

record 'b worker =
  w_World :: 'b
  w_received :: "64 word"
  w_processed :: "64 word"
  w_retried :: "64 word"
  w_dead :: "64 word"
  w_dlqFail :: "64 word"
  w_panics :: "64 word"
  w_inflight :: "64 word"

definition shardFor :: "'b worker_options \<Rightarrow> string \<Rightarrow> nat" where
  "shardFor o' key = unat (fnv32a key mod word_of_int (wo_Shards o'))"


section \<open>Retry delay\<close>

definition int64 :: "int \<Rightarrow> int" where
  "int64 n = (n + 2 ^ 63) mod 2 ^ 64 - 2 ^ 63"

function backoff_loop :: "duration \<Rightarrow> int \<Rightarrow> int \<Rightarrow> duration \<Rightarrow> duration" where
  "backoff_loop cap attempt i d = (if i < attempt \<and> d < cap then backoff_loop cap attempt (i + 1) (int64 (d * 2)) else d)"
  by pat_completeness auto
termination
  by (relation "measure (\<lambda>(cap, attempt, i, d). nat (attempt - i))") auto

declare backoff_loop.simps [simp del]

definition backoff_base :: "'b worker_options \<Rightarrow> 64 word \<Rightarrow> duration" where
  "backoff_base o' attempt =
     (let d = backoff_loop (wo_MaxRetryDelay o') (uint attempt) 1 (wo_RetryDelay o')
      in if wo_MaxRetryDelay o' < d then wo_MaxRetryDelay o' else d)"

text \<open>
  \<open>rand.Float64\<close> is a 53-bit integer over \<open>2 ^ 53\<close>; both jitter constants are rounded to doubles.
  A conversion to an integer truncates; out of range it gives the smallest one (amd64).
\<close>

definition float64_of :: "int \<Rightarrow> f64" where
  "float64_of k = F_Fin (of_int k / 2 ^ 53)"

definition jitter :: "int \<Rightarrow> f64" where
  "jitter k = f64_add (f64_round (4 / 5)) (f64_mul (f64_round (2 / 5)) (float64_of k))"

definition f64_to_int64 :: "f64 \<Rightarrow> int" where
  "f64_to_int64 x =
     (case x of
        F_Fin a \<Rightarrow> (let n = (if 0 \<le> a then \<lfloor>a\<rfloor> else \<lceil>a\<rceil>) in if - (2 ^ 63) \<le> n \<and> n < 2 ^ 63 then n else - (2 ^ 63))
      | _ \<Rightarrow> - (2 ^ 63))"

definition backoff_delay :: "'b worker_options \<Rightarrow> 64 word \<Rightarrow> int \<Rightarrow> duration" where
  "backoff_delay o' attempt k = f64_to_int64 (f64_mul (f64_of_int (backoff_base o' attempt)) (jitter k))"

definition backoff :: "'b broker \<Rightarrow> 'b worker_options \<Rightarrow> 64 word \<Rightarrow> 'b \<Rightarrow> duration \<times> 'b" where
  "backoff br o' attempt b = (let (k, b') = br_Int63n br (2 ^ 53) b in (backoff_delay o' attempt k, b'))"


section \<open>One message\<close>

type_synonym 'b handler = "'b ctx \<Rightarrow> message \<Rightarrow> ('b, unit) prog"

definition safeHandle :: "'b handler \<Rightarrow> 'b ctx \<Rightarrow> message \<Rightarrow> 'b worker \<Rightarrow> goerr option \<times> 'b worker" where
  "safeHandle h ctx m w =
     (case h ctx m (w_World w) of
        (Done _, b) \<Rightarrow> (None, w\<lparr>w_World := b\<rparr>)
      | (Fails e, b) \<Rightarrow> (Some e, w\<lparr>w_World := b\<rparr>)
      | (Panics, b) \<Rightarrow> (Some (Errorf CategoryPermanent ''handler panic''), w\<lparr>w_World := b, w_panics := w_panics w + 1\<rparr>))"

definition letter_for :: "'b worker_options \<Rightarrow> message \<Rightarrow> goerr \<Rightarrow> string \<Rightarrow> 64 word \<Rightarrow> gotime \<Rightarrow> dead_letter" where
  "letter_for o' m cause reason attempts now =
     \<lparr>dl_ID = StableID [''dlq'', wo_Durable o', wo_Stream o', show_int (uint (StreamSeq m))],
      dl_Consumer = wo_Durable o', dl_Stream = wo_Stream o', dl_Sequence = StreamSeq m, dl_Subject = Subject m,
      dl_Headers = Header m, dl_Payload = Data m, dl_Error = err_text cause,
      dl_Category = category_text (CategoryOf cause), dl_Reason = reason, dl_Attempts = attempts, dl_FailedAt = now\<rparr>"

definition deadLetter :: "'b broker \<Rightarrow> 'b worker_options \<Rightarrow> message \<Rightarrow> goerr \<Rightarrow> string \<Rightarrow> 64 word \<Rightarrow> ('b, unit) call" where
  "deadLetter br o' m cause reason attempts b =
     (let dl = letter_for o' m cause reason attempts (br_Now br b) in
      case marshal_dead_letter dl of
        Inl e \<Rightarrow> (Inl e, b)
      | Inr payload \<Rightarrow>
          Publish br (detached br (5 * second) b) (wo_DeadLetterSubject o') (dl_ID dl) payload
            (message_headers DeadLetterV1 (header_Get (Header m) HeaderCorrelationID)) b)"

text \<open>Settling calls whose error is ignored or only logged.\<close>

definition settle :: "('b, unit) call \<Rightarrow> 'b worker \<Rightarrow> 'b worker" where
  "settle act w = w\<lparr>w_World := snd (act (w_World w))\<rparr>"

definition report :: "'b broker \<Rightarrow> 'b worker_options \<Rightarrow> message \<Rightarrow> gotime \<Rightarrow> string \<Rightarrow> 'b worker \<Rightarrow> 'b worker" where
  "report br o' m start result w =
     (case wo_OnOutcome o' of
        None \<Rightarrow> w
      | Some f \<Rightarrow> w\<lparr>w_World := f result (Subject m) (br_Now br (w_World w) - start) (w_World w)\<rparr>)"

definition settle_failed :: "'b broker \<Rightarrow> 'b worker_options \<Rightarrow> message \<Rightarrow> gotime \<Rightarrow> goerr \<Rightarrow> 64 word \<Rightarrow> 'b worker \<Rightarrow> 'b worker" where
  "settle_failed br o' m start err attempt w =
     (let reason = (if IsRetryable err then ''max_deliveries'' else ''poison'');
          (r, b) = deadLetter br o' m err reason attempt (w_World w); w1 = w\<lparr>w_World := b\<rparr>
      in case r of
           Inl e \<Rightarrow>
             (let (delay, b') = backoff br o' attempt b; w2 = w1\<lparr>w_World := b', w_dlqFail := w_dlqFail w1 + 1\<rparr>
              in report br o' m start ''dlq_failed'' (settle (br_NakWithDelay br m (delay + wo_DeadLetterRetryDelay o')) w2))
         | Inr _ \<Rightarrow>
             (let w2 = settle (br_Term br m) w1
              in report br o' m start ''dead_letter'' (w2\<lparr>w_dead := w_dead w2 + 1\<rparr>)))"

definition process_msg :: "'b broker \<Rightarrow> 'b worker_options \<Rightarrow> 'b handler \<Rightarrow> 'b ctx \<Rightarrow> message \<Rightarrow> 'b worker \<Rightarrow> 'b worker" where
  "process_msg br o' h ctx m w =
     (let start = br_Now br (w_World w) in
      if ctx (w_World w) \<noteq> None then settle (br_NakWithDelay br m 0) w
      else
        let attempt = Attempt m;
            (err, w1) = safeHandle h ctx m (w\<lparr>w_inflight := w_inflight w + 1\<rparr>);
            w' = (case err of
               None \<Rightarrow>
                 (let w2 = settle (br_Ack br m) w1
                  in report br o' m start ''processed'' (w2\<lparr>w_processed := w_processed w2 + 1\<rparr>))
             | Some e \<Rightarrow>
                 if ctx (w_World w1) \<noteq> None then report br o' m start ''retry'' (settle (br_NakWithDelay br m 0) w1)
                 else if IsRetryable e \<and> uint attempt < wo_MaxDeliver o' then
                   (let (delay, b) = backoff br o' attempt (w_World w1);
                        w2 = settle (br_NakWithDelay br m delay) (w1\<lparr>w_World := b\<rparr>)
                    in report br o' m start ''retry'' (w2\<lparr>w_retried := w_retried w2 + 1\<rparr>))
                 else settle_failed br o' m start e attempt w1)
        in w'\<lparr>w_inflight := w_inflight w' - 1\<rparr>)"


section \<open>Bounds of the delay\<close>

lemma int64_id: "- (2 ^ 63) \<le> n \<Longrightarrow> n < 2 ^ 63 \<Longrightarrow> int64 n = n"
  by (simp add: int64_def)

lemma backoff_loop_doubles:
  assumes "0 < d" "cap \<le> 2 ^ 62"
  shows "min cap (backoff_loop cap attempt i d) = min cap (d * 2 ^ nat (attempt - i))"
  using assms(1)
proof (induction "nat (attempt - i)" arbitrary: i d)
  case (Suc n)
  show ?case
  proof (cases "d < cap")
    case True
    have step: "i < attempt" "nat (attempt - i) = Suc (nat (attempt - (i + 1)))" "n = nat (attempt - (i + 1))" using Suc.hyps(2) by simp_all
    have "int64 (d * 2) = d * 2" using True assms(2) Suc.prems by (intro int64_id) auto
    with Suc.hyps(1) [OF step(3), of "d * 2"] Suc.prems step True show ?thesis
      by (subst backoff_loop.simps) (simp add: mult.assoc)
  next
    case False
    have "d * 1 \<le> d * 2 ^ nat (attempt - i)" using Suc.prems by (intro mult_left_mono) simp_all
    with False show ?thesis by (subst backoff_loop.simps) simp
  qed
qed (simp add: backoff_loop.simps)

lemma backoff_base_eq:
  assumes "0 < wo_RetryDelay o'" "wo_MaxRetryDelay o' \<le> 2 ^ 62"
  shows "backoff_base o' attempt = min (wo_MaxRetryDelay o') (wo_RetryDelay o' * 2 ^ nat (uint attempt - 1))"
  using backoff_loop_doubles [OF assms, of "uint attempt" 1] by (simp add: backoff_base_def Let_def min_def split: if_splits)

lemma near:
  assumes "1 / 2 ^ 60 \<le> x" "x < 2 ^ 70"
  shows "\<exists>y. f64_round x = F_Fin y \<and> x * (999999 / 1000000) \<le> y \<and> y \<le> x * (1000001 / 1000000)"
proof -
  have pos: "0 < x" using assms(1) by (rule less_le_trans [rotated]) simp
  have "(2::rat) powi (- 60) = 1 / 2 ^ 60" "(2::rat) powi 70 = 2 ^ 70" by (simp_all add: power_int_minus)
  with assms have x: "2 powi (- 60) \<le> x" "x < 2 powi 70" by (simp_all only:)
  have "(2::rat) powi (- 1022) \<le> 2 powi (- 60)" "(2::rat) powi 70 \<le> 2 powi 1023" by (rule power_int_increasing; simp only: one_le_numeral; linarith)+
  with x have lo: "2 powi (- 1022) \<le> x" and hi: "x < 2 powi 1023" by (blast intro: order_trans less_le_trans)+
  obtain y where y: "f64_round x = F_Fin y" "\<bar>y - x\<bar> \<le> x * 2 powi (- 53)" using f64_round_error [OF lo hi] by blast
  have "x * 2 powi (- 53) \<le> x * (1 / 1000000)" using pos by (intro mult_left_mono) (simp_all add: power_int_minus)
  with y(2) have "y - x \<le> x * (1 / 1000000)" "x - y \<le> x * (1 / 1000000)" by linarith+
  then have "x * (999999 / 1000000) \<le> y" "y \<le> x * (1000001 / 1000000)" by linarith+
  with y(1) show ?thesis by blast
qed

lemma jitter_bounds:
  assumes "0 \<le> k" "k < 2 ^ 53"
  shows "\<exists>j. jitter k = F_Fin j \<and> 7999 / 10000 \<le> j \<and> j \<le> 12001 / 10000"
proof -
  obtain a where a: "f64_round (4 / 5) = F_Fin a" "79999 / 100000 \<le> a" "a \<le> 80001 / 100000"
    using near [of "4 / 5"] by auto
  obtain b where b: "f64_round (2 / 5) = F_Fin b" "39999 / 100000 \<le> b" "b \<le> 40001 / 100000"
    using near [of "2 / 5"] by auto
  define r where "r = (of_int k :: rat) / 2 ^ 53"
  have r: "0 \<le> r" "r \<le> 1" "k \<noteq> 0 \<Longrightarrow> 1 / 2 ^ 53 \<le> r"
    using assms by (simp_all add: r_def divide_right_mono)
  have "\<exists>c. f64_round (b * r) = F_Fin c \<and> 0 \<le> c \<and> c \<le> 40002 / 100000"
  proof (cases "k = 0")
    case True
    then show ?thesis by (simp add: r_def f64_round_def)
  next
    case False
    have "39999 / 100000 * (1 / 2 ^ 53) \<le> b * r" using b r(3) [OF False] by (intro mult_mono) simp_all
    moreover have "b * r \<le> 40001 / 100000 * 1" using b r by (intro mult_mono) simp_all
    ultimately show ?thesis using near [of "b * r"] by force
  qed
  then obtain c where c: "f64_round (b * r) = F_Fin c" "0 \<le> c" "c \<le> 40002 / 100000" by blast
  obtain j where "f64_round (a + c) = F_Fin j" "(a + c) * (999999 / 1000000) \<le> j" "j \<le> (a + c) * (1000001 / 1000000)"
    using near [of "a + c"] a c by force
  with a b c show ?thesis by (intro exI [of _ j]) (auto simp: jitter_def float64_of_def r_def)
qed

lemma scaled_delay:
  assumes "1 \<le> d" "d \<le> 2 ^ 62" "0 \<le> k" "k < 2 ^ 53"
  shows "799 * d \<le> 1000 * (f64_to_int64 (f64_mul (f64_of_int d) (jitter k)) + 1)"
    "1000 * f64_to_int64 (f64_mul (f64_of_int d) (jitter k)) \<le> 1201 * d"
proof -
  obtain j where j: "jitter k = F_Fin j" "7999 / 10000 \<le> j" "j \<le> 12001 / 10000" using jitter_bounds assms by blast
  have d: "(1::rat) \<le> of_int d" "(of_int d :: rat) \<le> 2 ^ 62" using assms(1,2) by simp_all
  obtain f where f: "f64_of_int d = F_Fin f" "of_int d * (999999 / 1000000) \<le> f" "f \<le> of_int d * (1000001 / 1000000)"
    using near [of "of_int d"] d by (auto simp: f64_of_int_def)
  have fj: "of_int d * (999999 / 1000000) * (7999 / 10000) \<le> f * j" "f * j \<le> of_int d * (1000001 / 1000000) * (12001 / 10000)"
    using f j d by (intro mult_mono; simp)+
  obtain v where v: "f64_mul (F_Fin f) (F_Fin j) = F_Fin v" "f * j * (999999 / 1000000) \<le> v" "v \<le> f * j * (1000001 / 1000000)"
    using near [of "f * j"] d fj by auto
  have v': "799 / 1000 * of_int d \<le> v" "v \<le> 1201 / 1000 * of_int d" using v fj by linarith+
  have "0 \<le> v" using v'(1) d by linarith
  moreover have "v < 2 ^ 63" using v'(2) d(2) by simp
  ultimately have n: "f64_to_int64 (F_Fin v) = \<lfloor>v\<rfloor>" by (simp add: f64_to_int64_def Let_def floor_less_iff less_imp_le)
  have "799 / 1000 * of_int d < of_int \<lfloor>v\<rfloor> + (1::rat)" "of_int \<lfloor>v\<rfloor> \<le> 1201 / 1000 * (of_int d :: rat)" using v' by linarith+
  then have "of_int (799 * d) \<le> (of_int (1000 * (\<lfloor>v\<rfloor> + 1)) :: rat)" "of_int (1000 * \<lfloor>v\<rfloor>) \<le> (of_int (1201 * d) :: rat)" by simp_all
  then show "799 * d \<le> 1000 * (f64_to_int64 (f64_mul (f64_of_int d) (jitter k)) + 1)"
    "1000 * f64_to_int64 (f64_mul (f64_of_int d) (jitter k)) \<le> 1201 * d"
    by (simp_all only: of_int_le_iff f j v(1) n)
qed


section \<open>What is settled\<close>

text \<open>
  A broker that also keeps a record of what was done: messages it accepted, and every settling call.
  It is used to state what a worker does with a message; the handler acts on the world below.
\<close>

datatype deed = Published nats_msg string | DidAck message | DidNak message duration | DidTerm message | Deleted string "64 word"

type_synonym 'b traced_world = "'b \<times> deed list"

definition beneath :: "deed list \<Rightarrow> 'b traced_world ctx \<Rightarrow> 'b ctx" where
  "beneath l ctx = (\<lambda>b. ctx (b, l))"

definition below :: "(deed list \<Rightarrow> ('b, 'a) call) \<Rightarrow> ('b traced_world, 'a) call" where
  "below m = (\<lambda>(b, l). let (r, b') = m l b in (r, (b', l)))"

definition noted :: "(deed list \<Rightarrow> ('b, 'a) call) \<Rightarrow> deed \<Rightarrow> ('b traced_world, 'a) call" where
  "noted m d = (\<lambda>(b, l). let (r, b') = m l b in (r, (b', l @ [d])))"

definition noted_ok :: "(deed list \<Rightarrow> ('b, 'a) call) \<Rightarrow> deed \<Rightarrow> ('b traced_world, 'a) call" where
  "noted_ok m d = (\<lambda>(b, l). let (r, b') = m l b in (r, (b', if isl r then l else l @ [d])))"

definition traced :: "'b broker \<Rightarrow> 'b traced_world broker" where
  "traced br = \<lparr>
     br_PublishMsg = (\<lambda>ctx m i. noted_ok (\<lambda>l. br_PublishMsg br (beneath l ctx) m i) (Published m i)),
     br_PublishMsgAsync = (\<lambda>m i. noted_ok (\<lambda>l. br_PublishMsgAsync br m i) (Published m i)),
     br_Await = (\<lambda>ctx f (b, l). let (r, b') = br_Await br (beneath l ctx) f b in (r, (b', l))),
     br_CreateOrUpdateStream = (\<lambda>ctx c. below (\<lambda>l. br_CreateOrUpdateStream br (beneath l ctx) c)),
     br_Stream = (\<lambda>ctx n. below (\<lambda>l. br_Stream br (beneath l ctx) n)),
     br_StreamInfo = (\<lambda>ctx n. below (\<lambda>l. br_StreamInfo br (beneath l ctx) n)),
     br_GetMsg = (\<lambda>ctx n i. below (\<lambda>l. br_GetMsg br (beneath l ctx) n i)),
     br_DeleteMsg = (\<lambda>ctx n i. noted_ok (\<lambda>l. br_DeleteMsg br (beneath l ctx) n i) (Deleted n i)),
     br_Purge = (\<lambda>ctx n. below (\<lambda>l. br_Purge br (beneath l ctx) n)),
     br_Consumer = (\<lambda>ctx n d. below (\<lambda>l. br_Consumer br (beneath l ctx) n d)),
     br_ConsumerInfo = (\<lambda>ctx n d. below (\<lambda>l. br_ConsumerInfo br (beneath l ctx) n d)),
     br_CreateConsumer = (\<lambda>ctx n f t. below (\<lambda>l. br_CreateConsumer br (beneath l ctx) n f t)),
     br_FetchNoWait = (\<lambda>c k. below (\<lambda>l. br_FetchNoWait br c k)),
     br_Ack = (\<lambda>m. noted (\<lambda>l. br_Ack br m) (DidAck m)),
     br_NakWithDelay = (\<lambda>m d. noted (\<lambda>l. br_NakWithDelay br m d) (DidNak m d)),
     br_Term = (\<lambda>m. noted (\<lambda>l. br_Term br m) (DidTerm m)),
     br_IsConnected = (\<lambda>(b, l). br_IsConnected br b),
     br_Flush = (\<lambda>ctx. below (\<lambda>l. br_Flush br (beneath l ctx))),
     br_Now = (\<lambda>(b, l). br_Now br b),
     br_Sleep = (\<lambda>ctx d (b, l). (br_Sleep br (beneath l ctx) d b, l)),
     br_Int63n = (\<lambda>n (b, l). let (k, b') = br_Int63n br n b in (k, (b', l))),
     br_ErrTimeout = br_ErrTimeout br, br_ErrNoResponders = br_ErrNoResponders br,
     br_ErrConnectionClosed = br_ErrConnectionClosed br, br_ErrDisconnected = br_ErrDisconnected br,
     br_ErrNoStreamResponse = br_ErrNoStreamResponse br, br_ErrMsgNotFound = br_ErrMsgNotFound br\<rparr>"

definition handler_below :: "'b handler \<Rightarrow> 'b traced_world handler" where
  "handler_below h = (\<lambda>ctx m (b, l). let (r, b') = h (beneath l ctx) m b in (r, (b', l)))"

lemma publish_loop_traced:
  assumes "publish_loop (traced br) ctx msg i as err (b, l) = (r, (b', l'))"
  shows "l' = (case r of Inl e \<Rightarrow> l | Inr _ \<Rightarrow> if as = [] \<and> err = None then l else l @ [Published msg i])"
  using assms
proof (induction as arbitrary: err b)
  case (Cons a as)
  obtain r1 b1 where r1: "br_PublishMsg br (beneath l ctx) msg i b = (r1, b1)" by fastforce
  show ?case
  proof (cases r1)
    case (Inl e)
    then have pub: "br_PublishMsg (traced br) ctx msg i (b, l) = (Inl e, (b1, l))"
      using r1 by (simp add: traced_def noted_ok_def)
    have sleep: "\<exists>b2. br_Sleep (traced br) ctx d (b1, l) = (b2, l)" for d by (simp add: traced_def)
    show ?thesis
    proof (cases "ctx (b1, l) \<noteq> None \<or> \<not> retryablePublish (traced br) e")
      case True
      with Cons.prems pub show ?thesis by (auto simp: on_def fail_def)
    next
      case False
      obtain b2 where b2: "br_Sleep (traced br) ctx ((a + 1) * (100 * millisecond)) (b1, l) = (b2, l)" using sleep by blast
      from Cons.IH [of "Some e" b2] Cons.prems pub False b2 show ?thesis by (auto simp: on_def split: sum.splits)
    qed
  next
    case (Inr u)
    then have "br_PublishMsg (traced br) ctx msg i (b, l) = (Inr u, (b1, l @ [Published msg i]))"
      using r1 by (simp add: traced_def noted_ok_def)
    with Cons.prems show ?thesis by (auto simp: on_def ret_def)
  qed
qed (auto simp: call_defs split: option.splits)

lemma Publish_traced:
  assumes "Publish (traced br) ctx subject i payload headers (b, l) = (r, (b', l'))"
  shows "l' = (if isl r then l else l @ [Published \<lparr>nm_Subject = subject, nm_Data = payload, nm_Header = header_of headers\<rparr> i])"
  using publish_loop_traced [OF assms [unfolded Publish_def]] by (auto split: sum.splits)

text \<open>The handler's error, a panic included.\<close>

definition handler_error :: "'b handler \<Rightarrow> 'b ctx \<Rightarrow> message \<Rightarrow> 'b \<Rightarrow> goerr option" where
  "handler_error h ctx m b =
     (case fst (h ctx m b) of Done _ \<Rightarrow> None | Fails e \<Rightarrow> Some e | Panics \<Rightarrow> Some (Errorf CategoryPermanent ''handler panic''))"

lemma safeHandle_traced:
  assumes "w_World w = (b, l)"
  shows "\<exists>b' w'. safeHandle (handler_below h) ctx m w = (handler_error h (beneath l ctx) m b, w') \<and> w_World w' = (b', l)"
  using assms by (auto simp: safeHandle_def handler_below_def handler_error_def split: prod.splits outcome.splits)

definition quiet_hook :: "'b traced_world worker_options \<Rightarrow> bool" where
  "quiet_hook o' \<longleftrightarrow> (\<forall>f. wo_OnOutcome o' = Some f \<longrightarrow> (\<forall>r s d w. snd (f r s d w) = snd w))"

lemma report_quiet: "quiet_hook o' \<Longrightarrow> snd (w_World (report br o' m start r w)) = snd (w_World w)"
  by (cases "w_World w") (auto simp: report_def quiet_hook_def split: option.splits)

lemma settle_traced:
  "snd (w_World (settle (br_Ack (traced br) m) w)) = snd (w_World w) @ [DidAck m]"
  "snd (w_World (settle (br_NakWithDelay (traced br) m d) w)) = snd (w_World w) @ [DidNak m d]"
  "snd (w_World (settle (br_Term (traced br) m) w)) = snd (w_World w) @ [DidTerm m]"
  by (simp_all add: settle_def traced_def noted_def split: prod.splits)

lemma backoff_traced: "backoff (traced br) o' attempt (b, l) = (d, w) \<Longrightarrow> snd w = l"
  by (auto simp: backoff_def traced_def split: prod.splits)

definition in_dead_letters :: "'b worker_options \<Rightarrow> message \<Rightarrow> goerr \<Rightarrow> deed \<Rightarrow> bool" where
  "in_dead_letters o' m cause d \<longleftrightarrow>
     (\<exists>msg reason now. let dl = letter_for o' m cause reason (Attempt m) now in
        d = Published msg (dl_ID dl) \<and> nm_Subject msg = wo_DeadLetterSubject o' \<and> marshal_dead_letter dl = Inr (nm_Data msg))"

lemma deadLetter_traced:
  assumes "deadLetter (traced br) o' m cause reason (Attempt m) (b, l) = (r, (b', l'))"
  shows "if isl r then l' = l else \<exists>d. l' = l @ [d] \<and> in_dead_letters o' m cause d"
proof -
  define dl where "dl = letter_for o' m cause reason (Attempt m) (br_Now (traced br) (b, l))"
  show ?thesis
  proof (cases "marshal_dead_letter dl")
    case (Inl e)
    with assms show ?thesis by (auto simp: deadLetter_def dl_def Let_def)
  next
    case (Inr payload)
    define msg where "msg = \<lparr>nm_Subject = wo_DeadLetterSubject o', nm_Data = payload,
      nm_Header = header_of (message_headers DeadLetterV1 (header_Get (Header m) HeaderCorrelationID))\<rparr>"
    from Inr assms have "Publish (traced br) (detached (traced br) (5 * second) (b, l)) (wo_DeadLetterSubject o') (dl_ID dl) payload
            (message_headers DeadLetterV1 (header_Get (Header m) HeaderCorrelationID)) (b, l) = (r, (b', l'))"
      by (simp add: deadLetter_def dl_def Let_def)
    from Publish_traced [OF this] have "l' = (if isl r then l else l @ [Published msg (dl_ID dl)])" by (simp add: msg_def)
    moreover have "in_dead_letters o' m cause (Published msg (dl_ID dl))"
      unfolding in_dead_letters_def Let_def using Inr by (intro exI [of _ msg] exI [of _ reason] exI [of _ "br_Now (traced br) (b, l)"]) (simp add: msg_def dl_def)
    ultimately show ?thesis by simp
  qed
qed

lemma settle_failed_traced:
  assumes "quiet_hook o'" "w_World w = (b, l)"
  shows "(\<exists>d. snd (w_World (settle_failed (traced br) o' m start e (Attempt m) w)) = l @ [DidNak m d])
    \<or> (\<exists>p. in_dead_letters o' m e p \<and> snd (w_World (settle_failed (traced br) o' m start e (Attempt m) w)) = l @ [p, DidTerm m])"
proof -
  obtain r b' l' where r: "deadLetter (traced br) o' m e (if IsRetryable e then ''max_deliveries'' else ''poison'') (Attempt m) (b, l) = (r, (b', l'))"
    by (metis surj_pair)
  note dl = deadLetter_traced [OF r]
  note run = settle_failed_def [of "traced br" o' m start e "Attempt m" w, unfolded Let_def assms(2) r prod.case]
  show ?thesis
  proof (cases r)
    case (Inl err)
    obtain d w2 where d: "backoff (traced br) o' (Attempt m) (b', l') = (d, w2)" by (metis surj_pair)
    have "snd w2 = l" using backoff_traced [OF d] dl Inl by simp
    then show ?thesis by (simp add: run Inl d report_quiet [OF assms(1)] settle_traced)
  next
    case (Inr u)
    with dl obtain p where "l' = l @ [p]" "in_dead_letters o' m e p" by auto
    then show ?thesis by (auto simp: run Inr report_quiet [OF assms(1)] settle_traced)
  qed
qed

section \<open>Shards\<close>

text \<open>
  \<open>Run\<close>: the consumer's callback puts each message into the buffer of its key's shard and blocks while
  that is full; every shard has one goroutine that takes the oldest message and processes it; on
  shutdown the callback and, in the end, \<open>Run\<close> itself hand messages back. The goroutines interleave
  freely, and other parts of the program may change the world at any time, which includes cancelling
  the context. \<open>arrived\<close>, \<open>started\<close> and \<open>returned\<close> record what has happened.
\<close>

record 'b run =
  r_worker :: "'b worker"
  r_blocked :: "message option"
  r_queues :: "message list list"
  r_hands :: "message option list"
  r_arrived :: "message list"
  r_started :: "message list"
  r_returned :: "message list"

definition start_run :: "'b worker_options \<Rightarrow> 'b worker \<Rightarrow> 'b run" where
  "start_run o' w = \<lparr>r_worker = w, r_blocked = None, r_queues = replicate (nat (wo_Shards o')) [],
     r_hands = replicate (nat (wo_Shards o')) None, r_arrived = [], r_started = [], r_returned = []\<rparr>"

definition shard_of :: "'b worker_options \<Rightarrow> message \<Rightarrow> nat" where
  "shard_of o' m = shardFor o' (KeyFunc o' m)"

inductive run_step :: "'b broker \<Rightarrow> 'b worker_options \<Rightarrow> 'b handler \<Rightarrow> 'b ctx \<Rightarrow> 'b run \<Rightarrow> 'b run \<Rightarrow> bool"
  for br o' h ctx where
  receive: "r_blocked r = None \<Longrightarrow>
    run_step br o' h ctx r (r\<lparr>r_blocked := Some m, r_arrived := r_arrived r @ [m],
      r_worker := (r_worker r)\<lparr>w_received := w_received (r_worker r) + 1\<rparr>\<rparr>)"
| enqueue: "r_blocked r = Some m \<Longrightarrow> i = shard_of o' m \<Longrightarrow> int (length (r_queues r ! i)) < wo_QueueSize o' \<Longrightarrow>
    run_step br o' h ctx r (r\<lparr>r_blocked := None, r_queues := (r_queues r)[i := r_queues r ! i @ [m]]\<rparr>)"
| refuse: "r_blocked r = Some m \<Longrightarrow> ctx (w_World (r_worker r)) \<noteq> None \<Longrightarrow>
    run_step br o' h ctx r (r\<lparr>r_blocked := None, r_returned := r_returned r @ [m],
      r_worker := settle (br_NakWithDelay br m 0) (r_worker r)\<rparr>)"
| start: "i < length (r_hands r) \<Longrightarrow> r_hands r ! i = None \<Longrightarrow> r_queues r ! i = m # q \<Longrightarrow>
    run_step br o' h ctx r (r\<lparr>r_hands := (r_hands r)[i := Some m], r_queues := (r_queues r)[i := q], r_started := r_started r @ [m]\<rparr>)"
| finish: "i < length (r_hands r) \<Longrightarrow> r_hands r ! i = Some m \<Longrightarrow>
    run_step br o' h ctx r (r\<lparr>r_hands := (r_hands r)[i := None], r_worker := process_msg br o' h ctx m (r_worker r)\<rparr>)"
| drain: "ctx (w_World (r_worker r)) \<noteq> None \<Longrightarrow> i < length (r_queues r) \<Longrightarrow> r_queues r ! i = m # q \<Longrightarrow>
    run_step br o' h ctx r (r\<lparr>r_queues := (r_queues r)[i := q], r_returned := r_returned r @ [m],
      r_worker := settle (br_NakWithDelay br m 0) (r_worker r)\<rparr>)"
| elsewhere: "run_step br o' h ctx r (r\<lparr>r_worker := (r_worker r)\<lparr>w_World := b\<rparr>\<rparr>)"

definition reachable :: "'b broker \<Rightarrow> 'b worker_options \<Rightarrow> 'b handler \<Rightarrow> 'b ctx \<Rightarrow> 'b run \<Rightarrow> bool" where
  "reachable br o' h ctx r \<longleftrightarrow> (\<exists>w. (run_step br o' h ctx)\<^sup>*\<^sup>* (start_run o' w) r)"

definition options_ok :: "'b worker_options \<Rightarrow> bool" where
  "options_ok o' \<longleftrightarrow> 1 \<le> wo_Shards o' \<and> wo_Shards o' < 2 ^ 32 \<and> 1 \<le> wo_QueueSize o'"

lemma shardFor_bound: "options_ok o' \<Longrightarrow> shardFor o' key < nat (wo_Shards o')"
proof -
  assume ok: "options_ok o'"
  have "uint (word_of_int (wo_Shards o') :: 32 word) = wo_Shards o'"
    using ok by (simp add: options_ok_def uint_word_of_int)
  then have "unat (word_of_int (wo_Shards o') :: 32 word) = nat (wo_Shards o')" by (simp add: unat_eq_nat_uint)
  with ok show ?thesis by (simp add: shardFor_def unat_mod options_ok_def)
qed

text \<open>The messages of shard \<open>i\<close>, from the oldest started one to the one the callback is blocked with.\<close>

definition pipeline_of :: "'b worker_options \<Rightarrow> nat \<Rightarrow> message list \<Rightarrow> message list \<Rightarrow> message option \<Rightarrow> message list" where
  "pipeline_of o' i started q blocked =
     filter (\<lambda>m. shard_of o' m = i) started @ q
     @ (case blocked of Some m \<Rightarrow> if shard_of o' m = i then [m] else [] | None \<Rightarrow> [])"

definition shard_inv :: "'b worker_options \<Rightarrow> nat \<Rightarrow> message list \<Rightarrow> message option \<Rightarrow> message list \<Rightarrow> message option \<Rightarrow>
    message list \<Rightarrow> message list \<Rightarrow> bool" where
  "shard_inv o' i q hand started blocked arrived returned \<longleftrightarrow>
     int (length q) \<le> wo_QueueSize o' \<and> (\<forall>m \<in> set q. shard_of o' m = i) \<and> (\<forall>m. hand = Some m \<longrightarrow> shard_of o' m = i)
   \<and> subseq (pipeline_of o' i started q blocked) (filter (\<lambda>m. shard_of o' m = i) arrived)
   \<and> (returned = [] \<longrightarrow> pipeline_of o' i started q blocked = filter (\<lambda>m. shard_of o' m = i) arrived)"

definition run_inv :: "'b worker_options \<Rightarrow> 'b run \<Rightarrow> bool" where
  "run_inv o' r \<longleftrightarrow>
     length (r_queues r) = nat (wo_Shards o') \<and> length (r_hands r) = nat (wo_Shards o')
   \<and> (\<forall>i < nat (wo_Shards o').
        shard_inv o' i (r_queues r ! i) (r_hands r ! i) (r_started r) (r_blocked r) (r_arrived r) (r_returned r))"

lemma pipeline_shrinks:
  "subseq (pipeline_of o' i st q None) (pipeline_of o' i st q blk)"
  "subseq (pipeline_of o' i st q blk) (pipeline_of o' i st (m # q) blk)"
  by (auto simp: pipeline_of_def intro!: list_emb_append_mono split: option.splits)

lemma shard_receive: "shard_inv o' i q hand st None arr back \<Longrightarrow> shard_inv o' i q hand st (Some m) (arr @ [m]) back"
  using list_emb_append_mono [of "(=)" "filter (\<lambda>m. shard_of o' m = i) st @ q" "filter (\<lambda>m. shard_of o' m = i) arr" "[m]" "[m]"]
  by (auto simp: shard_inv_def pipeline_of_def)

lemma shard_enqueue:
  "shard_inv o' i q hand st (Some m) arr back \<Longrightarrow> shard_of o' m = i \<Longrightarrow> int (length q) < wo_QueueSize o' \<Longrightarrow> shard_inv o' i (q @ [m]) hand st None arr back"
  "shard_inv o' i q hand st (Some m) arr back \<Longrightarrow> shard_of o' m \<noteq> i \<Longrightarrow> shard_inv o' i q hand st None arr back"
  by (simp_all add: shard_inv_def pipeline_of_def)

lemma shard_refuse: "shard_inv o' i q hand st (Some m) arr back \<Longrightarrow> shard_inv o' i q hand st None arr (back @ [m])"
  by (auto simp: shard_inv_def intro: subseq_order.order_trans [OF pipeline_shrinks(1) [of o' i st q "Some m"]])

lemma shard_begin:
  "shard_inv o' i (m # q) None st blk arr back \<Longrightarrow> shard_inv o' i q (Some m) (st @ [m]) blk arr back"
  "shard_inv o' i q hand st blk arr back \<Longrightarrow> shard_of o' m \<noteq> i \<Longrightarrow> shard_inv o' i q hand (st @ [m]) blk arr back"
  by (simp_all add: shard_inv_def pipeline_of_def)

lemma shard_finish: "shard_inv o' i q hand st blk arr back \<Longrightarrow> shard_inv o' i q None st blk arr back"
  by (simp add: shard_inv_def)

lemma shard_drain:
  "shard_inv o' i (m # q) hand st blk arr back \<Longrightarrow> shard_inv o' i q hand st blk arr (back @ [m])"
  "shard_inv o' i q hand st blk arr back \<Longrightarrow> shard_inv o' i q hand st blk arr (back @ [m])"
  by (auto simp: shard_inv_def intro: subseq_order.order_trans [OF pipeline_shrinks(2) [of o' _ st q blk m]])

lemma run_inv_start: "options_ok o' \<Longrightarrow> run_inv o' (start_run o' w)"
  by (simp add: run_inv_def start_run_def shard_inv_def pipeline_of_def options_ok_def)

lemma run_inv_shard: "run_inv o' r \<Longrightarrow> i < nat (wo_Shards o') \<Longrightarrow>
    shard_inv o' i (r_queues r ! i) (r_hands r ! i) (r_started r) (r_blocked r) (r_arrived r) (r_returned r)"
  by (simp add: run_inv_def)

lemma run_inv_step:
  assumes "options_ok o'" "run_step br o' h ctx r r'" "run_inv o' r"
  shows "run_inv o' r'"
proof -
  have len: "length (r_queues r) = nat (wo_Shards o')" "length (r_hands r) = nat (wo_Shards o')" using assms(3) by (simp_all add: run_inv_def)
  note inv = run_inv_shard [OF assms(3)]
  from assms(2) show ?thesis
  proof (cases rule: run_step.cases)
    case (receive m)
    then show ?thesis using len inv by (simp add: run_inv_def shard_receive)
  next
    case (enqueue m i)
    have "shard_of o' m < nat (wo_Shards o')" using shardFor_bound [OF assms(1)] by (simp add: shard_of_def)
    then show ?thesis using len inv enqueue by (auto simp: run_inv_def nth_list_update intro: shard_enqueue)
  next
    case (refuse m)
    then show ?thesis using len inv by (simp add: run_inv_def) (metis shard_refuse)
  next
    case (start i m q)
    then have "shard_of o' m = i" using len inv [of i] by (simp add: shard_inv_def)
    moreover have "shard_inv o' i q (Some m) (r_started r @ [m]) (r_blocked r) (r_arrived r) (r_returned r)"
      using inv [of i] start len by (intro shard_begin(1)) simp
    ultimately show ?thesis using len inv start by (auto simp: run_inv_def nth_list_update intro: shard_begin(2))
  next
    case (finish i m)
    then show ?thesis using len inv by (auto simp: run_inv_def nth_list_update intro: shard_finish)
  next
    case (drain i m q)
    then have "shard_inv o' i q (r_hands r ! i) (r_started r) (r_blocked r) (r_arrived r) (r_returned r @ [m])"
      using inv [of i] len by (intro shard_drain(1)) simp
    then show ?thesis using len inv drain by (auto simp: run_inv_def nth_list_update intro: shard_drain(2))
  next
    case (elsewhere b)
    then show ?thesis using len inv by (simp add: run_inv_def)
  qed
qed

lemma reachable_inv: "options_ok o' \<Longrightarrow> reachable br o' h ctx r \<Longrightarrow> run_inv o' r"
proof -
  assume ok: "options_ok o'" and "reachable br o' h ctx r"
  then obtain w where "(run_step br o' h ctx)\<^sup>*\<^sup>* (start_run o' w) r" by (auto simp: reachable_def)
  then show ?thesis by (induction rule: rtranclp_induct) (auto intro: run_inv_start [OF ok] run_inv_step [OF ok])
qed

section \<open>Properties\<close>

text \<open>
  (C31) Messages of one key are handled one at a time and in delivery order, however the goroutines
  interleave: in every reachable state of \<open>Run\<close> no two shards hold messages of the same key, and the
  messages of a key whose handling has started are, in that order, a subsequence of those that have
  arrived; they are an initial part of them as long as nothing was handed back on shutdown.
\<close>

theorem same_key_in_order:
  assumes "options_ok o'" "reachable br o' h ctx r"
  shows "subseq (filter (\<lambda>m. KeyFunc o' m = k) (r_started r)) (filter (\<lambda>m. KeyFunc o' m = k) (r_arrived r))
    \<and> (r_returned r = [] \<longrightarrow> prefix (filter (\<lambda>m. KeyFunc o' m = k) (r_started r)) (filter (\<lambda>m. KeyFunc o' m = k) (r_arrived r)))
    \<and> (\<forall>i < length (r_hands r). \<forall>j < length (r_hands r). \<forall>m n. r_hands r ! i = Some m \<and> r_hands r ! j = Some n
          \<and> KeyFunc o' m = k \<and> KeyFunc o' n = k \<longrightarrow> i = j)"
proof -
  let ?key = "filter (\<lambda>m. KeyFunc o' m = k)"
  define i where "i = shardFor o' k"
  let ?shard = "filter (\<lambda>m. shard_of o' m = i)"
  have inv: "run_inv o' r" using reachable_inv assms by blast
  have i: "i < nat (wo_Shards o')" using shardFor_bound [OF assms(1)] by (simp add: i_def)
  have both: "?key (?shard ms) = ?key ms" for ms by (auto simp: i_def shard_of_def intro!: filter_cong)
  have pipe: "prefix (?key (r_started r)) (?key (pipeline_of o' i (r_started r) (r_queues r ! i) (r_blocked r)))"
    by (simp add: pipeline_of_def both del: filter_filter)
  have "subseq (?key (pipeline_of o' i (r_started r) (r_queues r ! i) (r_blocked r))) (?key (?shard (r_arrived r)))"
    using run_inv_shard [OF inv i] by (intro subseq_filter) (simp add: shard_inv_def)
  then have "subseq (?key (r_started r)) (?key (r_arrived r))"
    using subseq_order.order_trans [OF prefix_imp_subseq [OF pipe]] by (simp add: both del: filter_filter)
  moreover have "prefix (?key (r_started r)) (?key (r_arrived r))" if "r_returned r = []"
    using pipe run_inv_shard [OF inv i] that by (simp add: shard_inv_def both del: filter_filter)
  moreover have "j = i" if "j < length (r_hands r)" "r_hands r ! j = Some m" "KeyFunc o' m = k" for j m
    using that inv by (auto simp: run_inv_def shard_inv_def shard_of_def i_def)
  ultimately show ?thesis by blast
qed


text \<open>
  (C30) The delay before a retry doubles with every attempt up to the cap and is then spread by the
  jitter: with a positive first delay and a cap of at most 2^62 ns, it lies within 79.9 and 120.1
  percent of the smaller of the cap and the doubled first delay, up to the truncation to whole
  nanoseconds, rounding of the double arithmetic included.
\<close>

theorem backoff_bounds:
  assumes "0 < wo_RetryDelay o'" "0 < wo_MaxRetryDelay o'" "wo_MaxRetryDelay o' \<le> 2 ^ 62" "0 \<le> k" "k < 2 ^ 53"
  shows "let base = min (wo_MaxRetryDelay o') (wo_RetryDelay o' * 2 ^ nat (uint attempt - 1)); delay = backoff_delay o' attempt k
    in 799 * base \<le> 1000 * (delay + 1) \<and> 1000 * delay \<le> 1201 * base"
proof -
  define base where "base = min (wo_MaxRetryDelay o') (wo_RetryDelay o' * 2 ^ nat (uint attempt - 1))"
  have "1 * 1 \<le> wo_RetryDelay o' * 2 ^ nat (uint attempt - 1)" using assms(1) by (intro mult_mono) simp_all
  then have "1 \<le> base" "base \<le> 2 ^ 62" using assms(2,3) by (auto simp: base_def)
  from scaled_delay [OF this assms(4,5)] backoff_base_eq [OF assms(1,3), of attempt] show ?thesis
    by (simp add: backoff_delay_def Let_def flip: base_def)
qed



section \<open>Held work\<close>

text \<open>
  The messages a worker holds, and the bound its statistics report for them. The bound is exceeded by
  the message the callback is blocked with.
\<close>

definition Capacity :: "'b worker_options \<Rightarrow> int" where
  "Capacity o' = wo_Shards o' * (wo_QueueSize o' + 1)"

definition held :: "'b run \<Rightarrow> int" where
  "held r = int (sum_list (map length (r_queues r))) + int (length (filter (\<lambda>h. h \<noteq> None) (r_hands r)))
     + (if r_blocked r = None then 0 else 1)"

theorem held_bounded:
  assumes "options_ok o'" "reachable br o' h ctx r"
  shows "held r \<le> Capacity o' + 1"
proof -
  have inv: "run_inv o' r" using reachable_inv assms by blast
  then have len: "length (r_queues r) = nat (wo_Shards o')" "length (r_hands r) = nat (wo_Shards o')" by (simp_all add: run_inv_def)
  have "length q \<le> nat (wo_QueueSize o')" if "q \<in> set (r_queues r)" for q
    using that inv by (auto simp: in_set_conv_nth run_inv_def shard_inv_def)
  then have "sum_list (map length (r_queues r)) \<le> sum_list (map (\<lambda>_. nat (wo_QueueSize o')) (r_queues r))" by (intro sum_list_mono)
  then have "sum_list (map length (r_queues r)) \<le> nat (wo_Shards o') * nat (wo_QueueSize o')" by (simp add: sum_list_triv len)
  then have "int (sum_list (map length (r_queues r))) \<le> int (nat (wo_Shards o') * nat (wo_QueueSize o'))" by (simp only: of_nat_le_iff)
  moreover have "int (nat (wo_Shards o') * nat (wo_QueueSize o')) = wo_Shards o' * wo_QueueSize o'" using assms(1) by (simp add: options_ok_def)
  moreover have "length (filter (\<lambda>h. h \<noteq> None) (r_hands r)) \<le> nat (wo_Shards o')" using len(2) length_filter_le by metis
  ultimately show ?thesis using assms(1) by (auto simp: held_def Capacity_def options_ok_def algebra_simps)
qed


section \<open>Witnesses\<close>

definition ex_options :: "'b worker_options" where
  "ex_options = NewWorker \<lparr>wo_Name = ''w'', wo_Stream = ''S'', wo_Durable = ''d'', wo_FilterSubject = ''a'', wo_Shards = 0,
     wo_QueueSize = 0, wo_MaxDeliver = 0, wo_AckWait = 0, wo_RetryDelay = 0, wo_MaxRetryDelay = 0, wo_KeyFunc = None,
     wo_DeadLetterSubject = [], wo_ShutdownTimeout = 0, wo_DeadLetterRetryDelay = 0, wo_OnOutcome = None\<rparr>"

lemma ex_options_simps [simp]:
  "wo_Shards ex_options = 1" "wo_QueueSize ex_options = 1" "wo_MaxDeliver ex_options = 5" "wo_OnOutcome ex_options = None"
  "wo_RetryDelay ex_options = second" "wo_MaxRetryDelay ex_options = minute"
  by (simp_all add: ex_options_def NewWorker_def)

definition ex_msg :: "string \<Rightarrow> message" where
  "ex_msg d = \<lparr>m_msg = \<lparr>nm_Subject = ''a'', nm_Data = d, nm_Header = fmempty\<rparr>, m_Metadata = None\<rparr>"

definition ex_worker :: "'b \<Rightarrow> 'b worker" where
  "ex_worker b = \<lparr>w_World = b, w_received = 0, w_processed = 0, w_retried = 0, w_dead = 0, w_dlqFail = 0, w_panics = 0, w_inflight = 0\<rparr>"


theorem backoff_bounds_witness:
  "3196000000 \<le> backoff_delay (ex_options :: unit worker_options) 3 (2 ^ 52) + 1
   \<and> backoff_delay (ex_options :: unit worker_options) 3 (2 ^ 52) \<le> 4804000000"
  using backoff_bounds [of "ex_options :: unit worker_options" "2 ^ 52" 3] by (simp add: duration_defs Let_def)

text \<open>A run of a worker with one shard and a buffer of one: it ends up holding three messages.\<close>

definition ex_runs :: "(unit \<times> deed list) run list" where
  "ex_runs =
     (let r0 = start_run ex_options (ex_worker ((), [])); a = ex_msg ''x''; b = ex_msg ''y''; c = ex_msg ''z'';
          got = (\<lambda>m r. r\<lparr>r_blocked := Some m, r_arrived := r_arrived r @ [m], r_worker := (r_worker r)\<lparr>w_received := w_received (r_worker r) + 1\<rparr>\<rparr>);
          r1 = got a r0; r2 = r1\<lparr>r_blocked := None, r_queues := [[a]]\<rparr>;
          r3 = r2\<lparr>r_hands := [Some a], r_queues := [[]], r_started := [a]\<rparr>;
          r4 = got b r3; r5 = r4\<lparr>r_blocked := None, r_queues := [[b]]\<rparr>; r6 = got c r5
      in [r0, r1, r2, r3, r4, r5, r6])"

lemma ex_shard: "shard_of ex_options (ex_msg d) = 0"
  using shardFor_bound [of ex_options "KeyFunc ex_options (ex_msg d)"] by (simp add: shard_of_def options_ok_def)

lemma ex_runs_step:
  assumes "Suc i < 7"
  shows "run_step br ex_options h ctx (ex_runs ! i) (ex_runs ! Suc i)"
proof -
  have i: "i = 0 \<or> i = 1 \<or> i = 2 \<or> i = 3 \<or> i = 4 \<or> i = 5" using assms by linarith
  note defs = ex_runs_def Let_def start_run_def ex_shard nth_Cons_numeral
  have "run_step br ex_options h ctx (ex_runs ! 0) (ex_runs ! 1)"
    using run_step.receive [of "ex_runs ! 0" br ex_options h ctx "ex_msg ''x''"] by (simp add: defs)
  moreover have "run_step br ex_options h ctx (ex_runs ! 1) (ex_runs ! 2)"
    using run_step.enqueue [of "ex_runs ! 1" "ex_msg ''x''" 0 ex_options br h ctx] by (simp add: defs)
  moreover have "run_step br ex_options h ctx (ex_runs ! 2) (ex_runs ! 3)"
    using run_step.start [of 0 "ex_runs ! 2" "ex_msg ''x''" "[]" br ex_options h ctx] by (simp add: defs)
  moreover have "run_step br ex_options h ctx (ex_runs ! 3) (ex_runs ! 4)"
    using run_step.receive [of "ex_runs ! 3" br ex_options h ctx "ex_msg ''y''"] by (simp add: defs)
  moreover have "run_step br ex_options h ctx (ex_runs ! 4) (ex_runs ! 5)"
    using run_step.enqueue [of "ex_runs ! 4" "ex_msg ''y''" 0 ex_options br h ctx] by (simp add: defs)
  moreover have "run_step br ex_options h ctx (ex_runs ! 5) (ex_runs ! 6)"
    using run_step.receive [of "ex_runs ! 5" br ex_options h ctx "ex_msg ''z''"] by (simp add: defs)
  ultimately show ?thesis using i by (auto simp: numeral_eq_Suc)
qed

lemma ex_reachable: "reachable br ex_options h ctx (ex_runs ! 6)"
proof -
  have "(run_step br ex_options h ctx)\<^sup>*\<^sup>* (ex_runs ! 0) (ex_runs ! i)" if "i < 7" for i
    using that
  proof (induction i)
    case (Suc i)
    then show ?case using ex_runs_step [of i br h ctx] by (meson Suc_lessD rtranclp.rtrancl_into_rtrancl)
  qed simp
  from this [of 6] show ?thesis by (auto simp: reachable_def ex_runs_def Let_def)
qed

theorem same_key_in_order_witness:
  "prefix (filter (\<lambda>m. KeyFunc (ex_options :: (unit \<times> deed list) worker_options) m = ''a'') (r_started (ex_runs ! 6))) (filter (\<lambda>m. KeyFunc (ex_options :: (unit \<times> deed list) worker_options) m = ''a'') (r_arrived (ex_runs ! 6)))
   \<and> r_started (ex_runs ! 6) = [ex_msg ''x''] \<and> r_arrived (ex_runs ! 6) = [ex_msg ''x'', ex_msg ''y'', ex_msg ''z'']"
proof -
  have "options_ok (ex_options :: (unit \<times> deed list) worker_options)" by (simp add: options_ok_def)
  then have "r_returned (ex_runs ! 6) = [] \<longrightarrow> prefix (filter (\<lambda>m. KeyFunc (ex_options :: (unit \<times> deed list) worker_options) m = ''a'') (r_started (ex_runs ! 6)))
      (filter (\<lambda>m. KeyFunc (ex_options :: (unit \<times> deed list) worker_options) m = ''a'') (r_arrived (ex_runs ! 6)))"
    using same_key_in_order [OF _ ex_reachable, of "''a''"] by blast
  then show ?thesis by (simp add: ex_runs_def Let_def start_run_def)
qed

theorem capacity_exceeded:
  "reachable br ex_options h ctx (ex_runs ! 6) \<and> held (ex_runs ! 6) = 3 \<and> Capacity (ex_options :: (unit \<times> deed list) worker_options) = 2"
  using ex_reachable by (simp add: held_def Capacity_def ex_runs_def Let_def start_run_def)

lemma hex_encode_ascii: "list_all (\<lambda>b. 0 \<le> b \<and> b < 256) bs \<Longrightarrow> ascii (hex_encode bs)"
proof -
  have digits: "list_all (\<lambda>d. byte (hex_digit d) < 128) [0..15]" by code_simp
  then have "byte (hex_digit d) < 128" if "0 \<le> d" "d < 16" for d using that by (simp add: list_all_iff)
  then have "ascii [hex_digit (b div 16), hex_digit (b mod 16)]" if "0 \<le> b" "b < 256" for b using that by simp
  then show "list_all (\<lambda>b. 0 \<le> b \<and> b < 256) bs \<Longrightarrow> ?thesis"
    by (induction bs) (simp_all add: hex_encode_def)
qed

lemma StableID_valid: "valid_utf8 (StableID parts)"
proof -
  have be: "list_all (\<lambda>b. 0 \<le> b \<and> b < 256) (be_bytes k n)" for k n by (induction k n rule: be_bytes.induct) simp_all
  have "list_all (\<lambda>b. 0 \<le> b \<and> b < 256) (sha256 s)" for s
    using be by (auto simp: sha256_def Let_def list_all_iff)
  then have "list_all (\<lambda>b. 0 \<le> b \<and> b < 256) (take 16 (sha256 s))" for s by (auto simp: list_all_iff dest: in_set_takeD)
  then show ?thesis by (simp add: StableID_def ascii_valid hex_encode_ascii)
qed

definition ex_dead_msg :: message where
  "ex_dead_msg = \<lparr>m_msg = \<lparr>nm_Subject = ''a'', nm_Data = [CHR 0xFF], nm_Header = fmap_of_list [(''X-Schema'', [''observation.v1''])]\<rparr>,
     m_Metadata = None\<rparr>"

definition ex_dl :: dead_letter where
  "ex_dl = letter_for (ex_options :: unit worker_options) ex_dead_msg (EPlain ''boom'') ''poison'' 1 (63000000000 * second)"

definition ex_raw :: nats_msg where
  "ex_raw = \<lparr>nm_Subject = SubjectDeadLetter, nm_Data = (case marshal_dead_letter ex_dl of Inl e \<Rightarrow> [] | Inr t \<Rightarrow> t), nm_Header = fmempty\<rparr>"


end
