(* ===== verification/Float_Text.thy ===== *)
theory Float_Text
  imports Go_Json Float_Error
begin

text \<open>
  Numbers in JSON: the value of a number literal, and the text \<open>encoding/json\<close> writes for a double, the
  shortest digits that read back, with an exponent below 1e-6 and from 1e21 on. A finite double reads
  back from its text.
\<close>


section \<open>Literals\<close>

definition signed_decimal :: "string \<Rightarrow> int" where
  "signed_decimal s = (case s of c # cs \<Rightarrow> if c = CHR ''-'' then - decimal cs else if c = CHR ''+'' then decimal cs else decimal s | [] \<Rightarrow> 0)"

definition number_value :: "string \<Rightarrow> rat" where
  "number_value t =
     (let neg = (t \<noteq> [] \<and> hd t = CHR ''-''); u = (if neg then tl t else t);
          mant = takeWhile (\<lambda>c. c \<noteq> CHR ''e'' \<and> c \<noteq> CHR ''E'') u; ex = drop (Suc (length mant)) u;
          ip = takeWhile (\<lambda>c. c \<noteq> CHR ''.'') mant; fp = drop (Suc (length ip)) mant;
          v = of_int (decimal (ip @ fp)) * pow_int 10 (signed_decimal ex - int (length fp))
      in if neg then - v else v)"

definition json_exponent :: "int \<Rightarrow> string" where
  "json_exponent x = ''e'' @ (if x < 0 then ''-'' else ''+'') @ show_int \<bar>x\<bar>"

definition digits_text :: "rat \<Rightarrow> int \<times> int \<Rightarrow> string" where
  "digits_text r = (\<lambda>(m, e).
      if r < 1 / 10 ^ 6 \<or> 10 ^ 21 \<le> r
      then (let ds = show_int m
            in take 1 ds @ (if length ds = 1 then [] else ''.'' @ drop 1 ds) @ json_exponent (e + int (length ds) - 1))
      else plain_decimal m e)"

definition json_float :: "f64 \<Rightarrow> json" where
  "json_float x = JNum (with_sign (\<lambda>r. digits_text r (shortest r)) x)"

text \<open>A \<open>float32\<close> is written with the fewest digits that read back as the same single: at most nine.\<close>

definition f32_round :: "rat \<Rightarrow> rat" where
  "f32_round x =
     (let e = max (lead_exp 2 x - 24) (- 149) in of_int (round_half_even (x / pow_int 2 e)) * pow_int 2 e)"

fun shortest32_from :: "nat \<Rightarrow> rat \<Rightarrow> int \<Rightarrow> int \<times> int" where
  "shortest32_from 0 x e = (round_half_even (scaled x e), e)"
| "shortest32_from (Suc k) x e =
     (case find (\<lambda>m. f32_round (of_int m * pow_int 10 e) = x)
             [round_half_even (scaled x e), \<lfloor>scaled x e\<rfloor>, \<lfloor>scaled x e\<rfloor> + 1] of
        Some m \<Rightarrow> (m, e) | None \<Rightarrow> shortest32_from k x (e - 1))"

definition json_float32 :: "f64 \<Rightarrow> json" where
  "json_float32 x = JNum (with_sign (\<lambda>r. digits_text r (shortest32_from 8 r (lead_exp 10 r - 1))) x)"


section \<open>The text is a literal\<close>

lemma round_half_even_nonneg: "0 \<le> x \<Longrightarrow> 0 \<le> round_half_even x"
  by (simp add: round_half_even_def Let_def)

lemma pow_int_pos: "0 < b \<Longrightarrow> 0 < pow_int b e"
  by (simp add: pow_int_def)

lemma scaled_nonneg: "0 \<le> x \<Longrightarrow> 0 \<le> scaled x e"
  by (simp add: scaled_def pow_int_pos less_imp_le)

lemma shortest_from_nonneg: "0 \<le> x \<Longrightarrow> 0 \<le> fst (shortest_from k x e)"
proof (induction k x e rule: shortest_from.induct)
  case (2 k x e)
  then have "0 \<le> m" if "digits_at x e = Some m" for m
    using that scaled_nonneg [of x e] round_half_even_nonneg [of "scaled x e"]
    by (auto simp: digits_at_def split: if_splits)
  with 2 show ?case by (auto split: option.splits)
qed (simp add: round_half_even_nonneg scaled_nonneg)

lemma shortest32_from_nonneg: "0 \<le> x \<Longrightarrow> 0 \<le> fst (shortest32_from k x e)"
proof (induction k x e rule: shortest32_from.induct)
  case (2 k x e)
  then show ?case
    using scaled_nonneg [of x e] round_half_even_nonneg [of "scaled x e"] by (auto split: option.splits if_splits)
qed (simp add: round_half_even_nonneg scaled_nonneg)

lemma show_int_digits: "0 \<le> n \<Longrightarrow> nat_literal (show_int n)"
  by (simp add: show_int_def show_pos_literal)

lemma plain_decimal_literal:
  assumes "0 \<le> m" "sign = [] \<or> sign = ''-''"
  shows "number_literal (sign @ plain_decimal m e)"
proof (cases "0 \<le> e")
  case True
  then show ?thesis
    using number_literal_decimal [OF show_int_digits, of "m * 10 ^ nat e" "[]" "[]" sign] assms by (simp add: plain_decimal_def)
next
  case False
  define d :: int where "d = 10 ^ nat (- e)"
  define ds where "ds = replicate (nat (- e) - length (show_int (m mod d))) CHR ''0'' @ show_int (m mod d)"
  have "0 < d" by (simp add: d_def)
  then have lit: "nat_literal (show_int (m div d))" "nat_literal (show_int (m mod d))"
    using assms(1) by (simp_all add: show_int_digits pos_imp_zdiv_nonneg_iff)
  then have "ds \<noteq> []" "list_all is_digit ds" by (auto simp: ds_def nat_literal_def list_all_iff is_digit_def in_range_def)
  with number_literal_decimal [OF lit(1), of "CHR ''.'' # ds" "[]" sign] assms(2) False show ?thesis
    by (simp add: plain_decimal_def Let_def d_def ds_def)
qed

text \<open>Digits, a point, digits and an exponent: the shape of the text with an exponent.\<close>

lemma digits_text_exponent:
  assumes "r < 1 / 10 ^ 6 \<or> 10 ^ 21 \<le> r" "0 \<le> m"
  obtains c ds x where "show_int m = c # ds" "x = e + int (length ds)"
    and "digits_text r (m, e) = [c] @ (if ds = [] then [] else ''.'') @ ds @ json_exponent x"
    and "is_digit c" "list_all is_digit ds"
proof -
  have "nat_literal (show_int m)" using assms(2) by (rule show_int_digits)
  then obtain c ds where ds: "show_int m = c # ds" "is_digit c" "list_all is_digit ds"
    by (cases "show_int m") (auto simp: nat_literal_def)
  have "digits_text r (m, e) = [c] @ (if ds = [] then [] else ''.'') @ ds @ json_exponent (e + int (length ds))"
    unfolding digits_text_def prod.case if_P [OF assms(1)] Let_def ds(1) by simp
  with ds that show thesis by blast
qed

lemma digits_text_literal:
  assumes "0 \<le> m" "sign = [] \<or> sign = ''-''"
  shows "number_literal (sign @ digits_text r (m, e))"
proof (cases "r < 1 / 10 ^ 6 \<or> 10 ^ 21 \<le> r")
  case True
  obtain c ds x where t: "digits_text r (m, e) = [c] @ (if ds = [] then [] else ''.'') @ ds @ json_exponent x"
    and ds: "is_digit c" "list_all is_digit ds"
    using digits_text_exponent [OF True assms(1)] by metis
  let ?fr = "if ds = [] then [] else ''.'' @ ds"
  have i: "nat_literal [c]" using ds by (simp add: nat_literal_def)
  have fr: "?fr = [] \<or> (\<exists>u. ?fr = CHR ''.'' # u \<and> u \<noteq> [] \<and> list_all is_digit u)" using ds by simp
  have x: "nat_literal (show_int \<bar>x\<bar>)" by (simp add: show_int_digits)
  have "number_literal (sign @ [c] @ ?fr @ json_exponent x)"
    by (rule number_literal_decimal [OF i fr _ assms(2)]) (use x in \<open>auto simp: json_exponent_def nat_literal_def\<close>)
  then show ?thesis by (cases "ds = []") (simp_all add: t)
qed (use plain_decimal_literal [OF assms] in \<open>auto simp: digits_text_def\<close>)

lemma zero_literal: "number_literal ''0''"
  by code_simp

lemma json_float_literal:
  assumes "f64_finite x"
  shows "writable d (json_float x)" "writable d (json_float32 x)"
proof -
  obtain r where x: "x = F_Fin r" using assms by (cases x) (simp_all add: f64_finite_def)
  have "number_literal (sign @ digits_text q (f q))"
    if "sign = [] \<or> sign = ''-''" "0 \<le> fst (f q)" for sign q and f :: "rat \<Rightarrow> int \<times> int"
    using digits_text_literal [OF that(2,1), of q "snd (f q)"] by simp
  note lit = this [of "[]", simplified] this [of "''-''", simplified]
  show "writable d (json_float x)" "writable d (json_float32 x)"
    using zero_literal shortest_from_nonneg shortest32_from_nonneg
    by (auto simp: x json_float_def json_float32_def with_sign_def shortest_def intro!: lit)
qed


section \<open>The shortest digits read back\<close>

lemma find_reads_back: "find P xs = Some m \<Longrightarrow> P m"
  by (induction xs) (auto split: if_splits)

lemma digits_at_reads_back: "digits_at x e = Some m \<Longrightarrow> reads_back x e m"
  by (auto simp: digits_at_def Let_def simp del: find.simps dest: find_reads_back split: if_splits)

lemma shortest_from_reads_back:
  assumes "shortest_from k x e = (m, e')" "reads_back x (e - int k) (round_half_even (scaled x (e - int k)))"
  shows "reads_back x e' m"
  using assms
proof (induction k x e rule: shortest_from.induct)
  case (2 k x e)
  have same: "e - int (Suc k) = e - 1 - int k" by simp
  show ?case
  proof (cases "digits_at x e")
    case None
    with 2 show ?thesis unfolding same by simp
  next
    case (Some n)
    with 2 show ?thesis by (auto dest: digits_at_reads_back)
  qed
qed simp

lemma seventeen_digits:
  assumes "f64_round x = F_Fin x" "0 < x"
  shows "reads_back x (lead_exp 10 x - 17) (round_half_even (scaled x (lead_exp 10 x - 17)))"
proof -
  define e where "e = lead_exp 10 x - 17"
  define y where "y = of_int (round_half_even (scaled x e)) * (10::rat) powi e"
  have p: "(0::rat) < 10 powi e" by simp
  have "(10::rat) powi (e + 16) \<le> x" using lead_exp_general(1) [OF assms(2), of 10] by (simp add: e_def)
  then have low: "10 powi e * 10 ^ 16 \<le> x" by (simp add: power_int_add)
  have "y - x = (of_int (round_half_even (scaled x e)) - scaled x e) * 10 powi e"
    by (simp add: y_def scaled_def pow_int_eq left_diff_distrib)
  then have "\<bar>y - x\<bar> = \<bar>of_int (round_half_even (scaled x e)) - scaled x e\<bar> * 10 powi e" by (simp add: abs_mult)
  also have "\<dots> \<le> 1 / 2 * 10 powi e" using round_half_even_error by (intro mult_right_mono) simp_all
  also have "\<dots> < x * 2 powi (- 54)"
  proof -
    have "(1::rat) / 2 * 10 powi e * 2 ^ 54 < 10 powi e * 10 ^ 16" using p by simp
    then have "1 / 2 * 10 powi e * 2 ^ 54 < x" using low by linarith
    then show ?thesis by (simp add: power_int_minus field_simps)
  qed
  finally have "f64_round y = F_Fin x" by (rule f64_round_near [OF assms])
  then show ?thesis by (simp add: reads_back_def pow_int_eq y_def e_def)
qed

theorem shortest_reads_back:
  assumes "f64_round x = F_Fin x" "0 < x" "shortest x = (m, e)"
  shows "f64_round (of_int m * pow_int 10 e) = F_Fin x"
  using shortest_from_reads_back [of 16 x "lead_exp 10 x - 1" m e] seventeen_digits [OF assms(1,2)] assms(3)
  by (simp add: shortest_def reads_back_def)


section \<open>The value of the text\<close>

lemma decimal_append: "decimal (s @ t) = decimal s * 10 ^ length t + decimal t"
proof (induction t rule: rev_induct)
  case (snoc c t)
  then show ?case by (simp add: algebra_simps flip: append_assoc)
qed simp

lemma show_int_decimal: "0 \<le> n \<Longrightarrow> decimal (show_int n) = n \<and> list_all is_digit (show_int n)"
  using show_pos_decimal by (simp add: show_int_def)

lemma digits_plain: "list_all is_digit ds \<Longrightarrow> CHR ''.'' \<notin> set ds \<and> CHR ''e'' \<notin> set ds \<and> CHR ''E'' \<notin> set ds \<and> CHR ''-'' \<notin> set ds \<and> CHR ''+'' \<notin> set ds"
  by (auto simp: list_all_iff is_digit_def in_range_def)

text \<open>The value of digits, a point, digits and an exponent.\<close>

lemma takeWhile_until: "c \<notin> set xs \<Longrightarrow> ys = [] \<or> hd ys = c \<Longrightarrow> takeWhile (\<lambda>a. a \<noteq> c) (xs @ ys) = xs"
  by (induction xs) (auto simp: takeWhile_eq_Nil_iff)

definition unsigned_value :: "string \<Rightarrow> rat" where
  "unsigned_value u =
     (let mant = takeWhile (\<lambda>c. c \<noteq> CHR ''e'' \<and> c \<noteq> CHR ''E'') u; ex = drop (Suc (length mant)) u;
          ip = takeWhile (\<lambda>c. c \<noteq> CHR ''.'') mant; fp = drop (Suc (length ip)) mant
      in of_int (decimal (ip @ fp)) * pow_int 10 (signed_decimal ex - int (length fp)))"

lemma number_value_unsigned:
  "number_value (''-'' @ u) = - unsigned_value u" "u \<noteq> [] \<Longrightarrow> is_digit (hd u) \<Longrightarrow> number_value u = unsigned_value u"
  by (auto simp: number_value_def unsigned_value_def Let_def is_digit_def in_range_def)

lemma unsigned_value_parts:
  assumes "list_all is_digit ip" "list_all is_digit fp" "dot = [] \<and> fp = [] \<or> dot = ''.''"
    and "ex = [] \<or> (\<exists>r. ex = CHR ''e'' # r)"
  shows "unsigned_value (ip @ dot @ fp @ ex) = of_int (decimal (ip @ fp)) * pow_int 10 (signed_decimal (drop 1 ex) - int (length fp))"
proof -
  let ?m = "ip @ dot @ fp"
  have digits: "\<forall>c \<in> set ?m. c \<noteq> CHR ''e'' \<and> c \<noteq> CHR ''E''"
    using assms(3) digits_plain [OF assms(1)] digits_plain [OF assms(2)] by auto
  have "takeWhile (\<lambda>c. c \<noteq> CHR ''e'' \<and> c \<noteq> CHR ''E'') (?m @ ex) = ?m @ takeWhile (\<lambda>c. c \<noteq> CHR ''e'' \<and> c \<noteq> CHR ''E'') ex"
    by (rule takeWhile_append2) (use digits in blast)
  then have "takeWhile (\<lambda>c. c \<noteq> CHR ''e'' \<and> c \<noteq> CHR ''E'') (?m @ ex) = ?m"
    using assms(4) by auto
  then have mant: "takeWhile (\<lambda>c. c \<noteq> CHR ''e'' \<and> c \<noteq> CHR ''E'') (ip @ dot @ fp @ ex) = ?m" by simp
  have ip: "takeWhile (\<lambda>c. c \<noteq> CHR ''.'') ?m = ip"
    using assms(3) digits_plain [OF assms(1)] by (intro takeWhile_until) auto
  have fp: "drop (Suc (length ip)) ?m = fp" using assms(3) by auto
  have ex: "drop (Suc (length ?m)) (ip @ dot @ fp @ ex) = drop 1 ex" by simp
  show ?thesis unfolding unsigned_value_def Let_def mant ip fp ex by simp
qed

lemma pow_int_add: "pow_int 10 (a + b) = pow_int 10 a * pow_int 10 b"
  by (simp add: pow_int_eq power_int_add)

lemma plain_decimal_value:
  assumes "0 \<le> m"
  shows "unsigned_value (plain_decimal m e) = of_int m * pow_int 10 e"
proof (cases "0 \<le> e")
  case True
  have "0 \<le> m * 10 ^ nat e" using assms by simp
  with unsigned_value_parts [of "show_int (m * 10 ^ nat e)" "[]" "[]" "[]"] show_int_decimal [OF this] True show ?thesis
    by (simp add: plain_decimal_def pow_int_def signed_decimal_def)
next
  case False
  define d :: int where "d = 10 ^ nat (- e)"
  have d: "0 < d" "0 \<le> m div d" using assms by (simp_all add: d_def pos_imp_zdiv_nonneg_iff)
  have pad: "decimal (pad_int (nat (- e)) (m mod d)) = m mod d" "list_all is_digit (pad_int (nat (- e)) (m mod d))"
    "length (pad_int (nat (- e)) (m mod d)) = nat (- e)"
    using pad_int_decimal [of "m mod d" "nat (- e)"] d False by (simp_all add: d_def)
  have "plain_decimal m e = show_int (m div d) @ ''.'' @ pad_int (nat (- e)) (m mod d) @ []"
    using False by (simp add: plain_decimal_def pad_int_def Let_def d_def)
  moreover have "decimal (show_int (m div d) @ pad_int (nat (- e)) (m mod d)) = m"
    using show_int_decimal [OF d(2)] pad by (simp add: decimal_append d_def [symmetric])
  ultimately show ?thesis
    using unsigned_value_parts [of "show_int (m div d)" "pad_int (nat (- e)) (m mod d)" "''.''" "[]"] show_int_decimal [OF d(2)] pad False
    by (simp add: signed_decimal_def)
qed

lemma exponent_value: "signed_decimal (drop 1 (json_exponent x)) = x"
  using show_int_decimal [of "\<bar>x\<bar>"] by (cases "x < 0") (simp_all add: json_exponent_def signed_decimal_def)

lemma digits_text_value:
  assumes "0 \<le> m"
  shows "unsigned_value (digits_text r (m, e)) = of_int m * pow_int 10 e"
proof (cases "r < 1 / 10 ^ 6 \<or> 10 ^ 21 \<le> r")
  case True
  obtain c ds x where m: "show_int m = c # ds" and x: "x = e + int (length ds)"
    and t: "digits_text r (m, e) = [c] @ (if ds = [] then [] else ''.'') @ ds @ json_exponent x"
    and ds: "is_digit c" "list_all is_digit ds"
    by (rule digits_text_exponent [OF True assms])
  have "unsigned_value (digits_text r (m, e)) = of_int (decimal ([c] @ ds)) * pow_int 10 (x - int (length ds))"
    unfolding t using ds
    by (subst unsigned_value_parts) (auto simp: exponent_value [simplified], simp add: json_exponent_def)
  then show ?thesis using show_int_decimal [OF assms] by (simp add: m x)
qed (use plain_decimal_value [OF assms] in \<open>simp add: digits_text_def\<close>)

lemma show_int_head: "0 \<le> n \<Longrightarrow> \<exists>c cs. show_int n = c # cs \<and> is_digit c"
  using show_int_digits [of n] by (cases "show_int n") (auto simp: nat_literal_def)

lemma plain_decimal_head:
  assumes "0 \<le> m"
  shows "\<exists>c cs. plain_decimal m e = c # cs \<and> is_digit c"
proof (cases "0 \<le> e")
  case True
  with show_int_head [of "m * 10 ^ nat e"] assms show ?thesis by (simp add: plain_decimal_def)
next
  case False
  have "0 \<le> m div 10 ^ nat (- e)" using assms by (simp add: pos_imp_zdiv_nonneg_iff)
  from show_int_head [OF this] False show ?thesis by (auto simp: plain_decimal_def Let_def)
qed

lemma digits_text_head:
  assumes "0 \<le> m"
  shows "digits_text r (m, e) \<noteq> [] \<and> is_digit (hd (digits_text r (m, e)))"
proof (cases "r < 1 / 10 ^ 6 \<or> 10 ^ 21 \<le> r")
  case True
  show ?thesis by (rule digits_text_exponent [OF True assms, of e]) simp
next
  case False
  with plain_decimal_head [OF assms, of e] show ?thesis by (auto simp: digits_text_def)
qed

lemma f64_round_minus: "f64_round (- x) = F_Fin (- r) \<longleftrightarrow> f64_round x = F_Fin r"
  by (auto simp: f64_round_def Let_def)

lemma digits_text_reads_back:
  assumes "f64_round r = F_Fin r" "0 < r"
  shows "f64_round (number_value (digits_text r (shortest r))) = F_Fin r"
    and "f64_round (number_value (''-'' @ digits_text r (shortest r))) = F_Fin (- r)"
proof -
  obtain m e where s: "shortest r = (m, e)" by fastforce
  then have m: "0 \<le> m" using shortest_from_nonneg [of r] assms(2) by (metis fst_conv less_imp_le shortest_def)
  have v: "f64_round (unsigned_value (digits_text r (shortest r))) = F_Fin r"
    using shortest_reads_back [OF assms s] by (simp add: s digits_text_value [OF m])
  then show "f64_round (number_value (digits_text r (shortest r))) = F_Fin r"
    using digits_text_head [OF m, of r e] by (simp add: s number_value_unsigned)
  show "f64_round (number_value (''-'' @ digits_text r (shortest r))) = F_Fin (- r)"
    unfolding number_value_unsigned f64_round_minus by (rule v)
qed

text \<open>Every finite double is read back from the text written for it, whatever its size.\<close>

definition is_double :: "f64 \<Rightarrow> bool" where
  "is_double x \<longleftrightarrow> (case x of F_Fin r \<Rightarrow> f64_round r = F_Fin r | _ \<Rightarrow> False)"

theorem json_float_reads_back:
  assumes "is_double x" "json_float x = JNum t"
  shows "f64_round (number_value t) = x"
proof -
  obtain r where x: "x = F_Fin r" "f64_round r = F_Fin r" using assms(1) by (auto simp: is_double_def split: f64.splits)
  consider "r = 0" | "0 < r" | "r < 0" by linarith
  then show ?thesis
  proof cases
    case 1
    have "f64_round (number_value ''0'') = F_Fin 0" by code_simp
    with 1 x assms(2) show ?thesis by (simp add: json_float_def with_sign_def)
  next
    case 2
    with x assms(2) digits_text_reads_back(1) [OF x(2) 2] show ?thesis by (auto simp: json_float_def with_sign_def)
  next
    case 3
    have "f64_round (- r) = F_Fin (- r)" using x(2) by (simp add: f64_round_minus)
    from digits_text_reads_back(2) [OF this] 3 x assms(2) show ?thesis by (auto simp: json_float_def with_sign_def)
  qed
qed

end
