(* ===== verification/Wire.thy ===== *)
theory Wire
  imports Schema Float_Text
begin

text \<open>
  The JSON texts of the platform's messages (the struct tags of \<open>internal/domain\<close> and the encoder and
  strict decoder of \<open>internal/schema\<close>): observations, events, automation requests and results. The
  other theories pass messages as values; here their texts are written and read, and an event that is
  published is the event that is handled.
\<close>


section \<open>Writing objects\<close>

text \<open>
  A member that \<open>omitempty\<close> or \<open>omitzero\<close> leaves out is an empty list of members. What the encoder
  refuses (a number that is not finite, a year beyond four digits) is the precondition of
  \<open>Encode\<close> in \<open>Schema\<close>; the functions here give the text in the other cases.
\<close>

definition omit_if :: "bool \<Rightarrow> string \<Rightarrow> json \<Rightarrow> (string \<times> json) list" where
  "omit_if b k v = (if b then [] else [(k, v)])"

abbreviation str_map :: "strmap \<Rightarrow> json" where
  "str_map m \<equiv> map_json JStr m"


section \<open>Observations\<close>

text \<open>
  A decoded value is a \<open>float64\<close>, a boolean, a string, nil, or a slice or map, of which only the type
  matters. A number too large for a double is an error. Encoding is for the types the platform holds; a slice or a map has already been refused by validation.
\<close>

definition json_value_of :: "json \<Rightarrow> goval option" where
  "json_value_of v =
     (case v of
        JNull \<Rightarrow> Some VNil
      | JBool b \<Rightarrow> Some (VBool b)
      | JStr s \<Rightarrow> Some (VString s)
      | JNum t \<Rightarrow> (case f64_round (number_value t) of F_Fin r \<Rightarrow> Some (VFloat64 (F_Fin r)) | _ \<Rightarrow> None)
      | JArr _ \<Rightarrow> Some (VOther ''[]interface {}'')
      | JObj _ \<Rightarrow> Some (VOther ''map[string]interface {}''))"

definition value_json :: "goval \<Rightarrow> json" where
  "value_json v =
     (case v of
        VBool b \<Rightarrow> JBool b
      | VString s \<Rightarrow> JStr s
      | VFloat64 x \<Rightarrow> json_float x
      | VFloat32 x \<Rightarrow> json_float32 x
      | VInt i \<Rightarrow> JNum (show_int i)
      | VInt32 i \<Rightarrow> JNum (show_int i)
      | VInt64 i \<Rightarrow> JNum (show_int i)
      | VUint32 i \<Rightarrow> JNum (show_int i)
      | VUint64 i \<Rightarrow> JNum (show_int i)
      | _ \<Rightarrow> JNull)"

definition observation_json :: "observation \<Rightarrow> json" where
  "observation_json ob = JObj (
     [(''observation_id'', JStr (o_ObservationID ob)), (''correlation_id'', JStr (o_CorrelationID ob)),
      (''device_id'', JStr (o_DeviceID ob)), (''source'', JStr (o_Source ob)), (''metric'', JStr (o_Metric ob)),
      (''value'', value_json (o_Value ob))]
     @ omit_if (o_Labels ob = fmempty) ''labels'' (str_map (o_Labels ob))
     @ [(''observed_at'', time_json (o_ObservedAt ob))]
     @ omit_if (o_ReceivedAt ob = 0) ''received_at'' (time_json (o_ReceivedAt ob))
     @ omit_if (o_Metadata ob = fmempty) ''metadata'' (str_map (o_Metadata ob)))"

definition value_field :: "(goval \<Rightarrow> 'r \<Rightarrow> 'r) \<Rightarrow> json \<Rightarrow> 'r \<Rightarrow> 'r option" where
  "value_field upd v r = map_option (\<lambda>x. upd x r) (json_value_of v)"

abbreviation strmap_field :: "('r \<Rightarrow> strmap) \<Rightarrow> (strmap \<Rightarrow> 'r \<Rightarrow> 'r) \<Rightarrow> json \<Rightarrow> 'r \<Rightarrow> 'r option" where
  "strmap_field get upd \<equiv> map_field read_string get upd"

definition observation_fields :: "observation field list" where
  "observation_fields =
     [(''observation_id'', str_field (\<lambda>x r. r\<lparr>o_ObservationID := x\<rparr>)),
      (''correlation_id'', str_field (\<lambda>x r. r\<lparr>o_CorrelationID := x\<rparr>)),
      (''device_id'', str_field (\<lambda>x r. r\<lparr>o_DeviceID := x\<rparr>)),
      (''source'', str_field (\<lambda>x r. r\<lparr>o_Source := x\<rparr>)),
      (''metric'', str_field (\<lambda>x r. r\<lparr>o_Metric := x\<rparr>)),
      (''value'', value_field (\<lambda>x r. r\<lparr>o_Value := x\<rparr>)),
      (''labels'', strmap_field o_Labels (\<lambda>x r. r\<lparr>o_Labels := x\<rparr>)),
      (''observed_at'', time_field (\<lambda>x r. r\<lparr>o_ObservedAt := x\<rparr>)),
      (''received_at'', time_field (\<lambda>x r. r\<lparr>o_ReceivedAt := x\<rparr>)),
      (''metadata'', strmap_field o_Metadata (\<lambda>x r. r\<lparr>o_Metadata := x\<rparr>))]"

definition observation_zero :: observation where
  "observation_zero = \<lparr>o_ObservationID = [], o_CorrelationID = [], o_DeviceID = [], o_Source = [], o_Metric = [], o_Value = VNil,
     o_Labels = fmempty, o_ObservedAt = 0, o_ReceivedAt = 0, o_Metadata = fmempty\<rparr>"


section \<open>Events and automation\<close>

definition event_json :: "event \<Rightarrow> json" where
  "event_json e = JObj (
     [(''event_id'', JStr (e_EventID e)), (''correlation_id'', JStr (e_CorrelationID e)),
      (''device_id'', JStr (e_DeviceID e)), (''type'', JStr (e_Type e)),
      (''severity'', JStr (severity_text (e_Severity e))), (''message'', JStr (e_Message e))]
     @ omit_if (e_Labels e = fmempty) ''labels'' (str_map (e_Labels e))
     @ [(''occurred_at'', time_json (e_OccurredAt e))]
     @ omit_if (e_ObservationID e = []) ''observation_id'' (JStr (e_ObservationID e))
     @ [(''source'', JStr (e_Source e))]
     @ omit_if (e_AlertKey e = []) ''alert_key'' (JStr (e_AlertKey e))
     @ omit_if (\<not> e_Resolves e) ''resolves'' (JBool (e_Resolves e)))"

definition event_fields :: "event field list" where
  "event_fields =
     [(''event_id'', str_field (\<lambda>x r. r\<lparr>e_EventID := x\<rparr>)),
      (''correlation_id'', str_field (\<lambda>x r. r\<lparr>e_CorrelationID := x\<rparr>)),
      (''device_id'', str_field (\<lambda>x r. r\<lparr>e_DeviceID := x\<rparr>)),
      (''type'', str_field (\<lambda>x r. r\<lparr>e_Type := x\<rparr>)),
      (''severity'', str_field (\<lambda>x r. r\<lparr>e_Severity := severity_of x\<rparr>)),
      (''message'', str_field (\<lambda>x r. r\<lparr>e_Message := x\<rparr>)),
      (''labels'', strmap_field e_Labels (\<lambda>x r. r\<lparr>e_Labels := x\<rparr>)),
      (''occurred_at'', time_field (\<lambda>x r. r\<lparr>e_OccurredAt := x\<rparr>)),
      (''observation_id'', str_field (\<lambda>x r. r\<lparr>e_ObservationID := x\<rparr>)),
      (''source'', str_field (\<lambda>x r. r\<lparr>e_Source := x\<rparr>)),
      (''alert_key'', str_field (\<lambda>x r. r\<lparr>e_AlertKey := x\<rparr>)),
      (''resolves'', bool_field (\<lambda>x r. r\<lparr>e_Resolves := x\<rparr>))]"

definition event_zero :: event where
  "event_zero = \<lparr>e_EventID = [], e_CorrelationID = [], e_DeviceID = [], e_Type = [], e_Severity = SeverityOther [], e_Message = [],
     e_Labels = fmempty, e_OccurredAt = 0, e_ObservationID = [], e_Source = [], e_AlertKey = [], e_Resolves = False\<rparr>"

definition request_json :: "automation_request \<Rightarrow> json" where
  "request_json q = JObj (
     [(''request_id'', JStr (q_RequestID q)), (''correlation_id'', JStr (q_CorrelationID q)),
      (''policy_id'', JStr (q_PolicyID q)), (''event_id'', JStr (q_EventID q))]
     @ omit_if (q_AlertKey q = []) ''alert_key'' (JStr (q_AlertKey q))
     @ [(''device_id'', JStr (q_DeviceID q)), (''action'', JStr (q_Action q))]
     @ omit_if (q_Target q = []) ''target'' (JStr (q_Target q))
     @ omit_if (q_Params q = fmempty) ''params'' (str_map (q_Params q))
     @ omit_if (q_Reason q = []) ''reason'' (JStr (q_Reason q))
     @ [(''proposer'', JStr (q_Proposer q)), (''dry_run'', JBool (q_DryRun q)),
      (''status'', JStr (automation_status_text (q_Status q))), (''not_before'', time_json (q_NotBefore q)),
      (''created_at'', time_json (q_CreatedAt q))]
     @ omit_if (q_ApprovedBy q = []) ''approved_by'' (JStr (q_ApprovedBy q)))"

definition result_json :: "automation_result \<Rightarrow> json" where
  "result_json u = JObj (
     [(''request_id'', JStr (u_RequestID u)), (''correlation_id'', JStr (u_CorrelationID u)),
      (''status'', JStr (automation_status_text (u_Status u))), (''dry_run'', JBool (u_DryRun u)),
      (''message'', JStr (u_Message u))]
     @ omit_if (u_Details u = fmempty) ''details'' (str_map (u_Details u))
     @ [(''started_at'', time_json (u_StartedAt u)), (''finished_at'', time_json (u_FinishedAt u))])"


section \<open>The strict decoder (schema.Decode)\<close>

text \<open>
  \<open>json.Decoder\<close> with \<open>DisallowUnknownFields\<close>: one value, the members of which must be known fields
  of the right type, and whether anything follows it.
\<close>

definition strict_decoder :: "'r field list \<Rightarrow> 'r \<Rightarrow> 'r json_decoder" where
  "strict_decoder fs zero data =
     (case parse_value 0 data of
        None \<Rightarrow> Inl ''invalid JSON''
      | Some (v, rest) \<Rightarrow>
          (case decode_struct True fs zero v of
             None \<Rightarrow> Inl ''json: unknown or mistyped field''
           | Some r \<Rightarrow> Inr (r, skip_space rest \<noteq> [])))"

definition event_decoder :: "event json_decoder" where
  "event_decoder = strict_decoder event_fields event_zero"

definition observation_decoder :: "observation json_decoder" where
  "observation_decoder = strict_decoder observation_fields observation_zero"


section \<open>Texts read back\<close>

lemma value_json_writable: "json_value v \<Longrightarrow> (case v of VString s \<Rightarrow> valid_utf8 s | _ \<Rightarrow> True) \<Longrightarrow> writable d (value_json v)"
  by (cases v) (simp_all add: value_json_def json_value_def json_float_literal show_int_literal)

definition utf8_map :: "strmap \<Rightarrow> bool" where
  "utf8_map m \<longleftrightarrow> list_all (\<lambda>(k, v). valid_utf8 k \<and> valid_utf8 v) (fm_items m)"

lemma utf8_map_writable: "utf8_map m \<Longrightarrow> writable 1 (str_map m)"
  by (intro writable_map) (auto simp: max_nesting_def utf8_map_def list_all_iff set_fm_items)

lemma str_map_write: "get r = fmempty \<Longrightarrow> map_field read_string get upd (str_map m) r = Some (upd m r)"
  by (rule map_field_write) (simp_all add: json_fields)

lemma strict_decoder_text:
  assumes "writable 0 v" "decode_struct True fs zero v = Some r"
  shows "strict_decoder fs zero (show_json v) = Inr (r, False)"
  using parse_show [OF assms(1), of "[]"] assms(2) by (simp add: strict_decoder_def number_end_def skip_space_def)

lemma Decode_text:
  assumes "json (show_json v) = Inr (r, False)" "int (length (show_json v)) \<le> n"
  shows "Decode json (show_json v) n = Inr r"
  using assms by (simp add: Decode_def)

lemma severity_of_text: "Severity_Valid s \<Longrightarrow> severity_of (severity_text s) = s"
  by (cases s) (simp_all add: severity_of_def severity_text_def Severity_Valid_def Rank_def)

lemma event_names:
  "list_all valid_utf8 [''event_id'', ''correlation_id'', ''device_id'', ''type'', ''severity'', ''message'', ''labels'',
     ''occurred_at'', ''observation_id'', ''source'', ''alert_key'', ''resolves'', ''info'', ''warning'', ''critical'']"
  by code_simp

lemma severity_text_utf8: "Severity_Valid s \<Longrightarrow> valid_utf8 (severity_text s)"
  using event_names by (cases s) (simp_all add: severity_text_def Severity_Valid_def Rank_def)

text \<open>The events whose text carries them: valid text, a known severity and a time that can be written.\<close>

definition utf8_event :: "event \<Rightarrow> bool" where
  "utf8_event e \<longleftrightarrow> list_all valid_utf8 [e_EventID e, e_CorrelationID e, e_DeviceID e, e_Type e, e_Message e, e_ObservationID e, e_Source e, e_AlertKey e]
     \<and> utf8_map (e_Labels e) \<and> Severity_Valid (e_Severity e)"

lemma event_writable: "utf8_event e \<Longrightarrow> json_event e \<Longrightarrow> writable 0 (event_json e)"
  using event_names utf8_map_writable [of "e_Labels e"] severity_text_utf8 [of "e_Severity e"]
  by (simp add: event_json_def utf8_event_def json_event_def omit_if_def max_nesting_def)

lemma event_decode:
  "utf8_event e \<Longrightarrow> json_event e \<Longrightarrow> decode_struct True event_fields event_zero (event_json e) = Some e"
  by (simp add: decode_struct_def event_json_def set_fields_append find_field_def event_fields_def json_fields str_map_write
      event_zero_def utf8_event_def json_event_def omit_if_def severity_of_text)

lemma event_text:
  assumes "utf8_event e" "json_event e" "int (length (show_json (event_json e))) \<le> n"
  shows "Decode event_decoder (show_json (event_json e)) n = Inr e"
  by (rule Decode_text [OF _ assms(3)]) (simp add: event_decoder_def strict_decoder_text event_writable event_decode assms(1,2))

text \<open>
  An observation with a boolean, a text or a finite double as its value reads back.
\<close>

lemma json_value_of_plain: "json_value_of (JBool b) = Some (VBool b)" "json_value_of (JStr t) = Some (VString t)"
  by (simp_all add: json_value_of_def)

lemma json_value_of_float:
  assumes "is_double x"
  shows "json_value_of (json_float x) = Some (VFloat64 x)"
proof -
  obtain t where t: "json_float x = JNum t" by (simp add: json_float_def)
  with json_float_reads_back [OF assms t] assms show ?thesis by (auto simp: json_value_of_def is_double_def split: f64.splits)
qed

definition utf8_observation :: "observation \<Rightarrow> bool" where
  "utf8_observation ob \<longleftrightarrow>
     list_all valid_utf8 [o_ObservationID ob, o_CorrelationID ob, o_DeviceID ob, o_Source ob, o_Metric ob]
     \<and> utf8_map (o_Labels ob) \<and> utf8_map (o_Metadata ob)
     \<and> (case o_Value ob of VBool b \<Rightarrow> True | VString s \<Rightarrow> valid_utf8 s | VFloat64 x \<Rightarrow> is_double x | _ \<Rightarrow> False)"

lemma observation_names:
  "list_all valid_utf8 [''observation_id'', ''correlation_id'', ''device_id'', ''source'', ''metric'', ''value'', ''labels'',
     ''observed_at'', ''received_at'', ''metadata'']"
  by code_simp

lemma observation_writable: "utf8_observation ob \<Longrightarrow> json_observation ob \<Longrightarrow> writable 0 (observation_json ob)"
  using observation_names utf8_map_writable [of "o_Labels ob"] utf8_map_writable [of "o_Metadata ob"]
  by (cases "o_Value ob") (simp_all add: observation_json_def utf8_observation_def json_observation_def omit_if_def max_nesting_def value_json_def
      json_value_def json_float_literal)

lemma observation_decode:
  "utf8_observation ob \<Longrightarrow> json_observation ob \<Longrightarrow>
    decode_struct True observation_fields observation_zero (observation_json ob) = Some ob"
  by (cases "o_Value ob")
    (simp_all add: decode_struct_def observation_json_def set_fields_append find_field_def observation_fields_def json_fields str_map_write
      observation_zero_def utf8_observation_def json_observation_def omit_if_def value_field_def json_value_of_plain json_value_of_float value_json_def)

text \<open>
  What the encoder writes for an observation is read back by the strict decoder as the same
  observation, when the message limit admits it: labels, metadata, times and a boolean, text or finite
  double value, which is written with the shortest digits that determine it.
\<close>

theorem observation_text:
  assumes "utf8_observation ob" "json_observation ob" "int (length (show_json (observation_json ob))) \<le> n"
  shows "Decode observation_decoder (show_json (observation_json ob)) n = Inr ob"
  by (rule Decode_text [OF _ assms(3)])
    (simp add: observation_decoder_def strict_decoder_text observation_writable observation_decode assms(1,2))

definition ex_reading :: observation where
  "ex_reading = \<lparr>o_ObservationID = ''o1'', o_CorrelationID = ''c1'', o_DeviceID = ''r1'', o_Source = ''snmp'', o_Metric = ''cpu.load'',
     o_Value = VFloat64 (F_Fin (- 5 / 4)), o_Labels = fmap_of_list [(''core'', ''0'')], o_ObservedAt = 3 * second, o_ReceivedAt = 0,
     o_Metadata = fmempty\<rparr>"

theorem observation_text_witness:
  "Decode observation_decoder (show_json (observation_json ex_reading)) 65536 = Inr ex_reading
   \<and> show_json (value_json (o_Value ex_reading)) = ''-1.25''"
proof
  show "Decode observation_decoder (show_json (observation_json ex_reading)) 65536 = Inr ex_reading"
    by (rule observation_text) code_simp+
  show "show_json (value_json (o_Value ex_reading)) = ''-1.25''" by code_simp
qed

text \<open>A member the decoder does not know makes the whole message an error, also where the text is otherwise an observation.\<close>

lemma unknown_member_refused:
  "find_field fs k = None \<Longrightarrow> set_fields True fs (ms @ (k, v) # ms') r = None"
  by (simp add: set_fields_append split: option.split)

end
