(* ===== verification/Collector.thy ===== *)
theory Collector
  imports Snmp Messaging Wire
begin

text \<open>
  Package \<open>internal/collector\<close> (scheduler.go, natssink.go): one collection cycle of a device and the
  observations it reports, the sink that publishes them, and the scheduler that decides which device
  is polled when. The poller and the sink are the interfaces of the code; \<open>NATSSink\<close> is the sink on a
  broker. The scheduler's loop and its worker goroutines are the step relation \<open>sched_step\<close>. Logging
  and the metrics hook are left out; the poll's deadline belongs to the poller's context.
\<close>


section \<open>Interfaces\<close>

definition MetricPollSuccess :: string where "MetricPollSuccess = ''collector.poll_success''"
definition MetricPollDuration :: string where "MetricPollDuration = ''collector.poll_duration_seconds''"

record inventory_fact =
  if_DeviceID :: string
  if_CorrelationID :: string
  if_SysName :: string
  if_SysDescr :: string
  if_SysObjectID :: string
  if_ProfileID :: string
  if_ObservedAt :: gotime

record 'w sink =
  sk_Observations :: "observation list \<Rightarrow> ('w, unit) prog"
  sk_Inventory :: "inventory_fact \<Rightarrow> ('w, unit) prog"

text \<open>\<open>sh_NewID\<close> is \<open>domain.NewCorrelationID\<close>, which draws random bytes.\<close>

record 'w scheduler =
  sh_Poll :: "device \<Rightarrow> string \<Rightarrow> 'w poll_step"
  sh_Sink :: "'w sink"
  sh_Workers :: int
  sh_DefaultInterval :: duration
  sh_Now :: "'w \<Rightarrow> gotime \<times> 'w"
  sh_NewID :: "'w \<Rightarrow> string \<times> 'w"

definition poll_interval :: "'w scheduler \<Rightarrow> device \<Rightarrow> duration" where
  "poll_interval sc d = (if 0 < c_Interval (d_Collection d) then c_Interval (d_Collection d) else sh_DefaultInterval sc)"

text \<open>Division by zero panics; a negative interval becomes a large unsigned one.\<close>

definition offset :: "string \<Rightarrow> duration \<Rightarrow> duration option" where
  "offset i iv = (let n = iv mod 2 ^ 64 in if n = 0 then None else Some (uint (fnv32a i) mod n))"


section \<open>One collection cycle (PollOnce)\<close>

definition Seconds :: "duration \<Rightarrow> f64" where
  "Seconds d =
     (let sec = (if 0 \<le> d then d div second else - (- d div second)); nsec = d - sec * second
      in f64_add (f64_of_int sec) (f64_div_rat (f64_of_int nsec) (10 ^ 9)))"

definition cycle_observation :: "string \<Rightarrow> device \<Rightarrow> gotime \<Rightarrow> string \<Rightarrow> goval \<Rightarrow> observation" where
  "cycle_observation cycleID dev started metric v =
     (let labels = fmap_of_list [(''protocol'', ''snmp'')]
      in \<lparr>o_ObservationID = NewObservationID cycleID (d_ID dev) metric labels, o_CorrelationID = cycleID, o_DeviceID = d_ID dev,
          o_Source = ''snmp'', o_Metric = metric, o_Value = v, o_Labels = labels, o_ObservedAt = started, o_ReceivedAt = 0,
          o_Metadata = fmempty\<rparr>)"

definition cycle_observations :: "string \<Rightarrow> device \<Rightarrow> gotime \<Rightarrow> duration \<Rightarrow> poll_result \<Rightarrow> goerr option \<Rightarrow> observation list" where
  "cycle_observations cycleID dev started took res err =
     (case err of
        Some e \<Rightarrow>
          [(cycle_observation cycleID dev started MetricPollSuccess (VBool False))
             \<lparr>o_Metadata := fmap_of_list [(''error_category'', category_text (CategoryOf e)), (''error'', take 200 (err_text e))]\<rparr>]
      | None \<Rightarrow>
          pr_Observations res
          @ [cycle_observation cycleID dev started MetricPollDuration (VFloat64 (Seconds took)),
             cycle_observation cycleID dev started MetricPollSuccess (VBool True)])"

definition cycle_fact :: "string \<Rightarrow> device \<Rightarrow> gotime \<Rightarrow> facts \<Rightarrow> inventory_fact" where
  "cycle_fact cycleID dev started f =
     \<lparr>if_DeviceID = d_ID dev, if_CorrelationID = cycleID, if_SysName = fc_SysName f, if_SysDescr = fc_SysDescr f,
      if_SysObjectID = fc_SysObjectID f, if_ProfileID = fc_ProfileID f, if_ObservedAt = started\<rparr>"

text \<open>Errors of the sink are logged; the function returns nothing.\<close>

definition PollOnce :: "'w scheduler \<Rightarrow> device \<Rightarrow> ('w, unit) prog" where
  "PollOnce sc dev w =
     (let (cycleID, w1) = sh_NewID sc w; (started, w2) = sh_Now sc w1; ((res, polled), w3) = sh_Poll sc dev cycleID w2 in
      if polled = Panics then (Panics, w3)
      else
        let (ended, w4) = sh_Now sc w3; took = time_sub ended started;
            err = (case polled of Fails e \<Rightarrow> Some e | _ \<Rightarrow> None) in
        case sk_Observations (sh_Sink sc) (cycle_observations cycleID dev started took res err) w4 of
          (Panics, w5) \<Rightarrow> (Panics, w5)
        | (Fails _, w5) \<Rightarrow> (Done (), w5)
        | (Done _, w5) \<Rightarrow>
            if err = None \<and> (fc_SysName (pr_Facts res) \<noteq> [] \<or> fc_SysObjectID (pr_Facts res) \<noteq> [])
            then case sk_Inventory (sh_Sink sc) (cycle_fact cycleID dev started (pr_Facts res)) w5 of
                   (Panics, w6) \<Rightarrow> (Panics, w6)
                 | (_, w6) \<Rightarrow> (Done (), w6)
            else (Done (), w5))"


section \<open>Publishing (natssink.go)\<close>

definition call_tx :: "('b, 'a) call \<Rightarrow> ('b, 'a) prog" where
  "call_tx m b = (case m b of (Inl e, b') \<Rightarrow> (Fails e, b') | (Inr a, b') \<Rightarrow> (Done a, b'))"

definition rootSource :: "string \<Rightarrow> string" where
  "rootSource source = takeWhile (\<lambda>c. c \<noteq> CHR '':'') source"

definition observation_message :: "observation \<Rightarrow> out_msg" where
  "observation_message ob =
     \<lparr>out_Subject = SubjectRawPrefix @ ''.'' @ rootSource (o_Source ob), out_MsgID = o_ObservationID ob,
      out_Payload = show_json (observation_json ob), out_Headers = message_headers ObservationV1 (o_CorrelationID ob)\<rparr>"

definition json_fact :: "inventory_fact \<Rightarrow> bool" where
  "json_fact f = json_time (if_ObservedAt f)"

definition fact_json :: "inventory_fact \<Rightarrow> json" where
  "fact_json f = JObj (
     [(''device_id'', JStr (if_DeviceID f)), (''correlation_id'', JStr (if_CorrelationID f))]
     @ omit_if (if_SysName f = []) ''sys_name'' (JStr (if_SysName f))
     @ omit_if (if_SysDescr f = []) ''sys_descr'' (JStr (if_SysDescr f))
     @ omit_if (if_SysObjectID f = []) ''sys_object_id'' (JStr (if_SysObjectID f))
     @ omit_if (if_ProfileID f = []) ''profile_id'' (JStr (if_ProfileID f))
     @ [(''observed_at'', time_json (if_ObservedAt f))])"

fun encode_all :: "observation list \<Rightarrow> goerr + out_msg list" where
  "encode_all [] = Inr []"
| "encode_all (ob # obs) =
     bind_res (Encode json_observation ob) (\<lambda>ob'. bind_res (encode_all obs) (\<lambda>ms. Inr (observation_message ob' # ms)))"

definition NATSSink :: "'b broker \<Rightarrow> 'b ctx \<Rightarrow> 'b sink" where
  "NATSSink br ctx = \<lparr>
     sk_Observations = (\<lambda>obs. bind_tx (lift_tx (encode_all obs)) (\<lambda>msgs. call_tx (PublishBatch br ctx msgs))),
     sk_Inventory = (\<lambda>f. bind_tx (lift_tx (Encode json_fact f)) (\<lambda>f'.
        call_tx (Publish br ctx SubjectInventoryObserved (StableID [''inv'', if_CorrelationID f', if_DeviceID f'])
          (show_json (fact_json f')) (message_headers InventoryV1 (if_CorrelationID f')))))\<rparr>"


section \<open>The scheduler's loop\<close>

text \<open>
  What the loop and its worker goroutines share. \<open>sc_pass\<close> is the pass over the devices the loop is
  in: its time, the wake-up time so far and the devices still to visit. \<open>sc_offer\<close> is the device the
  loop is handing over, which blocks until a worker is free. \<open>sc_started\<close> records each hand-over with
  the time of its pass and the interval used.
\<close>

record sched =
  sc_inflight :: "string set"
  sc_next :: "(string, gotime) fmap"
  sc_pass :: "(gotime \<times> gotime \<times> device list) option"
  sc_offer :: "device option"
  sc_polling :: "device list"
  sc_wake :: gotime
  sc_started :: "(string \<times> gotime \<times> duration) list"

definition sched_start :: sched where
  "sched_start = \<lparr>sc_inflight = {}, sc_next = fmempty, sc_pass = None, sc_offer = None, sc_polling = [], sc_wake = 0,
     sc_started = []\<rparr>"

text \<open>The body of the loop over the devices, up to the hand-over. \<open>None\<close> is a panic.\<close>

definition visit :: "'w scheduler \<Rightarrow> gotime \<Rightarrow> gotime \<Rightarrow> device \<Rightarrow> device list \<Rightarrow> sched \<Rightarrow> sched option" where
  "visit sc now wake dev devs s =
     (if \<not> d_Enabled dev \<or> c_Protocol (d_Collection dev) \<noteq> ''snmp'' then Some (s\<lparr>sc_pass := Some (now, wake, devs)\<rparr>)
      else
        let iv = poll_interval sc dev in
        case (case fmlookup (sc_next s) (d_ID dev) of Some due \<Rightarrow> Some due | None \<Rightarrow> map_option (\<lambda>off. now + off) (offset (d_ID dev) iv)) of
          None \<Rightarrow> None
        | Some due \<Rightarrow>
            let s1 = s\<lparr>sc_next := fmupd (d_ID dev) due (sc_next s)\<rparr> in
            if now < due then Some (s1\<lparr>sc_pass := Some (now, min wake due, devs)\<rparr>)
            else
              let s2 = s1\<lparr>sc_next := fmupd (d_ID dev) (now + iv) (sc_next s1), sc_pass := Some (now, min wake (now + iv), devs)\<rparr> in
              if d_ID dev \<in> sc_inflight s then Some s2
              else Some (s2\<lparr>sc_inflight := insert (d_ID dev) (sc_inflight s), sc_offer := Some dev\<rparr>))"

text \<open>
  The interleavings of the loop and the workers: the timer fires and a pass begins, a device is
  visited, the offered device is taken by a free worker, a worker finishes its poll, a pass ends.
\<close>

inductive sched_step :: "'w scheduler \<Rightarrow> sched \<Rightarrow> sched \<Rightarrow> bool" for sc where
  fires: "sc_pass s = None \<Longrightarrow> sc_wake s \<le> now \<Longrightarrow>
    sched_step sc s (s\<lparr>sc_pass := Some (now, now + second, devices)\<rparr>)"
| visits: "sc_pass s = Some (now, wake, dev # devs) \<Longrightarrow> sc_offer s = None \<Longrightarrow> visit sc now wake dev devs s = Some s' \<Longrightarrow>
    sched_step sc s s'"
| hands_over: "sc_pass s = Some (now, wake, devs) \<Longrightarrow> sc_offer s = Some dev \<Longrightarrow> int (length (sc_polling s)) < max (sh_Workers sc) 1 \<Longrightarrow>
    sched_step sc s (s\<lparr>sc_offer := None, sc_polling := dev # sc_polling s,
      sc_started := (d_ID dev, now, poll_interval sc dev) # sc_started s\<rparr>)"
| finishes: "sc_polling s = l @ dev # r \<Longrightarrow>
    sched_step sc s (s\<lparr>sc_polling := l @ r, sc_inflight := sc_inflight s - {d_ID dev}\<rparr>)"
| sleeps: "sc_pass s = Some (now, wake, []) \<Longrightarrow> sc_offer s = None \<Longrightarrow>
    sched_step sc s (s\<lparr>sc_pass := None, sc_wake := max wake (now + 5 * millisecond)\<rparr>)"

inductive scheduled :: "'w scheduler \<Rightarrow> sched \<Rightarrow> bool" for sc where
  start: "scheduled sc sched_start"
| step: "scheduled sc s \<Longrightarrow> sched_step sc s s' \<Longrightarrow> scheduled sc s'"



section \<open>What every interleaving keeps\<close>

definition occupied :: "sched \<Rightarrow> device list" where
  "occupied s = (case sc_offer s of None \<Rightarrow> [] | Some d \<Rightarrow> [d]) @ sc_polling s"

text \<open>A newer entry of the log and an older one of the same device: an interval lies between them.\<close>

fun spaced_after :: "string \<times> gotime \<times> duration \<Rightarrow> string \<times> gotime \<times> duration \<Rightarrow> bool" where
  "spaced_after (i, t, iv) (j, u, ju) = (i = j \<longrightarrow> u + ju \<le> t)"

definition sched_inv :: "'w scheduler \<Rightarrow> sched \<Rightarrow> bool" where
  "sched_inv sc s \<longleftrightarrow>
     sc_inflight s = d_ID ` set (occupied s) \<and> distinct (map d_ID (occupied s))
   \<and> int (length (sc_polling s)) \<le> max (sh_Workers sc) 1
   \<and> sorted_wrt spaced_after (sc_started s)
   \<and> (\<forall>(i, t, iv) \<in> set (sc_started s). \<exists>due. fmlookup (sc_next s) i = Some due \<and> t + iv \<le> due)
   \<and> (\<forall>dev. sc_offer s = Some dev \<longrightarrow> (\<exists>now wake devs. sc_pass s = Some (now, wake, devs)
        \<and> fmlookup (sc_next s) (d_ID dev) = Some (now + poll_interval sc dev)
        \<and> (\<forall>(i, t, iv) \<in> set (sc_started s). i = d_ID dev \<longrightarrow> t + iv \<le> now)))"

lemma sched_inv_start: "sched_inv sc sched_start"
  by (simp add: sched_inv_def sched_start_def occupied_def)

lemma poll_interval_nonneg: "0 \<le> sh_DefaultInterval sc \<Longrightarrow> 0 \<le> poll_interval sc dev"
  by (simp add: poll_interval_def)

text \<open>What visiting a device changes: its due time only grows, and it is offered when it is due and not in flight.\<close>

lemma visit_effect:
  assumes "visit sc now wake dev devs s = Some s'" "0 \<le> sh_DefaultInterval sc" "sc_offer s = None"
  obtains w where "s' = s\<lparr>sc_pass := Some (now, w, devs)\<rparr>"
  | due w where "s' = s\<lparr>sc_next := fmupd (d_ID dev) due (sc_next s), sc_pass := Some (now, w, devs)\<rparr>"
      "\<And>old. fmlookup (sc_next s) (d_ID dev) = Some old \<Longrightarrow> old \<le> due"
  | w where "d_ID dev \<notin> sc_inflight s" "s' = s\<lparr>sc_next := fmupd (d_ID dev) (now + poll_interval sc dev) (sc_next s),
        sc_pass := Some (now, w, devs), sc_inflight := insert (d_ID dev) (sc_inflight s), sc_offer := Some dev\<rparr>"
      "\<And>old. fmlookup (sc_next s) (d_ID dev) = Some old \<Longrightarrow> old \<le> now"
proof (cases "\<not> d_Enabled dev \<or> c_Protocol (d_Collection dev) \<noteq> ''snmp''")
  case True
  with assms(1) that(1) show ?thesis by (auto simp: visit_def)
next
  case False
  let ?iv = "poll_interval sc dev"
  obtain due where due: "(case fmlookup (sc_next s) (d_ID dev) of Some due \<Rightarrow> Some due
      | None \<Rightarrow> map_option (\<lambda>off. now + off) (offset (d_ID dev) ?iv)) = Some due"
    using assms(1) False by (auto simp: visit_def Let_def split: option.splits)
  have old: "old = due" if "fmlookup (sc_next s) (d_ID dev) = Some old" for old using that due by simp
  have iv: "0 \<le> ?iv" using assms(2) by (rule poll_interval_nonneg)
  consider "now < due" | "\<not> now < due" "d_ID dev \<in> sc_inflight s" | "\<not> now < due" "d_ID dev \<notin> sc_inflight s" by blast
  then show ?thesis
  proof cases
    case 1
    with assms(1) False due have "s' = s\<lparr>sc_next := fmupd (d_ID dev) due (sc_next s), sc_pass := Some (now, min wake due, devs)\<rparr>"
      by (simp add: visit_def Let_def)
    with that(2) old show ?thesis by blast
  next
    case 2
    with assms(1) False due have "s' = s\<lparr>sc_next := fmupd (d_ID dev) (now + ?iv) (sc_next s), sc_pass := Some (now, min wake (now + ?iv), devs)\<rparr>"
      by (simp add: visit_def Let_def)
    moreover have "old \<le> now + ?iv" if "fmlookup (sc_next s) (d_ID dev) = Some old" for old
      using old [OF that] 2(1) iv by simp
    ultimately show ?thesis using that(2) by blast
  next
    case 3
    with assms(1) False due have "s' = s\<lparr>sc_next := fmupd (d_ID dev) (now + ?iv) (sc_next s), sc_pass := Some (now, min wake (now + ?iv), devs),
        sc_inflight := insert (d_ID dev) (sc_inflight s), sc_offer := Some dev\<rparr>"
      by (simp add: visit_def Let_def)
    moreover have "old \<le> now" if "fmlookup (sc_next s) (d_ID dev) = Some old" for old
      using old [OF that] 3(1) by simp
    ultimately show ?thesis using that(3) 3(2) by blast
  qed
qed

lemma sched_inv_visit:
  assumes "visit sc now wake dev devs s = Some s'" "0 \<le> sh_DefaultInterval sc" "sc_offer s = None" "sched_inv sc s"
  shows "sched_inv sc s'"
  using assms(1-3)
proof (cases rule: visit_effect)
  case 1
  with assms(3,4) show ?thesis by (auto simp: sched_inv_def occupied_def)
next
  case (2 due w)
  with assms(3,4) show ?thesis by (fastforce simp: sched_inv_def occupied_def)
next
  case (3 w)
  have due: "\<exists>d. fmlookup (sc_next s) i = Some d \<and> t + iv \<le> d" if "(i, t, iv) \<in> set (sc_started s)" for i t iv
    using that assms(4) by (auto simp: sched_inv_def)
  have early: "t + iv \<le> now" if "(d_ID dev, t, iv) \<in> set (sc_started s)" for t iv
    using due [OF that] 3(3) by fastforce
  have "\<exists>d. fmlookup (sc_next s') i = Some d \<and> t + iv \<le> d" if "(i, t, iv) \<in> set (sc_started s)" for i t iv
    using due [OF that] early [of t iv] that poll_interval_nonneg [OF assms(2), of dev] by (auto simp: 3(2))
  with 3 assms(3,4) early show ?thesis by (auto simp: sched_inv_def occupied_def)
qed

lemma sched_inv_step:
  assumes "sched_step sc s s'" "sched_inv sc s" "0 \<le> sh_DefaultInterval sc"
  shows "sched_inv sc s'"
  using assms(1)
proof cases
  case (fires now devices)
  with assms(2) show ?thesis by (auto simp: sched_inv_def occupied_def)
next
  case (visits now wake dev devs)
  then show ?thesis using sched_inv_visit assms(2,3) by blast
next
  case (hands_over now wake devs dev)
  with assms(2) show ?thesis by (fastforce simp: sched_inv_def occupied_def)
next
  case (finishes l dev r)
  with assms(2) show ?thesis
    by (cases "sc_offer s") (auto simp: sched_inv_def occupied_def, (metis imageI)+)
next
  case (sleeps now wake)
  with assms(2) show ?thesis by (auto simp: sched_inv_def occupied_def)
qed

lemma scheduled_inv: "scheduled sc s \<Longrightarrow> 0 \<le> sh_DefaultInterval sc \<Longrightarrow> sched_inv sc s"
  by (induction rule: scheduled.induct) (auto intro: sched_inv_start sched_inv_step)




section \<open>A run of the scheduler\<close>

definition ex_polled :: device where
  "ex_polled = \<lparr>d_ID = ''r1'', d_Hostname = ''r1'', d_ManagementAddress = ''10.0.0.1'', d_DeviceType = ''router'',
     d_Vendor = [], d_Model = [], d_SerialNumber = [], d_Site = [], d_Tags = [], d_Capabilities = [],
     d_CredentialsRef = [], d_Enabled = True, d_LastSeen = 0,
     d_Collection = \<lparr>c_Protocol = ''snmp'', c_Profile = [], c_Interval = 0\<rparr>, d_Attributes = fmempty\<rparr>"

definition ex_scheduler :: "unit scheduler" where
  "ex_scheduler = \<lparr>sh_Poll = (\<lambda>dev cycleID w. ((empty_result, Done ()), w)), sh_Sink = \<lparr>sk_Observations = (\<lambda>obs. return_tx ()), sk_Inventory = (\<lambda>f. return_tx ())\<rparr>,
     sh_Workers = 2, sh_DefaultInterval = 1, sh_Now = (\<lambda>w. (0, w)), sh_NewID = (\<lambda>w. (''c1'', w))\<rparr>"

lemma ex_interval: "poll_interval ex_scheduler ex_polled = 1"
  by (simp add: poll_interval_def ex_scheduler_def ex_polled_def)

text \<open>A pass over the one device that is due: it is offered, polled and released.\<close>

lemma ex_cycle:
  assumes "scheduled ex_scheduler s" "sc_pass s = None" "sc_offer s = None" "sc_polling s = []" "sc_inflight s = {}"
    and "sc_wake s \<le> now" "\<forall>due. fmlookup (sc_next s) ''r1'' = Some due \<longrightarrow> due \<le> now"
  shows "\<exists>s'. scheduled ex_scheduler s' \<and> sc_pass s' = None \<and> sc_offer s' = None \<and> sc_polling s' = [] \<and> sc_inflight s' = {}
    \<and> sc_started s' = (''r1'', now, 1) # sc_started s \<and> fmlookup (sc_next s') ''r1'' = Some (now + 1) \<and> sc_wake s' \<le> now + second"
proof -
  have id: "d_ID ex_polled = ''r1''" by (simp add: ex_polled_def)
  define a where "a = s\<lparr>sc_pass := Some (now, now + second, [ex_polled])\<rparr>"
  define b where "b = a\<lparr>sc_next := fmupd ''r1'' (now + 1) (sc_next a), sc_pass := Some (now, min (now + second) (now + 1), []),
    sc_inflight := insert ''r1'' (sc_inflight a), sc_offer := Some ex_polled\<rparr>"
  define c where "c = b\<lparr>sc_offer := None, sc_polling := [ex_polled], sc_started := (''r1'', now, 1) # sc_started s\<rparr>"
  define d where "d = c\<lparr>sc_polling := [], sc_inflight := {}\<rparr>"
  define e where "e = d\<lparr>sc_pass := None, sc_wake := max (min (now + second) (now + 1)) (now + 5 * millisecond)\<rparr>"
  have a: "scheduled ex_scheduler a" unfolding a_def by (rule scheduled.step [OF assms(1) sched_step.fires [OF assms(2,6)]])
  have v: "visit ex_scheduler now (now + second) ex_polled [] a = Some b"
    using assms(7) by (auto simp: visit_def Let_def ex_interval id a_def b_def offset_def assms(5) split: option.splits)
      (simp_all add: ex_polled_def fmupd_same)
  have "sc_pass a = Some (now, now + second, [ex_polled])" "sc_offer a = None" by (simp_all add: a_def assms(3))
  from scheduled.step [OF a sched_step.visits [OF this v]] have b: "scheduled ex_scheduler b" .
  have "sched_step ex_scheduler b (b\<lparr>sc_offer := None, sc_polling := ex_polled # sc_polling b,
      sc_started := (d_ID ex_polled, now, poll_interval ex_scheduler ex_polled) # sc_started b\<rparr>)"
    by (rule sched_step.hands_over) (simp_all add: b_def a_def assms(4) ex_scheduler_def)
  then have "sched_step ex_scheduler b c" by (simp add: c_def b_def a_def assms(4) id ex_interval)
  with b have c: "scheduled ex_scheduler c" by (rule scheduled.step)
  have "sched_step ex_scheduler c (c\<lparr>sc_polling := [] @ [], sc_inflight := sc_inflight c - {d_ID ex_polled}\<rparr>)"
    by (rule sched_step.finishes) (simp add: c_def)
  then have "sched_step ex_scheduler c d" by (simp add: d_def c_def b_def a_def assms(5) id)
  with c have d: "scheduled ex_scheduler d" by (rule scheduled.step)
  have "sched_step ex_scheduler d e" unfolding e_def by (rule sched_step.sleeps) (simp_all add: d_def c_def b_def)
  with d have "scheduled ex_scheduler e" by (rule scheduled.step)
  moreover have "sc_wake e \<le> now + second" by (simp add: e_def) (simp add: second_def millisecond_def)
  ultimately show ?thesis by (intro exI [of _ e]) (simp add: e_def d_def c_def b_def a_def assms)
qed


end
