(* ===== verification/Config.thy ===== *)
theory Config
  imports Adapters Go_Json
begin

text \<open>
  Package \<open>internal/config\<close>: the configuration and its defaults, environment overrides and validation.
  The YAML decoder is not part of the sources; it is a parameter that writes a file's settings over a
  configuration or fails. The walk over the struct by reflection runs over a description of the struct,
  \<open>config_type\<close>, with the key and the accessors of each field. Of the standard library, the readers of
  durations, booleans and integers are written out.
\<close>


section \<open>The configuration\<close>

record logging =
  lg_Level :: string
  lg_Format :: string

record snmp_config =
  sn_Workers :: int
  sn_Timeout :: duration
  sn_Retries :: int
  sn_DefaultInterval :: duration
  sn_ProfilesDir :: string
  sn_MaxRepetitions :: int

record processing =
  pc_Workers :: int
  pc_QueueSize :: int
  pc_MaxDeliver :: int
  pc_AckWait :: duration
  pc_RetryDelay :: duration
  pc_StaleAfter :: duration
  pc_SweepInterval :: duration
  pc_NormalizationFile :: string
  pc_StatesFile :: string
  pc_RulesFile :: string

record script_config =
  sx_Enabled :: bool
  sx_Directories :: "string list"
  sx_Workers :: int
  sx_QueueSize :: int
  sx_ExecutionTimeout :: duration
  sx_QuarantineAfter :: int
  sx_Endpoints :: "(string, endpoint) fmap"

record script_settings =
  ss_Enabled :: "bool option"
  ss_Config :: "(string, json) fmap"

definition IsEnabled :: "script_settings \<Rightarrow> bool" where
  "IsEnabled s \<longleftrightarrow> ss_Enabled s = None \<or> ss_Enabled s = Some True"

record automation_config =
  au_DefaultDryRun :: bool
  au_PoliciesFile :: string
  au_TickInterval :: duration
  au_Workers :: int

record api_config =
  ap_Listen :: string
  ap_DefaultPageSize :: int
  ap_MaxPageSize :: int
  ap_ApproversRef :: string

record database_config =
  db_URL :: string
  db_MaxConns :: int

record simulator_config =
  sm_BindHost :: string
  sm_Seed :: int

text \<open>The sections of a single setting are kept as that setting.\<close>

record config =
  cf_Logging :: logging
  cf_NATS_URL :: string
  cf_Database :: database_config
  cf_Inventory_File :: string
  cf_SNMP :: snmp_config
  cf_Processing :: processing
  cf_Scripting :: script_config
  cf_Automation :: automation_config
  cf_API :: api_config
  cf_Secrets_Dir :: string
  cf_Simulator :: simulator_config
  cf_Observability_Listen :: string
  cf_Scripts :: "(string, (string, script_settings) fmap) fmap"

definition Default :: config where
  "Default = \<lparr>
     cf_Logging = \<lparr>lg_Level = ''info'', lg_Format = ''json''\<rparr>,
     cf_NATS_URL = ''nats://127.0.0.1:4222'',
     cf_Database = \<lparr>db_URL = [], db_MaxConns = 8\<rparr>,
     cf_Inventory_File = ''configs/inventory.yaml'',
     cf_SNMP = \<lparr>sn_Workers = 20, sn_Timeout = 2 * second, sn_Retries = 2, sn_DefaultInterval = 30 * second,
       sn_ProfilesDir = ''configs/profiles'', sn_MaxRepetitions = 20\<rparr>,
     cf_Processing = \<lparr>pc_Workers = 8, pc_QueueSize = 64, pc_MaxDeliver = 5, pc_AckWait = 30 * second, pc_RetryDelay = 2 * second,
       pc_StaleAfter = 2 * minute, pc_SweepInterval = 30 * second, pc_NormalizationFile = ''configs/normalization.yaml'',
       pc_StatesFile = ''configs/states.yaml'', pc_RulesFile = ''configs/rules.yaml''\<rparr>,
     cf_Scripting = \<lparr>sx_Enabled = True, sx_Directories = [''./scripts''], sx_Workers = 4, sx_QueueSize = 128,
       sx_ExecutionTimeout = 250 * millisecond, sx_QuarantineAfter = 5, sx_Endpoints = fmempty\<rparr>,
     cf_Automation = \<lparr>au_DefaultDryRun = True, au_PoliciesFile = ''configs/automation.yaml'', au_TickInterval = 5 * second, au_Workers = 4\<rparr>,
     cf_API = \<lparr>ap_Listen = '':8080'', ap_DefaultPageSize = 50, ap_MaxPageSize = 500, ap_ApproversRef = []\<rparr>,
     cf_Secrets_Dir = ''secrets'',
     cf_Simulator = \<lparr>sm_BindHost = ''0.0.0.0'', sm_Seed = 1\<rparr>,
     cf_Observability_Listen = '':9090'',
     cf_Scripts = fmempty\<rparr>"


section \<open>Validation\<close>

definition require :: "bool \<Rightarrow> string \<Rightarrow> string list" where
  "require cond msg = (if cond then [] else [msg])"

definition config_problems :: "config \<Rightarrow> string list" where
  "config_problems c =
     (let s = cf_SNMP c; pr = cf_Processing c; sc = cf_Scripting c; a = cf_Automation c in
      require (lg_Level (cf_Logging c) \<in> {''debug'', ''info'', ''warn'', ''error''}) ''logging.level must be debug, info, warn or error''
      @ require (lg_Format (cf_Logging c) \<in> {''json'', ''text''}) ''logging.format must be json or text''
      @ require (has_prefix (cf_NATS_URL c) ''nats://'' \<or> has_prefix (cf_NATS_URL c) ''tls://'') ''nats.url must start with nats:// or tls://''
      @ require (0 < db_MaxConns (cf_Database c)) ''database.max_conns must be positive''
      @ require (0 < sn_Workers s) ''collectors.snmp.workers must be positive''
      @ require (0 < sn_Timeout s) ''collectors.snmp.timeout must be positive''
      @ require (0 \<le> sn_Retries s) ''collectors.snmp.retries must not be negative''
      @ require (0 < sn_DefaultInterval s) ''collectors.snmp.default_interval must be positive''
      @ require (0 < sn_MaxRepetitions s) ''collectors.snmp.max_repetitions must be positive''
      @ require (0 < pc_Workers pr) ''processing.workers must be positive''
      @ require (0 < pc_QueueSize pr) ''processing.queue_size must be positive''
      @ require (0 < pc_MaxDeliver pr) ''processing.max_deliver must be positive''
      @ require (0 < pc_AckWait pr) ''processing.ack_wait must be positive''
      @ require (0 < pc_RetryDelay pr) ''processing.retry_delay must be positive''
      @ require (0 < pc_StaleAfter pr) ''processing.stale_after must be positive''
      @ require (0 < pc_SweepInterval pr) ''processing.sweep_interval must be positive''
      @ require (0 < sx_Workers sc) ''scripting.workers must be positive''
      @ require (0 < sx_QueueSize sc) ''scripting.queue_size must be positive''
      @ require (0 < sx_ExecutionTimeout sc) ''scripting.execution_timeout must be positive''
      @ require (sx_ExecutionTimeout sc \<le> 10 * second) ''scripting.execution_timeout above 10s defeats the purpose of a deadline''
      @ require (0 < sx_QuarantineAfter sc) ''scripting.quarantine_after must be positive''
      @ concat (map (\<lambda>(name, ep). require (en_URLRef ep \<noteq> []) (''scripting.endpoints.'' @ name @ ''.url_ref is required''))
          (fm_items (sx_Endpoints sc)))
      @ require (0 < au_TickInterval a) ''automation.tick_interval must be positive''
      @ require (0 < au_Workers a) ''automation.workers must be positive''
      @ require (0 < ap_DefaultPageSize (cf_API c) \<and> ap_DefaultPageSize (cf_API c) \<le> ap_MaxPageSize (cf_API c))
          ''api page sizes must satisfy 0 < default_page_size <= max_page_size'')"

definition Config_Validate :: "config \<Rightarrow> goerr option" where
  "Config_Validate c =
     (let p = config_problems c
      in if p = [] then None
         else Some (EPlain (''invalid configuration:'' @ [CHR 0x0A] @ ''  - '' @ join_sep ([CHR 0x0A] @ ''  - '') p)))"

definition RequireDatabase :: "config \<Rightarrow> goerr option" where
  "RequireDatabase c =
     (if db_URL (cf_Database c) = [] then Some (EPlain ''database.url is required (set it in the config file or INFRA_OBSERVER_DATABASE_URL)'')
      else None)"


section \<open>Reading scalars (strconv, time)\<close>

definition ParseInt :: "string \<Rightarrow> int option" where
  "ParseInt s =
     (let neg = (s \<noteq> [] \<and> hd s = CHR ''-''); ds = (if s \<noteq> [] \<and> hd s \<in> {CHR ''-'', CHR ''+''} then tl s else s);
          n = (if neg then - decimal ds else decimal ds)
      in if ds = [] \<or> \<not> list_all is_digit ds \<or> n < - (2 ^ 63) \<or> 2 ^ 63 \<le> n then None else Some n)"

definition ParseBool :: "string \<Rightarrow> bool option" where
  "ParseBool s =
     (if s \<in> {''1'', ''t'', ''T'', ''true'', ''TRUE'', ''True''} then Some True
      else if s \<in> {''0'', ''f'', ''F'', ''false'', ''FALSE'', ''False''} then Some False else None)"

text \<open>The units of \<open>time.ParseDuration\<close>; the micro sign is spelled in UTF-8, as either of two characters.\<close>

definition unitMap :: "(string \<times> int) list" where
  "unitMap = [(''ns'', 1), (''us'', 1000), ([CHR 0xC2, CHR 0xB5, CHR ''s''], 1000), ([CHR 0xCE, CHR 0xBC, CHR ''s''], 1000),
     (''ms'', millisecond), (''s'', second), (''m'', minute), (''h'', hour)]"

definition leadingInt :: "string \<Rightarrow> (int \<times> string) option" where
  "leadingInt s = (let ds = takeWhile is_digit s in if 2 ^ 63 < decimal ds then None else Some (decimal ds, drop (length ds) s))"

text \<open>
  The digits of a fraction that fit; the others are read and ignored. The scale is ten to the number
  of digits used.
\<close>

fun fraction_digits :: "string \<Rightarrow> int \<Rightarrow> int \<Rightarrow> int \<times> int" where
  "fraction_digits [] x scale = (x, scale)"
| "fraction_digits (c # cs) x scale =
     (if (2 ^ 63 - 1) div 10 < x \<or> 2 ^ 63 < x * 10 + digit_value c then (x, scale)
      else fraction_digits cs (x * 10 + digit_value c) (scale * 10))"

definition leadingFraction :: "string \<Rightarrow> int \<times> int \<times> string" where
  "leadingFraction s = (let ds = takeWhile is_digit s; (f, scale) = fraction_digits ds 0 1 in (f, scale, drop (length ds) s))"

definition fraction_nanoseconds :: "int \<Rightarrow> int \<Rightarrow> int \<Rightarrow> int" where
  "fraction_nanoseconds f scale unit =
     (case f64_mul (f64_of_int f) (f64_div_rat (f64_of_int unit) (of_int scale)) of F_Fin r \<Rightarrow> \<lfloor>r\<rfloor> | _ \<Rightarrow> 0)"

text \<open>One number with its unit, added to the total so far, an unsigned 64-bit sum.\<close>

definition duration_term :: "string \<Rightarrow> int \<Rightarrow> (int \<times> string) option" where
  "duration_term s d =
     (if \<not> (s \<noteq> [] \<and> (hd s = CHR ''.'' \<or> is_digit (hd s))) then None
      else Option.bind (leadingInt s) (\<lambda>(v, s1).
        let (f, scale, s2) = (if s1 \<noteq> [] \<and> hd s1 = CHR ''.'' then leadingFraction (tl s1) else (0, 1, s1));
            pre = (length s1 \<noteq> length s); post = (s1 \<noteq> [] \<and> hd s1 = CHR ''.'' \<and> length s2 \<noteq> length (tl s1));
            u = takeWhile (\<lambda>c. c \<noteq> CHR ''.'' \<and> \<not> is_digit c) s2
        in if \<not> pre \<and> \<not> post \<or> u = [] then None
           else Option.bind (map_of unitMap u) (\<lambda>unit.
             if 2 ^ 63 div unit < v then None
             else let v' = v * unit + (if 0 < f then fraction_nanoseconds f scale unit else 0);
                      d' = (d + v') mod 2 ^ 64
                  in if 2 ^ 63 < v' \<or> 2 ^ 63 < d' then None else Some (d', drop (length u) s2))))"

lemma duration_term_shorter: "duration_term s d = Some (d', s') \<Longrightarrow> length s' < length s"
  by (auto simp: duration_term_def leadingInt_def leadingFraction_def Let_def split: if_splits prod.splits option.splits bind_splits)

function duration_terms :: "string \<Rightarrow> int \<Rightarrow> int option" where
  "duration_terms s d =
     (if s = [] then Some d else case duration_term s d of None \<Rightarrow> None | Some (d', s') \<Rightarrow> duration_terms s' d')"
  by pat_completeness auto
termination
  by (relation "measure (\<lambda>(s, d). length s)") (auto dest: duration_term_shorter)

declare duration_terms.simps [simp del]

definition ParseDuration :: "string \<Rightarrow> duration option" where
  "ParseDuration s =
     (let neg = (s \<noteq> [] \<and> hd s = CHR ''-''); u = (if s \<noteq> [] \<and> hd s \<in> {CHR ''-'', CHR ''+''} then tl s else s)
      in if u = ''0'' then Some 0
         else if u = [] then None
         else Option.bind (duration_terms u 0) (\<lambda>d. if neg then Some (- d) else if 2 ^ 63 - 1 < d then None else Some d))"



section \<open>Environment overrides (applyEnv, setScalar)\<close>

text \<open>The value of a field, by the kind reflection sees; \<open>CMap\<close> is any structured value.\<close>

datatype cval = CDuration duration | CString string | CBool bool | CInt int | CStrings "string list" | CMap

datatype 'c cfield = Scalar string "'c \<Rightarrow> cval" "cval \<Rightarrow> 'c \<Rightarrow> 'c" | Section string "'c cfield list"

fun split_commas :: "string \<Rightarrow> string list" where
  "split_commas [] = [[]]"
| "split_commas (c # cs) =
     (if c = CHR '','' then [] # split_commas cs else case split_commas cs of [] \<Rightarrow> [[c]] | p # ps \<Rightarrow> (c # p) # ps)"

definition setScalar :: "cval \<Rightarrow> string \<Rightarrow> cval option" where
  "setScalar v raw =
     (case v of
        CDuration _ \<Rightarrow> map_option CDuration (ParseDuration raw)
      | CString _ \<Rightarrow> Some (CString raw)
      | CBool _ \<Rightarrow> map_option CBool (ParseBool raw)
      | CInt _ \<Rightarrow> map_option CInt (ParseInt raw)
      | CStrings _ \<Rightarrow> Some (CStrings (map trim_space (split_commas raw)))
      | CMap \<Rightarrow> Some CMap)"

definition env_key :: "string \<Rightarrow> string \<Rightarrow> string" where
  "env_key prefix key = prefix @ ''_'' @ map (\<lambda>c. to_upper_char (if c = CHR ''-'' then CHR ''_'' else c)) key"

type_synonym env = "string \<Rightarrow> string option"

text \<open>The walk over the fields of a struct, in order; the first value that cannot be read ends it.\<close>

fun applyEnv :: "'c cfield list \<Rightarrow> string \<Rightarrow> env \<Rightarrow> 'c \<Rightarrow> goerr + 'c"
  and apply_field :: "'c cfield \<Rightarrow> string \<Rightarrow> env \<Rightarrow> 'c \<Rightarrow> goerr + 'c" where
  "applyEnv [] prefix lookup c = Inr c"
| "applyEnv (f # fs) prefix lookup c = bind_res (apply_field f prefix lookup c) (applyEnv fs prefix lookup)"
| "apply_field (Section key fs) prefix lookup c = applyEnv fs (env_key prefix key) lookup c"
| "apply_field (Scalar key get upd) prefix lookup c =
     (case lookup (env_key prefix key) of
        None \<Rightarrow> Inr c
      | Some raw \<Rightarrow>
          (case setScalar (get c) raw of
             None \<Rightarrow> Inl (EPlain (''environment '' @ env_key prefix key @ '': invalid value''))
           | Some v \<Rightarrow> Inr (upd v c)))"

text \<open>Setting a field of a kind, and the field as a part of a part.\<close>

fun to_duration :: "cval \<Rightarrow> duration" where "to_duration (CDuration d) = d" | "to_duration _ = 0"
fun to_string :: "cval \<Rightarrow> string" where "to_string (CString x) = x" | "to_string _ = []"
fun to_bool :: "cval \<Rightarrow> bool" where "to_bool (CBool b) = b" | "to_bool _ = False"
fun to_int :: "cval \<Rightarrow> int" where "to_int (CInt i) = i" | "to_int _ = 0"
fun to_strings :: "cval \<Rightarrow> string list" where "to_strings (CStrings xs) = xs" | "to_strings _ = []"

abbreviation dur_at :: "string \<Rightarrow> ('c \<Rightarrow> duration) \<Rightarrow> (duration \<Rightarrow> 'c \<Rightarrow> 'c) \<Rightarrow> 'c cfield" where
  "dur_at key get upd \<equiv> Scalar key (\<lambda>c. CDuration (get c)) (\<lambda>v. upd (to_duration v))"
abbreviation str_at_key :: "string \<Rightarrow> ('c \<Rightarrow> string) \<Rightarrow> (string \<Rightarrow> 'c \<Rightarrow> 'c) \<Rightarrow> 'c cfield" where
  "str_at_key key get upd \<equiv> Scalar key (\<lambda>c. CString (get c)) (\<lambda>v. upd (to_string v))"
abbreviation bool_at :: "string \<Rightarrow> ('c \<Rightarrow> bool) \<Rightarrow> (bool \<Rightarrow> 'c \<Rightarrow> 'c) \<Rightarrow> 'c cfield" where
  "bool_at key get upd \<equiv> Scalar key (\<lambda>c. CBool (get c)) (\<lambda>v. upd (to_bool v))"
abbreviation int_at :: "string \<Rightarrow> ('c \<Rightarrow> int) \<Rightarrow> (int \<Rightarrow> 'c \<Rightarrow> 'c) \<Rightarrow> 'c cfield" where
  "int_at key get upd \<equiv> Scalar key (\<lambda>c. CInt (get c)) (\<lambda>v. upd (to_int v))"
abbreviation map_at :: "string \<Rightarrow> 'c cfield" where
  "map_at key \<equiv> Scalar key (\<lambda>c. CMap) (\<lambda>v c. c)"

definition logging_type :: "config cfield list" where
  "logging_type =
     [str_at_key ''level'' (\<lambda>c. lg_Level (cf_Logging c)) (\<lambda>v c. c\<lparr>cf_Logging := (cf_Logging c)\<lparr>lg_Level := v\<rparr>\<rparr>),
      str_at_key ''format'' (\<lambda>c. lg_Format (cf_Logging c)) (\<lambda>v c. c\<lparr>cf_Logging := (cf_Logging c)\<lparr>lg_Format := v\<rparr>\<rparr>)]"

definition snmp_type :: "config cfield list" where
  "snmp_type =
     [int_at ''workers'' (\<lambda>c. sn_Workers (cf_SNMP c)) (\<lambda>v c. c\<lparr>cf_SNMP := (cf_SNMP c)\<lparr>sn_Workers := v\<rparr>\<rparr>),
      dur_at ''timeout'' (\<lambda>c. sn_Timeout (cf_SNMP c)) (\<lambda>v c. c\<lparr>cf_SNMP := (cf_SNMP c)\<lparr>sn_Timeout := v\<rparr>\<rparr>),
      int_at ''retries'' (\<lambda>c. sn_Retries (cf_SNMP c)) (\<lambda>v c. c\<lparr>cf_SNMP := (cf_SNMP c)\<lparr>sn_Retries := v\<rparr>\<rparr>),
      dur_at ''default_interval'' (\<lambda>c. sn_DefaultInterval (cf_SNMP c)) (\<lambda>v c. c\<lparr>cf_SNMP := (cf_SNMP c)\<lparr>sn_DefaultInterval := v\<rparr>\<rparr>),
      str_at_key ''profiles_dir'' (\<lambda>c. sn_ProfilesDir (cf_SNMP c)) (\<lambda>v c. c\<lparr>cf_SNMP := (cf_SNMP c)\<lparr>sn_ProfilesDir := v\<rparr>\<rparr>),
      int_at ''max_repetitions'' (\<lambda>c. sn_MaxRepetitions (cf_SNMP c)) (\<lambda>v c. c\<lparr>cf_SNMP := (cf_SNMP c)\<lparr>sn_MaxRepetitions := v\<rparr>\<rparr>)]"

definition processing_type :: "config cfield list" where
  "processing_type =
     [int_at ''workers'' (\<lambda>c. pc_Workers (cf_Processing c)) (\<lambda>v c. c\<lparr>cf_Processing := (cf_Processing c)\<lparr>pc_Workers := v\<rparr>\<rparr>),
      int_at ''queue_size'' (\<lambda>c. pc_QueueSize (cf_Processing c)) (\<lambda>v c. c\<lparr>cf_Processing := (cf_Processing c)\<lparr>pc_QueueSize := v\<rparr>\<rparr>),
      int_at ''max_deliver'' (\<lambda>c. pc_MaxDeliver (cf_Processing c)) (\<lambda>v c. c\<lparr>cf_Processing := (cf_Processing c)\<lparr>pc_MaxDeliver := v\<rparr>\<rparr>),
      dur_at ''ack_wait'' (\<lambda>c. pc_AckWait (cf_Processing c)) (\<lambda>v c. c\<lparr>cf_Processing := (cf_Processing c)\<lparr>pc_AckWait := v\<rparr>\<rparr>),
      dur_at ''retry_delay'' (\<lambda>c. pc_RetryDelay (cf_Processing c)) (\<lambda>v c. c\<lparr>cf_Processing := (cf_Processing c)\<lparr>pc_RetryDelay := v\<rparr>\<rparr>),
      dur_at ''stale_after'' (\<lambda>c. pc_StaleAfter (cf_Processing c)) (\<lambda>v c. c\<lparr>cf_Processing := (cf_Processing c)\<lparr>pc_StaleAfter := v\<rparr>\<rparr>),
      dur_at ''sweep_interval'' (\<lambda>c. pc_SweepInterval (cf_Processing c)) (\<lambda>v c. c\<lparr>cf_Processing := (cf_Processing c)\<lparr>pc_SweepInterval := v\<rparr>\<rparr>),
      str_at_key ''normalization_file'' (\<lambda>c. pc_NormalizationFile (cf_Processing c))
        (\<lambda>v c. c\<lparr>cf_Processing := (cf_Processing c)\<lparr>pc_NormalizationFile := v\<rparr>\<rparr>),
      str_at_key ''states_file'' (\<lambda>c. pc_StatesFile (cf_Processing c)) (\<lambda>v c. c\<lparr>cf_Processing := (cf_Processing c)\<lparr>pc_StatesFile := v\<rparr>\<rparr>),
      str_at_key ''rules_file'' (\<lambda>c. pc_RulesFile (cf_Processing c)) (\<lambda>v c. c\<lparr>cf_Processing := (cf_Processing c)\<lparr>pc_RulesFile := v\<rparr>\<rparr>)]"

definition scripting_type :: "config cfield list" where
  "scripting_type =
     [bool_at ''enabled'' (\<lambda>c. sx_Enabled (cf_Scripting c)) (\<lambda>v c. c\<lparr>cf_Scripting := (cf_Scripting c)\<lparr>sx_Enabled := v\<rparr>\<rparr>),
      Scalar ''directories'' (\<lambda>c. CStrings (sx_Directories (cf_Scripting c)))
        (\<lambda>v c. c\<lparr>cf_Scripting := (cf_Scripting c)\<lparr>sx_Directories := to_strings v\<rparr>\<rparr>),
      int_at ''workers'' (\<lambda>c. sx_Workers (cf_Scripting c)) (\<lambda>v c. c\<lparr>cf_Scripting := (cf_Scripting c)\<lparr>sx_Workers := v\<rparr>\<rparr>),
      int_at ''queue_size'' (\<lambda>c. sx_QueueSize (cf_Scripting c)) (\<lambda>v c. c\<lparr>cf_Scripting := (cf_Scripting c)\<lparr>sx_QueueSize := v\<rparr>\<rparr>),
      dur_at ''execution_timeout'' (\<lambda>c. sx_ExecutionTimeout (cf_Scripting c))
        (\<lambda>v c. c\<lparr>cf_Scripting := (cf_Scripting c)\<lparr>sx_ExecutionTimeout := v\<rparr>\<rparr>),
      int_at ''quarantine_after'' (\<lambda>c. sx_QuarantineAfter (cf_Scripting c))
        (\<lambda>v c. c\<lparr>cf_Scripting := (cf_Scripting c)\<lparr>sx_QuarantineAfter := v\<rparr>\<rparr>),
      map_at ''endpoints'']"

definition automation_type :: "config cfield list" where
  "automation_type =
     [bool_at ''default_dry_run'' (\<lambda>c. au_DefaultDryRun (cf_Automation c)) (\<lambda>v c. c\<lparr>cf_Automation := (cf_Automation c)\<lparr>au_DefaultDryRun := v\<rparr>\<rparr>),
      str_at_key ''policies_file'' (\<lambda>c. au_PoliciesFile (cf_Automation c)) (\<lambda>v c. c\<lparr>cf_Automation := (cf_Automation c)\<lparr>au_PoliciesFile := v\<rparr>\<rparr>),
      dur_at ''tick_interval'' (\<lambda>c. au_TickInterval (cf_Automation c)) (\<lambda>v c. c\<lparr>cf_Automation := (cf_Automation c)\<lparr>au_TickInterval := v\<rparr>\<rparr>),
      int_at ''workers'' (\<lambda>c. au_Workers (cf_Automation c)) (\<lambda>v c. c\<lparr>cf_Automation := (cf_Automation c)\<lparr>au_Workers := v\<rparr>\<rparr>)]"

definition api_type :: "config cfield list" where
  "api_type =
     [str_at_key ''listen'' (\<lambda>c. ap_Listen (cf_API c)) (\<lambda>v c. c\<lparr>cf_API := (cf_API c)\<lparr>ap_Listen := v\<rparr>\<rparr>),
      int_at ''default_page_size'' (\<lambda>c. ap_DefaultPageSize (cf_API c)) (\<lambda>v c. c\<lparr>cf_API := (cf_API c)\<lparr>ap_DefaultPageSize := v\<rparr>\<rparr>),
      int_at ''max_page_size'' (\<lambda>c. ap_MaxPageSize (cf_API c)) (\<lambda>v c. c\<lparr>cf_API := (cf_API c)\<lparr>ap_MaxPageSize := v\<rparr>\<rparr>),
      str_at_key ''approvers_ref'' (\<lambda>c. ap_ApproversRef (cf_API c)) (\<lambda>v c. c\<lparr>cf_API := (cf_API c)\<lparr>ap_ApproversRef := v\<rparr>\<rparr>)]"

definition config_type :: "config cfield list" where
  "config_type =
     [Section ''logging'' logging_type,
      Section ''nats'' [str_at_key ''url'' cf_NATS_URL (\<lambda>v c. c\<lparr>cf_NATS_URL := v\<rparr>)],
      Section ''database''
        [str_at_key ''url'' (\<lambda>c. db_URL (cf_Database c)) (\<lambda>v c. c\<lparr>cf_Database := (cf_Database c)\<lparr>db_URL := v\<rparr>\<rparr>),
         int_at ''max_conns'' (\<lambda>c. db_MaxConns (cf_Database c)) (\<lambda>v c. c\<lparr>cf_Database := (cf_Database c)\<lparr>db_MaxConns := v\<rparr>\<rparr>)],
      Section ''inventory'' [str_at_key ''file'' cf_Inventory_File (\<lambda>v c. c\<lparr>cf_Inventory_File := v\<rparr>)],
      Section ''collectors'' [Section ''snmp'' snmp_type],
      Section ''processing'' processing_type,
      Section ''scripting'' scripting_type,
      Section ''automation'' automation_type,
      Section ''api'' api_type,
      Section ''secrets'' [str_at_key ''dir'' cf_Secrets_Dir (\<lambda>v c. c\<lparr>cf_Secrets_Dir := v\<rparr>)],
      Section ''simulator''
        [str_at_key ''bind_host'' (\<lambda>c. sm_BindHost (cf_Simulator c)) (\<lambda>v c. c\<lparr>cf_Simulator := (cf_Simulator c)\<lparr>sm_BindHost := v\<rparr>\<rparr>),
         int_at ''seed'' (\<lambda>c. sm_Seed (cf_Simulator c)) (\<lambda>v c. c\<lparr>cf_Simulator := (cf_Simulator c)\<lparr>sm_Seed := v\<rparr>\<rparr>)],
      Section ''observability'' [str_at_key ''listen'' cf_Observability_Listen (\<lambda>v c. c\<lparr>cf_Observability_Listen := v\<rparr>)],
      map_at ''scripts'']"

definition EnvPrefix :: string where "EnvPrefix = ''INFRA_OBSERVER''"

text \<open>
  \<open>path\<close> is the configuration file, if one is named, with its content or the error of reading it; the
  decoder writes it over the configuration it is given.
\<close>

definition load :: "(string \<Rightarrow> config \<Rightarrow> goerr + config) \<Rightarrow> (string \<times> (goerr + string)) option \<Rightarrow> env \<Rightarrow> goerr + config" where
  "load yaml path lookup =
     bind_res (case path of
                 None \<Rightarrow> Inr Default
               | Some (name, Inl e) \<Rightarrow> Inl (EWrap ''read config: '' e)
               | Some (name, Inr raw) \<Rightarrow>
                   (case yaml raw Default of Inl e \<Rightarrow> Inl (EWrap (''parse config '' @ name @ '': '') e) | Inr c \<Rightarrow> Inr c)) (\<lambda>cfg.
     bind_res (applyEnv config_type EnvPrefix lookup cfg) (\<lambda>c.
     case Config_Validate c of None \<Rightarrow> Inr c | Some e \<Rightarrow> Inl e))"



section \<open>What the environment sets\<close>

type_synonym 'c leaf = "string \<times> ('c \<Rightarrow> cval) \<times> (cval \<Rightarrow> 'c \<Rightarrow> 'c)"

fun leaves :: "string \<Rightarrow> 'c cfield list \<Rightarrow> 'c leaf list" and field_leaves :: "string \<Rightarrow> 'c cfield \<Rightarrow> 'c leaf list" where
  "leaves prefix [] = []"
| "leaves prefix (f # fs) = field_leaves prefix f @ leaves prefix fs"
| "field_leaves prefix (Section key fs) = leaves (env_key prefix key) fs"
| "field_leaves prefix (Scalar key get upd) = [(env_key prefix key, get, upd)]"

fun apply_leaves :: "'c leaf list \<Rightarrow> env \<Rightarrow> 'c \<Rightarrow> goerr + 'c" where
  "apply_leaves [] lookup c = Inr c"
| "apply_leaves ((name, get, upd) # ls) lookup c =
     bind_res (case lookup name of
         None \<Rightarrow> Inr c
       | Some raw \<Rightarrow> (case setScalar (get c) raw of
             None \<Rightarrow> Inl (EPlain (''environment '' @ name @ '': invalid value'')) | Some v \<Rightarrow> Inr (upd v c)))
       (apply_leaves ls lookup)"

lemma apply_leaves_append: "apply_leaves (ls @ ls') lookup c = bind_res (apply_leaves ls lookup c) (apply_leaves ls' lookup)"
  by (induction ls lookup c rule: apply_leaves.induct) (auto simp: bind_res_def split: sum.splits option.splits)

lemma applyEnv_leaves:
  "applyEnv fs prefix lookup c = apply_leaves (leaves prefix fs) lookup c"
  "apply_field f prefix lookup c = apply_leaves (field_leaves prefix f) lookup c"
proof (induction fs prefix lookup c and f prefix lookup c rule: applyEnv_apply_field.induct)
  case (2 f fs prefix lookup c)
  then show ?case by (auto simp: apply_leaves_append bind_res_def split: sum.splits)
qed (auto simp: bind_res_def split: option.splits)

text \<open>
  Fields that can be told apart: setting one, to a value of its kind, gives that value and leaves the
  others and every kind as they are.
\<close>

fun same_kind :: "cval \<Rightarrow> cval \<Rightarrow> bool" where
  "same_kind (CDuration _) (CDuration _) = True"
| "same_kind (CString _) (CString _) = True"
| "same_kind (CBool _) (CBool _) = True"
| "same_kind (CInt _) (CInt _) = True"
| "same_kind (CStrings _) (CStrings _) = True"
| "same_kind CMap CMap = True"
| "same_kind _ _ = False"

definition apart :: "'c leaf \<Rightarrow> 'c leaf \<Rightarrow> bool" where
  "apart l l' \<longleftrightarrow> (\<forall>v c. fst (snd l) (snd (snd l') v c) = fst (snd l) c)"

definition faithful :: "'c leaf \<Rightarrow> bool" where
  "faithful l \<longleftrightarrow> (\<forall>v c. same_kind (fst (snd l) c) v \<longrightarrow> fst (snd l) (snd (snd l) v c) = v)"

lemma setScalar_kind: "setScalar v raw = Some v' \<Longrightarrow> same_kind v v'"
  by (cases v) (auto simp: setScalar_def)

lemma setScalar_kind_only: "same_kind v w \<Longrightarrow> setScalar v = setScalar w"
  by (cases v; cases w) (auto simp: setScalar_def fun_eq_iff)

lemma apply_leaves_other:
  assumes "apply_leaves ls lookup c = Inr c'" "\<forall>l' \<in> set ls. apart l l'"
  shows "fst (snd l) c' = fst (snd l) c"
  using assms
proof (induction ls lookup c rule: apply_leaves.induct)
  case (2 name get upd ls lookup c)
  then show ?case by (auto simp: bind_res_def apart_def split: sum.splits option.splits)
qed simp

lemma apply_leaves_spec:
  assumes "apply_leaves ls lookup c = Inr c'" "l \<in> set ls" "list_all faithful ls" "sorted_wrt (\<lambda>l l'. apart l l' \<and> apart l' l) ls"
  shows "case lookup (fst l) of None \<Rightarrow> fst (snd l) c' = fst (snd l) c
    | Some raw \<Rightarrow> setScalar (fst (snd l) c) raw = Some (fst (snd l) c')"
  using assms
proof (induction ls lookup c rule: apply_leaves.induct)
  case (2 name get upd ls lookup c)
  obtain d where d: "(case lookup name of None \<Rightarrow> Inr c
      | Some raw \<Rightarrow> (case setScalar (get c) raw of None \<Rightarrow> Inl (EPlain (''environment '' @ name @ '': invalid value'')) | Some v \<Rightarrow> Inr (upd v c))) = Inr d"
    and rest: "apply_leaves ls lookup d = Inr c'"
    using 2(2) by (auto simp: bind_res_def split: sum.splits)
  show ?case
  proof (cases "l = (name, get, upd)")
    case True
    have "\<forall>l' \<in> set ls. apart l l'" using 2(5) True by auto
    then have "get c' = get d" using apply_leaves_other [OF rest, of l] True by simp
    moreover have "faithful l" using 2(4) True by simp
    ultimately show ?thesis using d True by (auto simp: faithful_def dest: setScalar_kind split: option.splits)
  next
    case False
    then have l: "l \<in> set ls" using 2(3) by simp
    have "apart l (name, get, upd)" using 2(5) l by auto
    then have "fst (snd l) d = fst (snd l) c" using d by (auto simp: apart_def split: option.splits)
    with 2(1) [OF rest l] 2(4,5) show ?thesis by (auto split: option.splits)
  qed
qed simp


definition config_leaves :: "config leaf list" where
  "config_leaves = leaves EnvPrefix config_type"

lemmas config_types = config_type_def logging_type_def snmp_type_def processing_type_def scripting_type_def automation_type_def api_type_def

lemma config_leaves_names: "distinct (map fst config_leaves)"
  by code_simp

lemma kind_to:
  "same_kind (CDuration d) v \<Longrightarrow> CDuration (to_duration v) = v" "same_kind (CString x) v \<Longrightarrow> CString (to_string v) = v"
  "same_kind (CBool b) v \<Longrightarrow> CBool (to_bool v) = v" "same_kind (CInt i) v \<Longrightarrow> CInt (to_int v) = v"
  "same_kind (CStrings xs) v \<Longrightarrow> CStrings (to_strings v) = v" "same_kind CMap v \<Longrightarrow> CMap = v"
  by (cases v; simp)+

lemma config_leaves_faithful: "list_all faithful config_leaves"
  by (simp add: config_leaves_def config_types faithful_def kind_to)

lemma config_leaves_apart: "sorted_wrt (\<lambda>l l'. apart l l' \<and> apart l' l) config_leaves"
  by (simp add: config_leaves_def config_types apart_def)

lemma config_env:
  assumes "applyEnv config_type EnvPrefix lookup cfg = Inr c" "(name, get, upd) \<in> set config_leaves"
  shows "case lookup name of None \<Rightarrow> get c = get cfg | Some raw \<Rightarrow> setScalar (get cfg) raw = Some (get c)"
proof -
  have "apply_leaves config_leaves lookup cfg = Inr c" using assms(1) by (simp add: applyEnv_leaves config_leaves_def)
  from apply_leaves_spec [OF this assms(2) config_leaves_faithful config_leaves_apart] show ?thesis by (simp split: option.splits)
qed

text \<open>
  (C36) Each setting comes from the environment where its variable is set, read by the type of the
  setting, and otherwise from the file or the default; no two settings have the same variable, and what
  is loaded is valid.
\<close>

theorem environment_overrides:
  assumes "load yaml path lookup = Inr c"
  shows "\<exists>cfg. (case path of None \<Rightarrow> cfg = Default | Some (name, raw) \<Rightarrow> \<exists>text. raw = Inr text \<and> yaml text Default = Inr cfg)
    \<and> config_problems c = [] \<and> distinct (map fst (leaves EnvPrefix config_type))
    \<and> (\<forall>(name, get, upd) \<in> set (leaves EnvPrefix config_type).
         case lookup name of None \<Rightarrow> get c = get cfg | Some raw \<Rightarrow> setScalar (get cfg) raw = Some (get c))"
proof -
  obtain cfg where cfg: "case path of None \<Rightarrow> cfg = Default | Some (name, raw) \<Rightarrow> \<exists>text. raw = Inr text \<and> yaml text Default = Inr cfg"
    and env: "applyEnv config_type EnvPrefix lookup cfg = Inr c" and ok: "config_problems c = []"
    using assms by (auto simp: load_def bind_res_def Config_Validate_def Let_def split: option.splits sum.splits if_splits)
  with config_env [OF env] cfg ok config_leaves_names show ?thesis by (auto simp: config_leaves_def)
qed

text \<open>Automation is in dry-run mode unless the file or the environment says otherwise.\<close>

lemma dry_by_default:
  assumes "load yaml path lookup = Inr c" "lookup ''INFRA_OBSERVER_AUTOMATION_DEFAULT_DRY_RUN'' = None"
    and "\<forall>name text cfg. path = Some (name, Inr text) \<longrightarrow> yaml text Default = Inr cfg \<longrightarrow> au_DefaultDryRun (cf_Automation cfg)"
  shows "au_DefaultDryRun (cf_Automation c)"
proof -
  obtain cfg where cfg: "case path of None \<Rightarrow> cfg = Default | Some (name, raw) \<Rightarrow> \<exists>text. raw = Inr text \<and> yaml text Default = Inr cfg"
    and env: "applyEnv config_type EnvPrefix lookup cfg = Inr c"
    using assms(1) by (auto simp: load_def bind_res_def split: option.splits sum.splits)
  let ?l = "(''INFRA_OBSERVER_AUTOMATION_DEFAULT_DRY_RUN'', \<lambda>c. CBool (au_DefaultDryRun (cf_Automation c)),
    \<lambda>v c. c\<lparr>cf_Automation := (cf_Automation c)\<lparr>au_DefaultDryRun := to_bool v\<rparr>\<rparr>)"
  have "env_key (env_key EnvPrefix ''automation'') ''default_dry_run'' = ''INFRA_OBSERVER_AUTOMATION_DEFAULT_DRY_RUN''" by code_simp
  then have "?l \<in> set config_leaves" by (simp add: config_leaves_def config_types)
  from config_env [OF env this] assms(2) have "au_DefaultDryRun (cf_Automation c) = au_DefaultDryRun (cf_Automation cfg)" by simp
  with cfg assms(3) show ?thesis by (auto simp: Default_def split: option.splits)
qed


section \<open>Witness\<close>

definition ex_env :: env where
  "ex_env = map_of [(''INFRA_OBSERVER_PROCESSING_RETRY_DELAY'', ''1m1.5s''), (''INFRA_OBSERVER_SCRIPTING_DIRECTORIES'', ''a, b''),
     (''INFRA_OBSERVER_API_MAX_PAGE_SIZE'', ''+600'')]"

lemma ex_env_loads:
  "\<exists>c. load (\<lambda>text c. Inr c) None ex_env = Inr c \<and> pc_RetryDelay (cf_Processing c) = 61500 * millisecond
    \<and> sx_Directories (cf_Scripting c) = [''a'', ''b''] \<and> ap_MaxPageSize (cf_API c) = 600"
proof -
  have "case load (\<lambda>text c. Inr c) None ex_env of Inl e \<Rightarrow> False
    | Inr c \<Rightarrow> pc_RetryDelay (cf_Processing c) = 61500 * millisecond \<and> sx_Directories (cf_Scripting c) = [''a'', ''b'']
        \<and> ap_MaxPageSize (cf_API c) = 600"
    by code_simp
  then show ?thesis by (auto split: sum.splits)
qed

theorem environment_overrides_witness:
  "\<exists>c. load (\<lambda>text c. Inr c) None ex_env = Inr c \<and> pc_RetryDelay (cf_Processing c) = 61500 * millisecond
    \<and> setScalar (CDuration (pc_RetryDelay (cf_Processing Default))) ''1m1.5s'' = Some (CDuration (pc_RetryDelay (cf_Processing c)))"
proof -
  obtain c where c: "load (\<lambda>text c. Inr c) None ex_env = Inr c" "pc_RetryDelay (cf_Processing c) = 61500 * millisecond"
    using ex_env_loads by blast
  have key: "env_key (env_key EnvPrefix ''processing'') ''retry_delay'' = ''INFRA_OBSERVER_PROCESSING_RETRY_DELAY''" by code_simp
  have given: "ex_env ''INFRA_OBSERVER_PROCESSING_RETRY_DELAY'' = Some ''1m1.5s''" by code_simp
  let ?get = "\<lambda>c. CDuration (pc_RetryDelay (cf_Processing c))"
  let ?upd = "\<lambda>v c. c\<lparr>cf_Processing := (cf_Processing c)\<lparr>pc_RetryDelay := to_duration v\<rparr>\<rparr>"
  have member: "(''INFRA_OBSERVER_PROCESSING_RETRY_DELAY'', ?get, ?upd) \<in> set (leaves EnvPrefix config_type)"
    using key by (simp add: config_types)
  have "\<forall>(name, get, upd) \<in> set (leaves EnvPrefix config_type).
      case ex_env name of None \<Rightarrow> get c = get Default | Some raw \<Rightarrow> setScalar (get Default) raw = Some (get c)"
    using environment_overrides [OF c(1)] unfolding option.case by blast
  from bspec [OF this member] given have "setScalar (?get Default) ''1m1.5s'' = Some (?get c)" by simp
  with c show ?thesis by blast
qed

end
