(* ===== verification/Roles.thy ===== *)
theory Roles
  imports Pipeline Automation Worker Collector Config
begin

text \<open>
  The roles assembled in \<open>internal/app\<close> (processor.go, automation.go) and \<open>cmd/infra-observer\<close>: worker
  settings and the shard key, the message handlers of the two processing stages and of the inventory
  consumer, the sweep on a timer, the outbox relay on a broker, and the collector built from the
  configuration. The processor's node is the world of the broker together with the store and the
  device registry. Here the components meet through the texts they exchange. Starting and supervising
  the goroutines is left out.
\<close>


section \<open>Worker settings and the shard key\<close>

definition WorkerOptions ::
    "config \<Rightarrow> (string \<Rightarrow> string \<Rightarrow> duration \<Rightarrow> 'b \<Rightarrow> 'b) option \<Rightarrow> string \<Rightarrow> string \<Rightarrow> string \<Rightarrow> string \<Rightarrow> (message \<Rightarrow> string) \<Rightarrow> 'b worker_options" where
  "WorkerOptions cfg outcome name stream durable filter_subject key =
     (let p = cf_Processing cfg in
      \<lparr>wo_Name = name, wo_Stream = stream, wo_Durable = durable, wo_FilterSubject = filter_subject, wo_Shards = pc_Workers p,
       wo_QueueSize = pc_QueueSize p, wo_MaxDeliver = pc_MaxDeliver p, wo_AckWait = pc_AckWait p, wo_RetryDelay = pc_RetryDelay p,
       wo_MaxRetryDelay = 0, wo_KeyFunc = Some key, wo_DeadLetterSubject = [], wo_ShutdownTimeout = 0, wo_DeadLetterRetryDelay = 0,
       wo_OnOutcome = outcome\<rparr>)"

definition DeviceKey :: "message \<Rightarrow> string" where
  "DeviceKey m =
     (case Option.bind (parse_json (Data m)) (decode_struct False [(''device_id'', str_field (\<lambda>x r. x))] []) of
        Some i \<Rightarrow> if i \<noteq> [] then i else Subject m
      | None \<Rightarrow> Subject m)"


section \<open>The processor's handlers\<close>

record 'b proc_node =
  nd_World :: 'b
  nd_Store :: mem_store
  nd_Registry :: registry

text \<open>\<open>clk\<close> gives the clock readings of the validator, the processor and the validator again.\<close>

definition stageA ::
    "'b proc_node broker \<Rightarrow> (strmap \<Rightarrow> (string \<times> string) list) \<Rightarrow> processor \<Rightarrow> ('b proc_node \<Rightarrow> gotime \<times> gotime \<times> gotime) \<Rightarrow> 'b proc_node handler" where
  "stageA br ord p clk ctx m n =
     (case clk n of (t1, t2, t3) \<Rightarrow>
        (case NormalizeMessage observation_decoder ord p t1 t2 t3 (Data m) of
           Inl e \<Rightarrow> (Fails e, n)
         | Inr nz \<Rightarrow>
             if nz_Dropped nz then (Done (), n)
             else call_tx (Publish br ctx SubjectNormalized (o_ObservationID (nz_Observation nz))
                    (case nz_Payload nz of None \<Rightarrow> [] | Some ob \<Rightarrow> show_json (observation_json ob))
                    (message_headers ObservationV1 (o_CorrelationID (nz_Observation nz)))) n))"

text \<open>The enricher reads the registry the handler touches.\<close>

definition processed_on :: "processor \<Rightarrow> goerr option \<Rightarrow> observation \<Rightarrow> ('b proc_node, unit) prog" where
  "processed_on p err ob n =
     (case Process (p\<lparr>pr_Inventory := nd_Registry n\<rparr>) err ob (nd_Store n) of
        (Done out, s) \<Rightarrow> (Done (), n\<lparr>nd_Store := s, nd_Registry := Touch (o_DeviceID ob) (o_ObservedAt ob) (nd_Registry n)\<rparr>)
      | (Fails e, s) \<Rightarrow> (Fails e, n\<lparr>nd_Store := s\<rparr>)
      | (Panics, s) \<Rightarrow> (Panics, n\<lparr>nd_Store := s\<rparr>))"

definition stageB :: "processor \<Rightarrow> ('b proc_node \<Rightarrow> gotime) \<Rightarrow> 'b proc_node handler" where
  "stageB p clk ctx m n =
     (case DecodeObservation observation_decoder (pr_Limits p) (clk n) (Data m) of
        Inl e \<Rightarrow> (Fails e, n)
      | Inr ob \<Rightarrow> processed_on p (ctx n) ob n)"

definition fact_fields :: "inventory_fact field list" where
  "fact_fields =
     [(''device_id'', str_field (\<lambda>x r. r\<lparr>if_DeviceID := x\<rparr>)),
      (''correlation_id'', str_field (\<lambda>x r. r\<lparr>if_CorrelationID := x\<rparr>)),
      (''sys_name'', str_field (\<lambda>x r. r\<lparr>if_SysName := x\<rparr>)),
      (''sys_descr'', str_field (\<lambda>x r. r\<lparr>if_SysDescr := x\<rparr>)),
      (''sys_object_id'', str_field (\<lambda>x r. r\<lparr>if_SysObjectID := x\<rparr>)),
      (''profile_id'', str_field (\<lambda>x r. r\<lparr>if_ProfileID := x\<rparr>)),
      (''observed_at'', time_field (\<lambda>x r. r\<lparr>if_ObservedAt := x\<rparr>))]"

definition fact_zero :: inventory_fact where
  "fact_zero = \<lparr>if_DeviceID = [], if_CorrelationID = [], if_SysName = [], if_SysDescr = [], if_SysObjectID = [], if_ProfileID = [], if_ObservedAt = 0\<rparr>"

definition fact_attributes :: "inventory_fact \<Rightarrow> strmap" where
  "fact_attributes f = fmap_of_list [(''observed.sys_name'', if_SysName f), (''observed.sys_descr'', if_SysDescr f),
     (''observed.sys_object_id'', if_SysObjectID f), (''observed.profile'', if_ProfileID f)]"

definition inventory_handler :: "'b proc_node handler" where
  "inventory_handler ctx m n =
     (case Decode (strict_decoder fact_fields fact_zero) (Data m) (l_MaxMessageBytes DefaultLimits) of
        Inl e \<Rightarrow> (Fails e, n)
      | Inr f \<Rightarrow>
          if if_DeviceID f = [] then (Fails (Errorf CategoryValidation ''inventory fact without device_id''), n)
          else (Done (), n\<lparr>nd_Store := UpdateDeviceAttributes (if_DeviceID f) (fact_attributes f) (nd_Store n)\<rparr>))"

text \<open>One tick of the sweeper; its error is logged.\<close>

definition sweep_tick :: "processor \<Rightarrow> goerr option \<Rightarrow> gotime \<Rightarrow> 'b proc_node \<Rightarrow> 'b proc_node" where
  "sweep_tick p err now n =
     n\<lparr>nd_Store := snd (Sweep (p\<lparr>pr_Inventory := nd_Registry n\<rparr>) err now (List_devices (nd_Registry n)) (nd_Store n))\<rparr>"


section \<open>The outbox relay on a broker\<close>

text \<open>The bytes of an outbox row are the encoding of its payload.\<close>

definition payload_text :: "payload \<Rightarrow> string" where
  "payload_text p =
     show_json (case p of PEvent e \<Rightarrow> event_json e | PRequest q \<Rightarrow> request_json q | PResult u \<Rightarrow> result_json u)"

definition relay_out :: "relay_msg \<Rightarrow> out_msg" where
  "relay_out x = \<lparr>out_Subject = xm_Subject x, out_MsgID = xm_MsgID x, out_Payload = payload_text (xm_Payload x), out_Headers = xm_Headers x\<rparr>"

definition relay_publish :: "'b broker \<Rightarrow> 'b ctx \<Rightarrow> relay_msg list \<Rightarrow> 'b \<Rightarrow> goerr option \<times> 'b" where
  "relay_publish br ctx ms b = (case PublishBatch br ctx (map relay_out ms) b of (Inl e, b') \<Rightarrow> (Some e, b') | (Inr _, b') \<Rightarrow> (None, b'))"


section \<open>The collector role\<close>

definition unknown_profile :: "(string, profile) fmap \<Rightarrow> device list \<Rightarrow> goerr option" where
  "unknown_profile profiles devices =
     map_option (\<lambda>d. EPlain (''device '' @ d_ID d @ '' references unknown SNMP profile '' @ quote_q (c_Profile (d_Collection d))))
       (find (\<lambda>d. c_Protocol (d_Collection d) = ''snmp'' \<and> c_Profile (d_Collection d) \<noteq> [] \<and> c_Profile (d_Collection d) \<noteq> ''auto''
                  \<and> Get_profile profiles (c_Profile (d_Collection d)) = None) devices)"

definition collector_scheduler ::
    "config \<Rightarrow> (device \<Rightarrow> string \<Rightarrow> 'b poll_step) \<Rightarrow> 'b broker \<Rightarrow> 'b ctx \<Rightarrow> ('b \<Rightarrow> gotime \<times> 'b) \<Rightarrow> ('b \<Rightarrow> string \<times> 'b) \<Rightarrow> 'b scheduler" where
  "collector_scheduler cfg poll br ctx now newID =
     \<lparr>sh_Poll = poll, sh_Sink = NATSSink br ctx, sh_Workers = sn_Workers (cf_SNMP cfg),
      sh_DefaultInterval = sn_DefaultInterval (cf_SNMP cfg), sh_Now = now, sh_NewID = newID\<rparr>"



section \<open>Keys and texts\<close>

lemma other_names:
  "list_all (\<lambda>k. fold_name ''device_id'' \<noteq> fold_name k) [''observation_id'', ''correlation_id'', ''source'', ''metric'', ''value'',
     ''labels'', ''observed_at'', ''received_at'', ''metadata'', ''event_id'', ''type'', ''severity'', ''message'', ''occurred_at'',
     ''alert_key'', ''resolves'']"
  by code_simp

lemma key_field:
  "k \<noteq> ''device_id'' \<Longrightarrow> fold_name ''device_id'' \<noteq> fold_name k \<Longrightarrow> find_field [(''device_id'', f)] k = None"
  "find_field [(''device_id'', f)] ''device_id'' = Some f"
  by (simp_all add: find_field_def)

lemma DeviceKey_text:
  assumes "writable 0 v" "decode_struct False [(''device_id'', str_field (\<lambda>x r. x))] [] v = Some i" "i \<noteq> []" "Data m = show_json v"
  shows "DeviceKey m = i"
  using assms by (simp add: DeviceKey_def parse_json_show)

lemma key_of_observation:
  "decode_struct False [(''device_id'', str_field (\<lambda>x r. x))] [] (observation_json ob) = Some (o_DeviceID ob)"
  using other_names by (simp add: decode_struct_def observation_json_def set_fields_append key_field omit_if_def str_field_def)

lemma key_of_event:
  "decode_struct False [(''device_id'', str_field (\<lambda>x r. x))] [] (event_json e) = Some (e_DeviceID e)"
  using other_names by (simp add: decode_struct_def event_json_def set_fields_append key_field omit_if_def str_field_def)

lemma Validate_later: "Validate l t ob = None \<Longrightarrow> t \<le> t' \<Longrightarrow> Validate l t' ob = None"
  by (auto simp: Validate_None_iff observation_problems_def split: if_splits)

lemma DecodeObservation_text:
  assumes "utf8_observation ob" "json_observation ob" "int (length (show_json (observation_json ob))) \<le> l_MaxMessageBytes l"
    and "Validate l t ob = None" "t \<le> t'"
  shows "DecodeObservation observation_decoder l t' (show_json (observation_json ob)) = Inr ob"
  using observation_text [OF assms(1-3)] Validate_later [OF assms(4,5)] by (simp add: DecodeObservation_def)


section \<open>The report of a failed poll\<close>

lemma error_items:
  "fm_items (fmap_of_list [(''error_category'', a), (''error'', b :: string)]) = [(''error'', b), (''error_category'', a)]"
  by code_simp

lemma protocol_items: "fm_items (fmap_of_list [(''protocol'', ''snmp'')]) = [(''protocol'', ''snmp'')]"
  by code_simp

lemma category_text_short: "length (category_text c) \<le> 20" "valid_utf8 (category_text c)"
proof -
  have "list_all (\<lambda>t. length t \<le> 20 \<and> valid_utf8 t) [''transient'', ''permanent'', ''validation'', ''authentication'', ''unsupported'', ''timeout'', ''dependency'', ''script'']"
    by code_simp
  then show "length (category_text c) \<le> 20" "valid_utf8 (category_text c)" by (cases c; simp add: category_text_def)+
qed

lemma report_patterns:
  "metricPattern MetricPollSuccess" "int (length MetricPollSuccess) \<le> 128" "keyPattern ''error''" "keyPattern ''error_category''" "keyPattern ''protocol''"
  "list_all valid_utf8 [''snmp'', MetricPollSuccess, ''error'', ''error_category'', ''protocol'', ''snmp'']"
  by code_simp+

lemma json_time_zero: "json_time 0"
  by code_simp

text \<open>The report of a failed poll is valid and can be written.\<close>

lemma failure_report_ok:
  fixes e res dev started took cycleID
  defines "ob \<equiv> hd (cycle_observations cycleID dev started took res (Some e))"
  assumes "cycleID \<noteq> []" "valid_utf8 cycleID" "d_ID dev \<noteq> []" "valid_utf8 (d_ID dev)" "valid_utf8 (take 200 (err_text e))"
    and "started \<noteq> 0" "json_time started" "started \<le> now + l_MaxFutureSkew DefaultLimits"
  shows "Validate DefaultLimits now ob = None" "utf8_observation ob" "json_observation ob"
proof -
  let ?ob = "(cycle_observation cycleID dev started MetricPollSuccess (VBool False))
    \<lparr>o_Metadata := fmap_of_list [(''error_category'', category_text (CategoryOf e)), (''error'', take 200 (err_text e))]\<rparr>"
  have ob: "ob = ?ob" by (simp add: ob_def cycle_observations_def)
  have "MetricPollSuccess \<noteq> []" by (simp add: MetricPollSuccess_def)
  then show "Validate DefaultLimits now ob = None"
    using assms(2-) report_patterns category_text_short(1) [of "CategoryOf e"] unfolding ob
    by (simp add: Validate_None_iff observation_problems_def cycle_observation_def Let_def value_problems_def checkMap_def error_items
        protocol_items NewObservationID_def DefaultLimits_def del: fmap_of_list_simps)
  show "utf8_observation ob"
    using assms(2-) report_patterns category_text_short(2) [of "CategoryOf e"] StableID_valid unfolding ob
    by (simp add: utf8_observation_def cycle_observation_def Let_def utf8_map_def error_items protocol_items NewObservationID_def del: fmap_of_list_simps)
  show "json_observation ob"
    using assms(2-) json_time_zero unfolding ob by (simp add: json_observation_def cycle_observation_def Let_def json_value_def)
qed

end
