(* ===== verification/Health.thy ===== *)
theory Health
  imports Go_Json "HOL-Library.Multiset"
begin

text \<open>
  \<open>internal/health/health.go\<close>: the checks a process runs on its dependencies and the report made of
  them. A check is what it does when it is started: it answers, panics or does not answer in time.
  The report is built by ranging over a Go map, so the order of the results is arbitrary; here it is
  an argument, and the report does not depend on it.
\<close>

datatype status = OK | Degraded | Down | OtherStatus string

definition status_text :: "status \<Rightarrow> string" where
  "status_text s = (case s of OK \<Rightarrow> ''ok'' | Degraded \<Rightarrow> ''degraded'' | Down \<Rightarrow> ''down'' | OtherStatus t \<Rightarrow> t)"

record health_result =
  hr_Status :: status
  hr_Detail :: string

datatype probe = Answers health_result | Probe_Panics | Hangs

record check =
  ck_Name :: string
  ck_Critical :: bool
  ck_Fn :: probe

record check_result =
  cr_Result :: health_result
  cr_Critical :: bool

record health_report =
  rp_Status :: string
  rp_Ready :: bool
  rp_Checks :: "(string, check_result) fmap"

definition run_check :: "duration \<Rightarrow> check \<Rightarrow> check_result" where
  "run_check timeout ch =
     \<lparr>cr_Result = (case ck_Fn ch of
        Answers r \<Rightarrow> r
      | Probe_Panics \<Rightarrow> \<lparr>hr_Status = Down, hr_Detail = ''check panicked''\<rparr>
      | Hangs \<Rightarrow> \<lparr>hr_Status = Down, hr_Detail = ''check timed out after '' @ show_duration timeout\<rparr>),
      cr_Critical = ck_Critical ch\<rparr>"

text \<open>The results by name; of two checks with one name the one that finishes last is kept.\<close>

definition check_results :: "duration \<Rightarrow> check list \<Rightarrow> (string, check_result) fmap" where
  "check_results timeout finished = fmap_of_list (rev (map (\<lambda>ch. (ck_Name ch, run_check timeout ch)) finished))"

definition judge_result :: "bool \<times> string \<Rightarrow> check_result \<Rightarrow> bool \<times> string" where
  "judge_result rep r =
     (if hr_Status (cr_Result r) = Down \<and> cr_Critical r then (False, ''unready'')
      else if hr_Status (cr_Result r) \<noteq> OK \<and> snd rep = ''ready'' then (fst rep, ''degraded'')
      else rep)"

definition check_timeout :: "duration \<Rightarrow> duration" where
  "check_timeout t = (if t \<le> 0 then 2 * second else t)"

text \<open>\<open>finished\<close> is the order in which the checks finish, \<open>visited\<close> that in which the map is ranged over.\<close>

definition Run_checks :: "duration \<Rightarrow> check list \<Rightarrow> check_result list \<Rightarrow> health_report" where
  "Run_checks timeout finished visited =
     (let (ready, status) = foldl judge_result (True, ''ready'') visited
      in \<lparr>rp_Status = status, rp_Ready = ready, rp_Checks = check_results (check_timeout timeout) finished\<rparr>)"

definition Names :: "check list \<Rightarrow> string list" where
  "Names checks = sort (map ck_Name checks)"

definition StatusOK :: int where "StatusOK = 200"
definition StatusServiceUnavailable :: int where "StatusServiceUnavailable = 503"

definition readiness_code :: "health_report \<Rightarrow> int" where
  "readiness_code rep = (if rp_Ready rep then StatusOK else StatusServiceUnavailable)"


section \<open>The report\<close>

definition critical_down :: "check_result \<Rightarrow> bool" where
  "critical_down r \<longleftrightarrow> hr_Status (cr_Result r) = Down \<and> cr_Critical r"

lemma judge_result_critical: "judge_result rep r =
    (if critical_down r then (False, ''unready'')
     else if hr_Status (cr_Result r) \<noteq> OK \<and> snd rep = ''ready'' then (fst rep, ''degraded'') else rep)"
  by (simp add: judge_result_def critical_down_def)

lemma judge_all:
  "foldl judge_result rep rs =
     (fst rep \<and> \<not> list_ex critical_down rs,
      if list_ex critical_down rs then ''unready''
      else if snd rep = ''ready'' \<and> list_ex (\<lambda>r. hr_Status (cr_Result r) \<noteq> OK) rs then ''degraded'' else snd rep)"
proof (induction rs arbitrary: rep)
  case (Cons r rs)
  show ?case unfolding foldl_Cons Cons.IH by (auto simp: judge_result_critical)
qed simp

text \<open>A set of results, however it is visited.\<close>

definition visits :: "check_result list \<Rightarrow> (string, check_result) fmap \<Rightarrow> bool" where
  "visits visited m \<longleftrightarrow> mset visited = mset (map snd (fm_items m))"

lemma Run_checks_report:
  assumes "visits visited (check_results (check_timeout timeout) finished)"
  defines "rep \<equiv> Run_checks timeout finished visited"
  shows "rp_Ready rep \<longleftrightarrow> (\<forall>r \<in> fmran' (rp_Checks rep). \<not> critical_down r)"
    "rp_Status rep = (if \<not> rp_Ready rep then ''unready''
       else if \<exists>r \<in> fmran' (rp_Checks rep). hr_Status (cr_Result r) \<noteq> OK then ''degraded'' else ''ready'')"
proof -
  let ?m = "check_results (check_timeout timeout) finished"
  have "set visited = snd ` set (fm_items ?m)" using assms(1) by (metis visits_def mset_eq_setD list.set_map)
  also have "\<dots> = fmran' ?m" by (auto simp: fmlookup_ran'_iff set_fm_items image_iff intro!: bexI [of _ "(_, _)"])
  finally have v: "set visited = fmran' ?m" .
  have "list_ex P visited \<longleftrightarrow> (\<exists>r \<in> fmran' ?m. P r)" for P by (simp add: list_ex_iff v)
  then show "rp_Ready rep \<longleftrightarrow> (\<forall>r \<in> fmran' (rp_Checks rep). \<not> critical_down r)"
    "rp_Status rep = (if \<not> rp_Ready rep then ''unready''
       else if \<exists>r \<in> fmran' (rp_Checks rep). hr_Status (cr_Result r) \<noteq> OK then ''degraded'' else ''ready'')"
    by (auto simp: rep_def Run_checks_def judge_all)
qed

end
