(* ===== verification/Api.thy ===== *)
theory Api
  imports Automation Config Health
begin

text \<open>
  Package \<open>internal/api\<close> (server.go, handlers.go, dto.go) and its assembly in
  \<open>cmd/infra-observer/cmd_api.go\<close>: routing, parameters, the handlers with their response types, and
  token authentication. The store's read side is the interface \<open>Reader\<close> of the code, the record
  \<open>readops\<close> of fallible operations; \<open>memReader\<close> is that interface on the in-memory store. A request
  carries the segments of its cleaned path (the mux redirects other paths) and its query and headers;
  a response carries the value that is encoded, not its JSON text. Logging and metrics are left out.
\<close>


section \<open>Requests, responses and errors (server.go)\<close>

type_synonym url_values = "(string, string list) fmap"

record http_request =
  hq_Method :: string
  hq_Path :: "string list"
  hq_Query :: url_values
  hq_Header :: url_values

definition first_of :: "url_values \<Rightarrow> string \<Rightarrow> string" where
  "first_of m k = (case fmlookup m k of Some (v # vs) \<Rightarrow> v | _ \<Rightarrow> [])"

abbreviation query_of :: "http_request \<Rightarrow> string \<Rightarrow> string" where
  "query_of rq k \<equiv> first_of (hq_Query rq) k"

record device_dto =
  dd_ID :: string
  dd_Hostname :: string
  dd_Address :: string
  dd_Type :: string
  dd_Vendor :: string
  dd_Model :: string
  dd_SerialNumber :: string
  dd_Site :: string
  dd_Tags :: "string list"
  dd_Capabilities :: "string list"
  dd_Enabled :: bool
  dd_LastSeen :: "gotime option"
  dd_Attributes :: strmap
  dd_OpenAlerts :: "int option"

record state_dto =
  sd_Definition :: string
  sd_Labels :: strmap
  sd_State :: string
  sd_Since :: gotime
  sd_LastSeen :: gotime
  sd_LastValue :: string
  sd_Failures :: int

record device_state_dto =
  ds_DeviceID :: string
  ds_Health :: string
  ds_States :: "state_dto list"

record event_dto =
  ed_ID :: string
  ed_CorrelationID :: string
  ed_DeviceID :: string
  ed_Type :: string
  ed_Severity :: string
  ed_Message :: string
  ed_Labels :: strmap
  ed_OccurredAt :: gotime
  ed_Source :: string
  ed_AlertKey :: string
  ed_Resolves :: bool

record alert_dto =
  ad_Key :: string
  ad_DeviceID :: string
  ad_Source :: string
  ad_Severity :: string
  ad_Status :: string
  ad_Summary :: string
  ad_Labels :: strmap
  ad_OpenEvent :: string
  ad_OpenedAt :: gotime
  ad_ResolvedAt :: "gotime option"

record automation_result_dto =
  rd_Status :: string
  rd_DryRun :: bool
  rd_Message :: string
  rd_Details :: strmap
  rd_StartedAt :: gotime
  rd_FinishedAt :: gotime

record automation_dto =
  qd_ID :: string
  qd_CorrelationID :: string
  qd_Policy :: string
  qd_EventID :: string
  qd_DeviceID :: string
  qd_Action :: string
  qd_Target :: string
  qd_Params :: strmap
  qd_Reason :: string
  qd_Proposer :: string
  qd_DryRun :: bool
  qd_Status :: string
  qd_NotBefore :: gotime
  qd_CreatedAt :: gotime
  qd_ApprovedBy :: string
  qd_Result :: "automation_result_dto option"

record metric_dto =
  md_Metric :: string
  md_Value :: goval
  md_Labels :: strmap
  md_ObservedAt :: gotime

record 'a page_dto =
  pd_Items :: "'a list"
  pd_NextCursor :: "string option"

datatype body =
    ErrorBody string string string
  | DevicePage "device_dto page_dto"
  | DeviceBody device_dto
  | StateBody device_state_dto
  | MetricsBody string string "metric_dto list"
  | EventPage "event_dto page_dto"
  | AlertPage "alert_dto page_dto"
  | AutomationPage "automation_dto page_dto"
  | AutomationBody automation_dto
  | AliveBody
  | ReportBody health_report
  | TextBody string

record response =
  rs_Status :: int
  rs_Header :: strmap
  rs_Body :: body

definition writeJSON :: "int \<Rightarrow> body \<Rightarrow> response" where
  "writeJSON st b = \<lparr>rs_Status = st, rs_Header = fmap_of_list [(''Content-Type'', ''application/json'')], rs_Body = b\<rparr>"

text \<open>The response of an error. \<open>rid\<close> is the request id the middleware has put into the response headers.\<close>

definition fail_http :: "string \<Rightarrow> int \<Rightarrow> string \<Rightarrow> string \<Rightarrow> response" where
  "fail_http rid st code msg = writeJSON st (ErrorBody code msg rid)"

definition failCategory :: "string \<Rightarrow> category option \<Rightarrow> string \<Rightarrow> response" where
  "failCategory rid c errText =
     (case c of
        Some CategoryValidation \<Rightarrow> fail_http rid 400 ''invalid_request'' errText
      | Some CategoryAuthentication \<Rightarrow> fail_http rid 401 ''unauthorized'' ''authentication required''
      | Some CategoryDependency \<Rightarrow> fail_http rid 503 ''unavailable'' ''the service is temporarily unable to answer; try again shortly''
      | Some CategoryTransient \<Rightarrow> fail_http rid 503 ''unavailable'' ''the service is temporarily unable to answer; try again shortly''
      | Some CategoryTimeout \<Rightarrow> fail_http rid 503 ''unavailable'' ''the service is temporarily unable to answer; try again shortly''
      | _ \<Rightarrow> fail_http rid 500 ''internal'' ''internal error'')"

definition failErr :: "string \<Rightarrow> goerr option \<Rightarrow> response" where
  "failErr rid err =
     (case err of None \<Rightarrow> failCategory rid None [] | Some e \<Rightarrow> failCategory rid (Some (CategoryOf e)) (err_text e))"

text \<open>A call or a check whose error ends the handler with \<open>failErr\<close>.\<close>

definition or_fail :: "string \<Rightarrow> ('s, 'a) prog \<Rightarrow> ('a \<Rightarrow> ('s, response) prog) \<Rightarrow> ('s, response) prog" where
  "or_fail rid m f =
     bind_tx (attempt m) (\<lambda>r. case r of Inl e \<Rightarrow> return_tx (failErr rid (Some e)) | Inr a \<Rightarrow> f a)"

abbreviation checked :: "string \<Rightarrow> goerr + 'a \<Rightarrow> ('a \<Rightarrow> ('s, response) prog) \<Rightarrow> ('s, response) prog" where
  "checked rid r f \<equiv> or_fail rid (lift_tx r) f"


section \<open>Response types (dto.go)\<close>

definition deviceDTO :: "device \<Rightarrow> device_dto" where
  "deviceDTO d = \<lparr>dd_ID = d_ID d, dd_Hostname = d_Hostname d, dd_Address = d_ManagementAddress d, dd_Type = d_DeviceType d,
     dd_Vendor = d_Vendor d, dd_Model = d_Model d, dd_SerialNumber = d_SerialNumber d, dd_Site = d_Site d, dd_Tags = d_Tags d,
     dd_Capabilities = d_Capabilities d, dd_Enabled = d_Enabled d,
     dd_LastSeen = (if d_LastSeen d = 0 then None else Some (d_LastSeen d)), dd_Attributes = d_Attributes d, dd_OpenAlerts = None\<rparr>"

definition health_text :: "health \<Rightarrow> string" where
  "health_text h = 
     (case h of StateNone \<Rightarrow> [] | StateUp \<Rightarrow> ''UP'' | StateSuspect \<Rightarrow> ''SUSPECT'' | StateDown \<Rightarrow> ''DOWN''
      | StateRecovering \<Rightarrow> ''RECOVERING'')"

definition stateDTO :: "state_record \<Rightarrow> state_dto" where
  "stateDTO r = \<lparr>sd_Definition = r_DefinitionID r, sd_Labels = r_Labels r, sd_State = health_text (r_State r),
     sd_Since = r_LastTransitionAt r, sd_LastSeen = r_LastSeenAt r, sd_LastValue = r_LastValue r, sd_Failures = r_Failures r\<rparr>"

definition eventDTO :: "event \<Rightarrow> event_dto" where
  "eventDTO e = \<lparr>ed_ID = e_EventID e, ed_CorrelationID = e_CorrelationID e, ed_DeviceID = e_DeviceID e, ed_Type = e_Type e,
     ed_Severity = severity_text (e_Severity e), ed_Message = e_Message e, ed_Labels = e_Labels e, ed_OccurredAt = e_OccurredAt e,
     ed_Source = e_Source e, ed_AlertKey = e_AlertKey e, ed_Resolves = e_Resolves e\<rparr>"

definition alert_status_text :: "alert_status \<Rightarrow> string" where
  "alert_status_text s = (case s of AlertFiring \<Rightarrow> ''firing'' | AlertResolved \<Rightarrow> ''resolved'')"

definition alertDTO :: "alert \<Rightarrow> alert_dto" where
  "alertDTO a = \<lparr>ad_Key = a_AlertKey a, ad_DeviceID = a_DeviceID a, ad_Source = a_Source a, ad_Severity = severity_text (a_Severity a),
     ad_Status = alert_status_text (a_Status a), ad_Summary = a_Summary a, ad_Labels = a_Labels a, ad_OpenEvent = a_OpenEventID a,
     ad_OpenedAt = a_OpenedAt a, ad_ResolvedAt = (if a_ResolvedAt a = 0 then None else Some (a_ResolvedAt a))\<rparr>"

definition resultDTO :: "automation_result \<Rightarrow> automation_result_dto" where
  "resultDTO u = \<lparr>rd_Status = automation_status_text (u_Status u), rd_DryRun = u_DryRun u, rd_Message = u_Message u,
     rd_Details = u_Details u, rd_StartedAt = u_StartedAt u, rd_FinishedAt = u_FinishedAt u\<rparr>"

definition automationFrom :: "automation_request \<Rightarrow> automation_result option \<Rightarrow> automation_dto" where
  "automationFrom r res = \<lparr>qd_ID = q_RequestID r, qd_CorrelationID = q_CorrelationID r, qd_Policy = q_PolicyID r,
     qd_EventID = q_EventID r, qd_DeviceID = q_DeviceID r, qd_Action = q_Action r, qd_Target = q_Target r, qd_Params = q_Params r,
     qd_Reason = q_Reason r, qd_Proposer = q_Proposer r, qd_DryRun = q_DryRun r, qd_Status = automation_status_text (q_Status r),
     qd_NotBefore = q_NotBefore r, qd_CreatedAt = q_CreatedAt r, qd_ApprovedBy = q_ApprovedBy r, qd_Result = map_option resultDTO res\<rparr>"

definition automationDTO :: "automation_request \<times> automation_result option \<Rightarrow> automation_dto" where
  "automationDTO v = automationFrom (fst v) (snd v)"

definition metricDTO :: "metric_point \<Rightarrow> metric_dto" where
  "metricDTO p = \<lparr>md_Metric = mp_Metric p, md_Value = mp_Value p, md_Labels = mp_Labels p, md_ObservedAt = mp_ObservedAt p\<rparr>"

definition page_of :: "'a list \<Rightarrow> string \<Rightarrow> 'a page_dto" where
  "page_of items next = \<lparr>pd_Items = items, pd_NextCursor = (if next \<noteq> [] then Some next else None)\<rparr>"


section \<open>Authentication\<close>

definition Identify :: "strmap \<Rightarrow> http_request \<Rightarrow> string option" where
  "Identify tokens rq =
     (let h = first_of (hq_Header rq) ''Authorization''; tok = drop 7 h
      in if \<not> has_prefix h ''Bearer '' \<or> tok = [] then None
         else fold (\<lambda>(t, who) found. if t = tok then Some who else found) (fm_items tokens) None)"


section \<open>The server\<close>

record 's readops =
  ro_ListDevices :: "('s, device list) prog"
  ro_DeviceStates :: "string \<Rightarrow> ('s, state_record list) prog"
  ro_ListEvents :: "event_filter \<Rightarrow> page \<Rightarrow> ('s, event list \<times> string) prog"
  ro_ListAlerts :: "alert_filter \<Rightarrow> page \<Rightarrow> ('s, alert list \<times> string) prog"
  ro_ListAutomation :: "automation_filter \<Rightarrow> page \<Rightarrow> ('s, (automation_request \<times> automation_result option) list \<times> string) prog"
  ro_Metrics :: "string \<Rightarrow> string \<Rightarrow> gotime \<Rightarrow> gotime \<Rightarrow> int \<Rightarrow> ('s, metric_point list) prog"
  ro_LatestMetrics :: "string \<Rightarrow> ('s, metric_point list) prog"
  ro_GetAutomation :: "string \<Rightarrow> ('s, (automation_request \<times> automation_result option) option) prog"

record 's server =
  sv_Store :: "'s readops"
  sv_Approver :: "(string \<Rightarrow> string \<Rightarrow> ('s, unit) prog) option"
  sv_Auth :: "(http_request \<Rightarrow> string option) option"
  sv_Health :: "('s, health_report) prog option"
  sv_Metrics :: "('s, response) prog option"
  sv_DefaultPageSize :: int
  sv_MaxPageSize :: int


section \<open>Parameters (handlers.go)\<close>

text \<open>\<open>time.Parse\<close> with the layout \<open>time.RFC3339\<close>, which is more lenient than the decoder of JSON times.\<close>

definition getnum :: "bool \<Rightarrow> int \<Rightarrow> int \<Rightarrow> string \<Rightarrow> (int \<times> string) option" where
  "getnum fixed lo hi s =
     (let ds = takeWhile is_digit (take 2 s); n = decimal ds
      in if ds = [] \<or> (fixed \<and> length ds < 2) \<or> n < lo \<or> hi < n then None else Some (n, drop (length ds) s))"

definition literal :: "char \<Rightarrow> string \<Rightarrow> string option" where
  "literal c s = (if s \<noteq> [] \<and> hd s = c then Some (tl s) else None)"

definition lenient_zone :: "string \<Rightarrow> int option" where
  "lenient_zone z =
     (if z = ''Z'' then Some 0
      else if length z \<noteq> 6 \<or> z ! 3 \<noteq> CHR '':'' \<or> hd z \<notin> {CHR ''-'', CHR ''+''} then None
      else case (parse_uint (take 2 (drop 1 z)) 0 24, parse_uint (drop 4 z) 0 60) of
             (Some h, Some m) \<Rightarrow> Some ((if hd z = CHR ''-'' then - 1 else 1) * (h * 3600 + m * 60))
           | _ \<Rightarrow> None)"

definition lenient_fraction :: "string \<Rightarrow> int \<times> string" where
  "lenient_fraction s = (if s \<noteq> [] \<and> hd s = CHR '','' then (case parse_fraction (CHR ''.'' # tl s) of (ns, rest) \<Rightarrow>
     if rest = CHR ''.'' # tl s then (0, s) else (ns, rest)) else parse_fraction s)"

definition time_Parse :: "string \<Rightarrow> gotime option" where
  "time_Parse v =
     (if length v < 4 \<or> \<not> list_all is_digit (take 4 v) then None
      else let y = decimal (take 4 v) in
        Option.bind (literal CHR ''-'' (drop 4 v)) (\<lambda>s.
        Option.bind (getnum True 1 12 s) (\<lambda>(mo, s).
        Option.bind (literal CHR ''-'' s) (\<lambda>s.
        Option.bind (getnum True 1 (month_lengths y ! nat (mo - 1)) s) (\<lambda>(d, s).
        Option.bind (literal CHR ''T'' s) (\<lambda>s.
        Option.bind (getnum False 0 23 s) (\<lambda>(h, s).
        Option.bind (literal CHR '':'' s) (\<lambda>s.
        Option.bind (getnum True 0 59 s) (\<lambda>(mi, s).
        Option.bind (literal CHR '':'' s) (\<lambda>s.
        Option.bind (getnum True 0 59 s) (\<lambda>(sec, s).
        case lenient_fraction s of (ns, z) \<Rightarrow>
          map_option (\<lambda>off. (day_of_date y mo d * 86400 + h * 3600 + mi * 60 + sec - off) * second + ns) (lenient_zone z))))))))))))"

definition pageParams :: "'s server \<Rightarrow> http_request \<Rightarrow> goerr + page" where
  "pageParams sv rq =
     (let def = (if sv_DefaultPageSize sv \<le> 0 then 50 else sv_DefaultPageSize sv);
          mx = (if sv_MaxPageSize sv \<le> 0 then 500 else sv_MaxPageSize sv);
          v = query_of rq ''limit'';
          bad = Errorf CategoryValidation (''limit must be an integer between 1 and '' @ show_int mx)
      in if v = [] then Inr \<lparr>pg_Limit = def, pg_Cursor = query_of rq ''cursor''\<rparr>
         else case ParseInt v of
                None \<Rightarrow> Inl bad
              | Some n \<Rightarrow> if n < 1 \<or> mx < n then Inl bad else Inr \<lparr>pg_Limit = n, pg_Cursor = query_of rq ''cursor''\<rparr>)"

definition timeParam :: "http_request \<Rightarrow> string \<Rightarrow> goerr + gotime" where
  "timeParam rq name =
     (let v = query_of rq name
      in if v = [] then Inr 0
         else case time_Parse v of
                None \<Rightarrow> Inl (Errorf CategoryValidation (name @ '' must be an RFC 3339 timestamp, e.g. 2026-08-01T12:00:00Z''))
              | Some t \<Rightarrow> Inr t)"

definition enumParam :: "http_request \<Rightarrow> string \<Rightarrow> (string \<times> 'e) list \<Rightarrow> goerr + 'e option" where
  "enumParam rq name allowed =
     (let v = query_of rq name
      in if v = [] then Inr None
         else case map_of allowed v of
                Some x \<Rightarrow> Inr (Some x)
              | None \<Rightarrow> Inl (Errorf CategoryValidation (name @ '' must be one of '' @ show_slice (map fst allowed))))"


section \<open>Devices\<close>

definition device_selected :: "http_request \<Rightarrow> device \<Rightarrow> bool" where
  "device_selected rq d \<longleftrightarrow>
     \<not> ((query_of rq ''site'' \<noteq> [] \<and> d_Site d \<noteq> query_of rq ''site'')
        \<or> (query_of rq ''type'' \<noteq> [] \<and> d_DeviceType d \<noteq> query_of rq ''type'')
        \<or> (query_of rq ''tag'' \<noteq> [] \<and> \<not> HasTag d (query_of rq ''tag''))
        \<or> (query_of rq ''enabled'' \<noteq> [] \<and> show_bool (d_Enabled d) \<noteq> query_of rq ''enabled''))"

text \<open>The slice of one page and the cursor of the next: the last id on it.\<close>

definition device_page :: "device_dto list \<Rightarrow> page \<Rightarrow> device_dto list \<times> string" where
  "device_page filtered p =
     (let start = (if pg_Cursor p = [] then 0
                   else case find_index (\<lambda>d. pg_Cursor p < dd_ID d) filtered of Some i \<Rightarrow> i | None \<Rightarrow> length filtered);
          stop = min (start + nat (pg_Limit p)) (length filtered);
          next = (if stop < length filtered then dd_ID (filtered ! (stop - 1)) else [])
      in (take (stop - start) (drop start filtered), next))"

definition listDevices :: "'s server \<Rightarrow> string \<Rightarrow> http_request \<Rightarrow> ('s, response) prog" where
  "listDevices sv rid rq =
     or_fail rid (ro_ListDevices (sv_Store sv)) (\<lambda>devices.
     let filtered = map deviceDTO (filter (device_selected rq) devices)
     in checked rid (pageParams sv rq) (\<lambda>p.
        case device_page filtered p of (items, next) \<Rightarrow> return_tx (writeJSON 200 (DevicePage (page_of items next)))))"

definition findDevice :: "'s server \<Rightarrow> string \<Rightarrow> string \<Rightarrow> (device \<Rightarrow> ('s, response) prog) \<Rightarrow> ('s, response) prog" where
  "findDevice sv rid i f =
     or_fail rid (ro_ListDevices (sv_Store sv)) (\<lambda>devices.
     case find (\<lambda>d. d_ID d = i) devices of
       Some d \<Rightarrow> f d
     | None \<Rightarrow> return_tx (fail_http rid 404 ''not_found'' ''no such device''))"

definition getDevice :: "'s server \<Rightarrow> string \<Rightarrow> string \<Rightarrow> ('s, response) prog" where
  "getDevice sv rid i =
     findDevice sv rid i (\<lambda>d.
     or_fail rid (ro_ListAlerts (sv_Store sv) \<lparr>af_Status = Some AlertFiring, af_DeviceID = d_ID d\<rparr> \<lparr>pg_Limit = 1000, pg_Cursor = []\<rparr>)
       (\<lambda>(firing, _). return_tx (writeJSON 200 (DeviceBody ((deviceDTO d)\<lparr>dd_OpenAlerts := Some (int (length firing))\<rparr>)))))"

definition fold_health :: "string \<Rightarrow> state_record \<Rightarrow> string" where
  "fold_health h rec =
     (case r_State rec of
        StateDown \<Rightarrow> ''down''
      | StateUp \<Rightarrow> h
      | _ \<Rightarrow> if h = ''healthy'' then ''degraded'' else h)"

definition getDeviceState :: "'s server \<Rightarrow> string \<Rightarrow> string \<Rightarrow> ('s, response) prog" where
  "getDeviceState sv rid i =
     findDevice sv rid i (\<lambda>d.
     or_fail rid (ro_DeviceStates (sv_Store sv) (d_ID d)) (\<lambda>recs.
     return_tx (writeJSON 200 (StateBody
       \<lparr>ds_DeviceID = d_ID d, ds_Health = (if recs = [] then ''unknown'' else foldl fold_health ''healthy'' recs),
        ds_States = map stateDTO recs\<rparr>))))"

definition getDeviceMetrics :: "'s server \<Rightarrow> string \<Rightarrow> http_request \<Rightarrow> string \<Rightarrow> ('s, response) prog" where
  "getDeviceMetrics sv rid rq i =
     findDevice sv rid i (\<lambda>d.
     checked rid (timeParam rq ''since'') (\<lambda>since.
     checked rid (timeParam rq ''until'') (\<lambda>until.
     checked rid (pageParams sv rq) (\<lambda>p.
     let metric = query_of rq ''metric''
     in or_fail rid (if metric \<noteq> [] then ro_Metrics (sv_Store sv) (d_ID d) metric since until (pg_Limit p)
                     else ro_LatestMetrics (sv_Store sv) (d_ID d))
          (\<lambda>points. return_tx (writeJSON 200 (MetricsBody (d_ID d) metric (map metricDTO points))))))))"


section \<open>Events, alerts and automation\<close>

definition listEvents :: "'s server \<Rightarrow> string \<Rightarrow> http_request \<Rightarrow> ('s, response) prog" where
  "listEvents sv rid rq =
     checked rid (pageParams sv rq) (\<lambda>p.
     checked rid (timeParam rq ''since'') (\<lambda>since.
     checked rid (timeParam rq ''until'') (\<lambda>until.
     checked rid (enumParam rq ''min_severity''
         [(''info'', SeverityInfo), (''warning'', SeverityWarning), (''critical'', SeverityCritical)]) (\<lambda>sev.
     or_fail rid (ro_ListEvents (sv_Store sv)
         \<lparr>ef_DeviceID = query_of rq ''device'', ef_Type = query_of rq ''type'', ef_MinSeverity = sev, ef_Since = since, ef_Until = until\<rparr> p)
       (\<lambda>(items, next). return_tx (writeJSON 200 (EventPage (page_of (map eventDTO items) next))))))))"

definition listAlerts :: "'s server \<Rightarrow> string \<Rightarrow> http_request \<Rightarrow> ('s, response) prog" where
  "listAlerts sv rid rq =
     checked rid (pageParams sv rq) (\<lambda>p.
     checked rid (enumParam rq ''status'' [(''firing'', AlertFiring), (''resolved'', AlertResolved)]) (\<lambda>st.
     or_fail rid (ro_ListAlerts (sv_Store sv) \<lparr>af_Status = st, af_DeviceID = query_of rq ''device''\<rparr> p)
       (\<lambda>(items, next). return_tx (writeJSON 200 (AlertPage (page_of (map alertDTO items) next))))))"

definition automationStatuses :: "(string \<times> automation_status) list" where
  "automationStatuses = map (\<lambda>s. (automation_status_text s, s))
     [AutomationPending, AutomationAwaitingApproval, AutomationApproved, AutomationExecuting, AutomationSucceeded, AutomationFailed,
      AutomationDryRun, AutomationDenied, AutomationExpired]"

definition listAutomation :: "'s server \<Rightarrow> string \<Rightarrow> http_request \<Rightarrow> ('s, response) prog" where
  "listAutomation sv rid rq =
     checked rid (pageParams sv rq) (\<lambda>p.
     checked rid (enumParam rq ''status'' automationStatuses) (\<lambda>st.
     or_fail rid (ro_ListAutomation (sv_Store sv) \<lparr>uf_Status = st, uf_DeviceID = query_of rq ''device'', uf_PolicyID = query_of rq ''policy''\<rparr> p)
       (\<lambda>(items, next). return_tx (writeJSON 200 (AutomationPage (page_of (map automationDTO items) next))))))"

definition getAutomation :: "'s server \<Rightarrow> string \<Rightarrow> string \<Rightarrow> ('s, response) prog" where
  "getAutomation sv rid i =
     or_fail rid (ro_GetAutomation (sv_Store sv) i) (\<lambda>found.
     case found of
       None \<Rightarrow> return_tx (fail_http rid 404 ''not_found'' ''no such automation request'')
     | Some (req, res) \<Rightarrow> return_tx (writeJSON 200 (AutomationBody (automationFrom req res))))"

definition approve :: "'s server \<Rightarrow> string \<Rightarrow> http_request \<Rightarrow> string \<Rightarrow> ('s, response) prog" where
  "approve sv rid rq i =
     (case (sv_Auth sv, sv_Approver sv) of
        (Some auth, Some approver) \<Rightarrow>
          (case auth rq of
             None \<Rightarrow> return_tx (let r = fail_http rid 401 ''unauthorized'' ''a valid bearer token is required''
                 in r\<lparr>rs_Header := fmupd ''WWW-Authenticate'' ''Bearer realm=\"infra-observer\"'' (rs_Header r)\<rparr>)
           | Some who \<Rightarrow>
               or_fail rid (ro_GetAutomation (sv_Store sv) i) (\<lambda>found.
               case found of
                 None \<Rightarrow> return_tx (fail_http rid 404 ''not_found'' ''no such automation request'')
               | Some _ \<Rightarrow>
                   bind_tx (attempt (approver i who)) (\<lambda>done'.
                   case done' of
                     Inl e \<Rightarrow>
                       return_tx (if CategoryOf e = CategoryValidation
                         then fail_http rid 409 ''not_awaiting_approval''
                           ''the request is not awaiting approval (already approved, expired or completed)''
                         else failErr rid (Some e))
                   | Inr _ \<Rightarrow>
                       or_fail rid (ro_GetAutomation (sv_Store sv) i) (\<lambda>updated.
                       case updated of
                         None \<Rightarrow> return_tx (failErr rid None)
                       | Some (req, res) \<Rightarrow> return_tx (writeJSON 200 (AutomationBody (automationFrom req res)))))))
      | _ \<Rightarrow> return_tx (fail_http rid 403 ''approvals_disabled'' ''approvals are not enabled on this deployment''))"


section \<open>Routing and the middleware\<close>

datatype api_endpoint =
    EpDevices | EpDevice string | EpDeviceState string | EpDeviceMetrics string | EpEvents | EpAlerts | EpAutomations
  | EpAutomation string | EpApprove string | EpLive | EpReady | EpDependencies | EpMetrics

text \<open>
  The patterns of the mux. A pattern for GET also serves HEAD; a wildcard takes one segment that is
  not empty (a trailing slash leaves an empty segment).
\<close>

definition route_get :: "'s server \<Rightarrow> string list \<Rightarrow> api_endpoint option" where
  "route_get sv path =
     (if path = [''api'', ''devices''] then Some EpDevices
      else if path = [''api'', ''events''] then Some EpEvents
      else if path = [''api'', ''alerts''] then Some EpAlerts
      else if path = [''api'', ''automation''] then Some EpAutomations
      else if sv_Health sv \<noteq> None \<and> path = [''api'', ''health''] then Some EpLive
      else if sv_Health sv \<noteq> None \<and> path = [''api'', ''readiness''] then Some EpReady
      else if sv_Health sv \<noteq> None \<and> path = [''api'', ''health'', ''dependencies''] then Some EpDependencies
      else if sv_Metrics sv \<noteq> None \<and> path = [''metrics''] then Some EpMetrics
      else case path of
             [a, b, i] \<Rightarrow>
               if a = ''api'' \<and> b = ''devices'' \<and> i \<noteq> [] then Some (EpDevice i)
               else if a = ''api'' \<and> b = ''automation'' \<and> i \<noteq> [] then Some (EpAutomation i) else None
           | [a, b, i, c] \<Rightarrow>
               if a = ''api'' \<and> b = ''devices'' \<and> i \<noteq> [] \<and> c = ''state'' then Some (EpDeviceState i)
               else if a = ''api'' \<and> b = ''devices'' \<and> i \<noteq> [] \<and> c = ''metrics'' then Some (EpDeviceMetrics i) else None
           | _ \<Rightarrow> None)"

definition route_post :: "string list \<Rightarrow> api_endpoint option" where
  "route_post path =
     (case path of
        [a, b, i, c] \<Rightarrow> if a = ''api'' \<and> b = ''automation'' \<and> i \<noteq> [] \<and> c = ''approve'' then Some (EpApprove i) else None
      | _ \<Rightarrow> None)"

definition route :: "'s server \<Rightarrow> string \<Rightarrow> string list \<Rightarrow> api_endpoint option" where
  "route sv meth path =
     (if meth = ''GET'' \<or> meth = ''HEAD'' then route_get sv path else if meth = ''POST'' then route_post path else None)"

definition catch_all :: "'s server \<Rightarrow> string \<Rightarrow> http_request \<Rightarrow> response" where
  "catch_all sv rid rq =
     (let allow = filter (\<lambda>m. m \<noteq> hq_Method rq \<and> route sv m (hq_Path rq) \<noteq> None) [''GET'', ''POST'', ''PUT'', ''PATCH'', ''DELETE'']
      in if allow \<noteq> []
         then let r = fail_http rid 405 ''method_not_allowed'' ''method not allowed for this endpoint''
              in r\<lparr>rs_Header := fmupd ''Allow'' (join_sep '', '' allow) (rs_Header r)\<rparr>
         else fail_http rid 404 ''not_found'' ''no such endpoint'')"

definition health_endpoint :: "'s server \<Rightarrow> (health_report \<Rightarrow> int) \<Rightarrow> ('s, response) prog" where
  "health_endpoint sv code =
     (case sv_Health sv of None \<Rightarrow> panic_tx | Some run \<Rightarrow> bind_tx run (\<lambda>rep. return_tx (writeJSON (code rep) (ReportBody rep))))"

definition dispatch :: "'s server \<Rightarrow> string \<Rightarrow> http_request \<Rightarrow> ('s, response) prog" where
  "dispatch sv rid rq =
     (case route sv (hq_Method rq) (hq_Path rq) of
        None \<Rightarrow> return_tx (catch_all sv rid rq)
      | Some EpDevices \<Rightarrow> listDevices sv rid rq
      | Some (EpDevice i) \<Rightarrow> getDevice sv rid i
      | Some (EpDeviceState i) \<Rightarrow> getDeviceState sv rid i
      | Some (EpDeviceMetrics i) \<Rightarrow> getDeviceMetrics sv rid rq i
      | Some EpEvents \<Rightarrow> listEvents sv rid rq
      | Some EpAlerts \<Rightarrow> listAlerts sv rid rq
      | Some EpAutomations \<Rightarrow> listAutomation sv rid rq
      | Some (EpAutomation i) \<Rightarrow> getAutomation sv rid i
      | Some (EpApprove i) \<Rightarrow> approve sv rid rq i
      | Some EpLive \<Rightarrow> return_tx (writeJSON 200 AliveBody)
      | Some EpReady \<Rightarrow> health_endpoint sv readiness_code
      | Some EpDependencies \<Rightarrow> health_endpoint sv (\<lambda>_. 200)
      | Some EpMetrics \<Rightarrow> (case sv_Metrics sv of None \<Rightarrow> panic_tx | Some m \<Rightarrow> m))"

text \<open>\<open>fresh\<close> is the random request id made when the caller sent none or one that is too long.\<close>

definition middleware :: "string \<Rightarrow> (string \<Rightarrow> http_request \<Rightarrow> ('s, response) prog) \<Rightarrow> http_request \<Rightarrow> 's \<Rightarrow> response \<times> 's" where
  "middleware fresh next rq s =
     (let given = first_of (hq_Header rq) ''X-Request-Id'';
          rid = (if given = [] \<or> 64 < length given then fresh else given);
          with_ids = (\<lambda>r. r\<lparr>rs_Header := fmupd ''X-Content-Type-Options'' ''nosniff'' (fmupd ''X-Request-Id'' rid (rs_Header r))\<rparr>)
      in case next rid rq s of
           (Done r, s') \<Rightarrow> (with_ids r, s')
         | (_, s') \<Rightarrow> (with_ids (fail_http rid 500 ''internal'' ''internal error''), s'))"

definition Serve :: "'s server \<Rightarrow> string \<Rightarrow> http_request \<Rightarrow> 's \<Rightarrow> response \<times> 's" where
  "Serve sv fresh = middleware fresh (dispatch sv)"


section \<open>The server the command assembles (cmd_api.go)\<close>

definition asks_res :: "(mem_store \<Rightarrow> goerr + 'a) \<Rightarrow> (mem_store \<times> 'x, 'a) prog" where
  "asks_res f s = lift_tx (f (fst s)) s"

definition memReader :: "(mem_store \<times> 'x) readops" where
  "memReader =
     \<lparr>ro_ListDevices = asks ListDevices, ro_DeviceStates = \<lambda>i. asks (DeviceStates i),
      ro_ListEvents = \<lambda>f p. asks_res (ListEvents f p), ro_ListAlerts = \<lambda>f p. asks_res (ListAlerts f p),
      ro_ListAutomation = \<lambda>f p. asks_res (ListAutomation f p),
      ro_Metrics = \<lambda>i m since until n. asks (Metrics i m since until n), ro_LatestMetrics = \<lambda>i. asks (LatestMetrics i),
      ro_GetAutomation = \<lambda>i. asks (GetAutomation i)\<rparr>"

text \<open>The tokens of the approvers: none configured, or resolved from the secret store, which must hold some.\<close>

definition approvers :: "(string \<Rightarrow> goerr + secret) \<Rightarrow> string \<Rightarrow> goerr + strmap option" where
  "approvers resolve ref =
     (if ref = [] then Inr None
      else case resolve ref of
             Inl e \<Rightarrow> Inl (EWrap ''api.approvers_ref: '' e)
           | Inr tokens \<Rightarrow>
               if tokens = fmempty then Inl (EPlain (''api.approvers_ref '' @ quote_q ref @ '' holds no tokens'')) else Inr (Some tokens))"

text \<open>Health checks and metrics report on the rest of the world, \<open>'x\<close>.\<close>

definition beside :: "('x \<Rightarrow> 'a) \<Rightarrow> (mem_store \<times> 'x, 'a) prog" where
  "beside f s = (Done (f (snd s)), s)"

definition api_server ::
    "(mem_store \<times> 'x) engine \<Rightarrow> strmap option \<Rightarrow> ('x \<Rightarrow> health_report) \<Rightarrow> ('x \<Rightarrow> response) \<Rightarrow> int \<Rightarrow> int \<Rightarrow> (mem_store \<times> 'x) server" where
  "api_server e tokens report metrics defaultSize maxSize =
     \<lparr>sv_Store = memReader, sv_Approver = Some (Approve (e\<lparr>ge_Store := memAuto\<rparr>)), sv_Auth = map_option Identify tokens,
      sv_Health = Some (beside report), sv_Metrics = Some (beside metrics),
      sv_DefaultPageSize = defaultSize, sv_MaxPageSize = maxSize\<rparr>"


section \<open>What requests can change\<close>

lemma keeps_attempt [keeps_intros]: "keeps I m \<Longrightarrow> keeps I (attempt m)"
  by (auto simp: keeps_def attempt_def split: prod.splits outcome.splits; metis snd_conv)

lemma keeps_or_fail [keeps_intros]: "keeps I m \<Longrightarrow> (\<And>a. keeps I (f a)) \<Longrightarrow> keeps I (or_fail rid m f)"
  by (auto simp: or_fail_def intro!: keeps_intros split: sum.splits)

text \<open>An invariant that reading through a server keeps; only an approval can break it.\<close>

locale server_invariant =
  fixes sv :: "'s server" and I :: "'s \<Rightarrow> bool"
  assumes ListDevices_keeps [keeps_intros]: "keeps I (ro_ListDevices (sv_Store sv))"
    and DeviceStates_keeps [keeps_intros]: "keeps I (ro_DeviceStates (sv_Store sv) i)"
    and ListEvents_keeps [keeps_intros]: "keeps I (ro_ListEvents (sv_Store sv) ef p)"
    and ListAlerts_keeps [keeps_intros]: "keeps I (ro_ListAlerts (sv_Store sv) af p)"
    and ListAutomation_keeps [keeps_intros]: "keeps I (ro_ListAutomation (sv_Store sv) uf p)"
    and Metrics_keeps [keeps_intros]: "keeps I (ro_Metrics (sv_Store sv) i m since until n)"
    and LatestMetrics_keeps [keeps_intros]: "keeps I (ro_LatestMetrics (sv_Store sv) i)"
    and GetAutomation_keeps [keeps_intros]: "keeps I (ro_GetAutomation (sv_Store sv) i)"
    and health_keeps: "sv_Health sv = Some run \<Longrightarrow> keeps I run"
    and metrics_keeps: "sv_Metrics sv = Some show_metrics \<Longrightarrow> keeps I show_metrics"
begin

lemma findDevice_keeps [keeps_intros]: "(\<And>d. keeps I (f d)) \<Longrightarrow> keeps I (findDevice sv rid i f)"
  by (auto simp: findDevice_def intro!: keeps_intros)

lemma health_endpoint_keeps [keeps_intros]: "keeps I (health_endpoint sv code)"
  by (auto simp: health_endpoint_def intro!: keeps_intros dest: health_keeps split: option.splits)

lemmas handler_defs = listDevices_def getDevice_def getDeviceState_def getDeviceMetrics_def listEvents_def listAlerts_def
  listAutomation_def getAutomation_def Let_def

lemma reading_keeps:
  assumes "\<And>i. route sv (hq_Method rq) (hq_Path rq) \<noteq> Some (EpApprove i)"
  shows "keeps I (dispatch sv rid rq)"
  using assms
  by (auto simp: dispatch_def handler_defs intro!: keeps_intros dest: metrics_keeps split: option.split api_endpoint.split prod.split)

end

lemma asks_keeps [keeps_intros]: "keeps I (asks f)" "keeps I (asks_res g)" "keeps I (beside h)"
  by (auto simp: keeps_def asks_def asks_res_def beside_def lift_tx_def return_tx_def fail_tx_def split: sum.splits)

interpretation api: server_invariant "api_server e tokens report metrics defaultSize maxSize" I
  for e tokens report metrics defaultSize maxSize I
  by unfold_locales (auto simp: api_server_def memReader_def intro: keeps_intros)

lemma Identify_token:
  "Identify tokens rq = Some who \<longleftrightarrow>
     (\<exists>tok. first_of (hq_Header rq) ''Authorization'' = ''Bearer '' @ tok \<and> tok \<noteq> [] \<and> fmlookup tokens tok = Some who)"
proof -
  have search: "fold (\<lambda>(t, who) found. if t = tok then Some who else found) xs z = (case map_of (rev xs) tok of Some w \<Rightarrow> Some w | None \<Rightarrow> z)"
    for xs and tok :: string and z :: "string option"
    by (induction xs arbitrary: z) (auto simp: map_add_def split: option.splits)
  have "map_of (rev (fm_items tokens)) tok = fmlookup tokens tok" for tok
  proof (cases "fmlookup tokens tok")
    case None
    then show ?thesis by (auto simp: map_of_eq_None_iff set_fm_items)
  next
    case (Some w)
    then have "map_of (rev (fm_items tokens)) tok = Some w" by (intro map_of_is_SomeI) (simp_all add: set_fm_items rev_map [symmetric])
    with Some show ?thesis by simp
  qed
  with search show ?thesis
    by (auto simp: Identify_def Let_def has_prefix_iff split: option.splits)
qed


lemma route_approve:
  "route sv meth path = Some (EpApprove i) \<longleftrightarrow> meth = ''POST'' \<and> path = [''api'', ''automation'', i, ''approve''] \<and> i \<noteq> []"
  by (auto simp: route_def route_post_def route_get_def split: if_splits list.splits)

lemma Approve_on_store:
  "Approve (e\<lparr>ge_Store := memAuto\<rparr>) i who (s, x) =
     (if trim_space who = [] then (Fails (Errorf CategoryValidation ''an approver identity is required''), (s, x))
      else case ApproveAutomation i who s of
             (ok, s') \<Rightarrow> ((if ok then Done () else Fails (Errorf CategoryValidation (''request '' @ i @ '' is not awaiting approval''))), (s', x)))"
  by (auto simp: Approve_def memAuto_def on_store_def bind_tx_def fail_tx_def return_tx_def split: prod.splits)

text \<open>What the approval endpoint does on the in-memory store, with an identified caller.\<close>

lemma approve_on_store:
  assumes "approve (api_server e tokens report metrics defaultSize maxSize) rid rq i (s, x) = (r, (s', x'))" "(s', x') \<noteq> (s, x)"
  obtains toks who req where "tokens = Some toks" "Identify toks rq = Some who" "trim_space who \<noteq> []"
    "fmlookup (ms_autoReq s) i = Some req" "q_Status req = AutomationAwaitingApproval" "x' = x" "ApproveAutomation i who s = (True, s')"
    "r = Done (writeJSON 200 (AutomationBody (automationFrom (req\<lparr>q_Status := AutomationApproved, q_ApprovedBy := who\<rparr>)
           (fmlookup (ms_autoRes s) i))))"
proof -
  obtain toks who where auth: "tokens = Some toks" "Identify toks rq = Some who"
    using assms by (auto simp: approve_def api_server_def return_tx_def split: option.splits)
  obtain req where req: "fmlookup (ms_autoReq s) i = Some req" "trim_space who \<noteq> []" "q_Status req = AutomationAwaitingApproval"
    using assms auth
    by (auto simp: approve_def api_server_def or_fail_def bind_tx_def attempt_def asks_def memReader_def GetAutomation_def return_tx_def
        Approve_on_store ApproveAutomation_def split: option.splits if_splits)
  from assms auth req have "x' = x \<and> ApproveAutomation i who s = (True, s') \<and>
     r = Done (writeJSON 200 (AutomationBody (automationFrom (req\<lparr>q_Status := AutomationApproved, q_ApprovedBy := who\<rparr>)
           (fmlookup (ms_autoRes s) i))))"
    by (auto simp: approve_def api_server_def or_fail_def bind_tx_def attempt_def asks_def memReader_def GetAutomation_def return_tx_def
        Approve_on_store ApproveAutomation_def)
  with that auth req show ?thesis by blast
qed

lemma Serve_state: "snd (Serve sv fresh rq s) = snd (dispatch sv
     (if first_of (hq_Header rq) ''X-Request-Id'' = [] \<or> 64 < length (first_of (hq_Header rq) ''X-Request-Id'') then fresh
      else first_of (hq_Header rq) ''X-Request-Id'') rq s)"
  by (auto simp: Serve_def middleware_def Let_def split: prod.splits outcome.splits)


text \<open>
  The API's only write (C33). If serving a request changes the store or anything else, then the request is a POST
  to the approval of an existing automation request that is awaiting approval, it carries a configured
  token, and all that has changed is that the request is approved, by the identity that belongs to the
  token.
\<close>

theorem api_only_approves:
  assumes "Serve (api_server e tokens report metrics defaultSize maxSize) fresh rq (s, x) = (resp, (s', x'))" "(s', x') \<noteq> (s, x)"
  shows "\<exists>i req toks tok who. hq_Method rq = ''POST'' \<and> hq_Path rq = [''api'', ''automation'', i, ''approve'']
    \<and> tokens = Some toks \<and> first_of (hq_Header rq) ''Authorization'' = ''Bearer '' @ tok \<and> fmlookup toks tok = Some who \<and> trim_space who \<noteq> []
    \<and> fmlookup (ms_autoReq s) i = Some req \<and> q_Status req = AutomationAwaitingApproval \<and> x' = x
    \<and> s' = s\<lparr>ms_autoReq := fmupd i (req\<lparr>q_Status := AutomationApproved, q_ApprovedBy := who\<rparr>) (ms_autoReq s)\<rparr>
    \<and> rs_Status resp = 200"
proof -
  let ?sv = "api_server e tokens report metrics defaultSize maxSize"
  obtain rid where st: "snd (dispatch ?sv rid rq (s, x)) = (s', x')"
    and rid: "rid = (if first_of (hq_Header rq) ''X-Request-Id'' = [] \<or> 64 < length (first_of (hq_Header rq) ''X-Request-Id'') then fresh
      else first_of (hq_Header rq) ''X-Request-Id'')"
    using assms(1) Serve_state [of ?sv fresh rq "(s, x)"] by auto
  have "\<exists>i. route ?sv (hq_Method rq) (hq_Path rq) = Some (EpApprove i)"
  proof (rule ccontr)
    assume "\<nexists>i. route ?sv (hq_Method rq) (hq_Path rq) = Some (EpApprove i)"
    then have "keeps (\<lambda>t. t = (s, x)) (dispatch ?sv rid rq)" by (intro api.reading_keeps) blast
    with st assms(2) show False by (auto simp: keeps_def)
  qed
  then obtain i where i: "route ?sv (hq_Method rq) (hq_Path rq) = Some (EpApprove i)" ..
  obtain r where r: "approve ?sv rid rq i (s, x) = (r, (s', x'))" using st i by (cases "approve ?sv rid rq i (s, x)") (simp add: dispatch_def)
  from approve_on_store [OF r assms(2)] obtain toks who req where a: "tokens = Some toks" "Identify toks rq = Some who" "trim_space who \<noteq> []"
    "fmlookup (ms_autoReq s) i = Some req" "q_Status req = AutomationAwaitingApproval" "x' = x" "ApproveAutomation i who s = (True, s')"
    "\<exists>b. r = Done (writeJSON 200 b)" by metis
  then have "rs_Status resp = 200"
    using assms(1) r i by (auto simp: Serve_def middleware_def dispatch_def Let_def rid writeJSON_def)
  moreover have "s' = s\<lparr>ms_autoReq := fmupd i (req\<lparr>q_Status := AutomationApproved, q_ApprovedBy := who\<rparr>) (ms_autoReq s)\<rparr>"
    using a by (simp add: ApproveAutomation_def)
  ultimately show ?thesis using a i by (auto simp: route_approve Identify_token)
qed


section \<open>What responses can show\<close>

text \<open>Only a validation error's text reaches the client.\<close>

lemma failErr_hides:
  assumes "CategoryOf e = CategoryOf e'" "CategoryOf e \<noteq> CategoryValidation"
  shows "failErr rid (Some e) = failErr rid (Some e')"
  using assms by (simp add: failErr_def failCategory_def split: category.splits)

definition with_secrets :: "(device \<Rightarrow> string) \<Rightarrow> (device \<Rightarrow> collection_spec) \<Rightarrow> device \<Rightarrow> device" where
  "with_secrets ref col d = d\<lparr>d_CredentialsRef := ref d, d_Collection := col d\<rparr>"

definition store_with :: "(device \<Rightarrow> device) \<Rightarrow> mem_store \<Rightarrow> mem_store" where
  "store_with g s = s\<lparr>ms_devices := fmmap g (ms_devices s)\<rparr>"

lemma fm_items_fmmap: "fm_items (fmmap g m) = map (\<lambda>(k, v). (k, g v)) (fm_items m)"
proof -
  have "sorted_keys (fmmap g m) = sorted_keys m" by (simp add: sorted_keys_def)
  moreover have "the (fmlookup (fmmap g m) k) = g (the (fmlookup m k))" if "k \<in> set (sorted_keys m)" for k
    using that by (auto simp: fmlookup_dom_iff)
  ultimately show ?thesis by (auto simp: fm_items_def)
qed

lemma insort_key_map: "insort_key f (g x) (map g xs) = map g (insort_key (\<lambda>y. f (g y)) x xs)"
  by (induction xs) auto

lemma sort_key_map: "sort_key f (map g xs) = map g (sort_key (\<lambda>y. f (g y)) xs)"
  by (induction xs) (simp_all add: insort_key_map)

lemma ListDevices_with:
  assumes "\<And>d. d_ID (g d) = d_ID d"
  shows "ListDevices (store_with g s) = map g (ListDevices s)"
proof -
  have "map snd (fm_items (fmmap g (ms_devices s))) = map g (map snd (fm_items (ms_devices s)))" by (simp add: fm_items_fmmap split_def)
  then have "sort_key d_ID (map snd (fm_items (fmmap g (ms_devices s)))) = sort_key d_ID (map g (map snd (fm_items (ms_devices s))))"
    by (rule arg_cong)
  also have "\<dots> = map g (sort_key (\<lambda>y. d_ID (g y)) (map snd (fm_items (ms_devices s))))" by (rule sort_key_map)
  finally show ?thesis unfolding ListDevices_def store_with_def assms by simp
qed


text \<open>A program that treats a store and the store with other secrets alike.\<close>

named_theorems blind_intros \<open>indifference to secrets, one rule per program construct\<close>

definition blind :: "(device \<Rightarrow> device) \<Rightarrow> (mem_store \<times> 'x, 'a) prog \<Rightarrow> bool" where
  "blind g m \<longleftrightarrow> (\<forall>s x. m (store_with g s, x) = (case m (s, x) of (r, (s', x')) \<Rightarrow> (r, (store_with g s', x'))))"

lemma blind_simple [blind_intros]: "blind g (return_tx a)" "blind g (fail_tx e)" "blind g panic_tx" "blind g (beside f)"
  by (simp_all add: blind_def return_tx_def fail_tx_def panic_tx_def beside_def)

lemma blind_lift [blind_intros]: "blind g (lift_tx r)"
  by (simp add: lift_tx_def blind_intros split: sum.splits)

lemma blind_bind [blind_intros]: "blind g m \<Longrightarrow> (\<And>a. blind g (f a)) \<Longrightarrow> blind g (bind_tx m f)"
  by (auto simp: blind_def bind_tx_def split: prod.splits outcome.splits)

lemma blind_attempt [blind_intros]: "blind g m \<Longrightarrow> blind g (attempt m)"
  by (auto simp: blind_def attempt_def split: prod.splits outcome.splits)

lemma blind_sum [blind_intros]: "(\<And>e. blind g (f e)) \<Longrightarrow> (\<And>a. blind g (h a)) \<Longrightarrow> blind g (case r of Inl e \<Rightarrow> f e | Inr a \<Rightarrow> h a)"
  by (simp split: sum.splits)

lemma blind_or_fail [blind_intros]: "blind g m \<Longrightarrow> (\<And>a. blind g (f a)) \<Longrightarrow> blind g (or_fail rid m f)"
  by (auto simp: or_fail_def intro!: blind_intros)

lemma blind_asks: "(\<And>s. f (store_with g s) = f s) \<Longrightarrow> blind g (asks f)" "(\<And>s. h (store_with g s) = h s) \<Longrightarrow> blind g (asks_res h)"
  by (auto simp: blind_def asks_def asks_res_def lift_tx_def return_tx_def fail_tx_def split: sum.splits)

lemma blind_devices:
  assumes "\<And>d. d_ID (g d) = d_ID d" "\<And>ds. f (map g ds) = f ds" "\<And>ds. blind g (f ds)"
  shows "blind g (or_fail rid (asks ListDevices) f)"
  using assms(2,3) by (simp add: blind_def or_fail_def bind_tx_def attempt_def asks_def ListDevices_with [OF assms(1)])

lemma blind_store_reads [blind_intros]:
  "blind g (asks (DeviceStates i))" "blind g (asks_res (ListEvents ef p))" "blind g (asks_res (ListAlerts af p))"
  "blind g (asks_res (ListAutomation uf p))" "blind g (asks (Metrics i m since until n))" "blind g (asks (LatestMetrics i))"
  "blind g (asks (GetAutomation i))"
  by (auto intro!: blind_asks simp: store_with_def DeviceStates_def ListEvents_def ListAlerts_def ListAutomation_def Metrics_def
      LatestMetrics_def GetAutomation_def observations_in_order_def requests_in_order_def)

lemma blind_Approve [blind_intros]: "blind g (Approve (e\<lparr>ge_Store := memAuto\<rparr>) i who)"
  by (auto simp: blind_def Approve_on_store ApproveAutomation_def store_with_def split: option.splits)

lemma with_secrets_simps [simp]:
  "d_ID (with_secrets ref col d) = d_ID d" "deviceDTO (with_secrets ref col d) = deviceDTO d"
  "device_selected rq (with_secrets ref col d) = device_selected rq d"
  by (simp_all add: with_secrets_def deviceDTO_def device_selected_def HasTag_def)

lemma blind_findDevice:
  assumes "\<And>d. f (with_secrets ref col d) = f d" "\<And>d. blind (with_secrets ref col) (f d)"
  shows "blind (with_secrets ref col) (findDevice (api_server e tokens report metrics defaultSize maxSize) rid i f)"
proof -
  have "find (\<lambda>d. d_ID d = i) (map (with_secrets ref col) ds) = map_option (with_secrets ref col) (find (\<lambda>d. d_ID d = i) ds)" for ds
    by (induction ds) simp_all
  then show ?thesis
    unfolding findDevice_def api_server_def memReader_def
    using assms by simp (rule blind_devices, auto intro!: blind_intros split: option.splits)
qed

lemma blind_dispatch: "blind (with_secrets ref col) (dispatch (api_server e tokens report metrics defaultSize maxSize) rid rq)"
proof -
  let ?sv = "api_server e tokens report metrics defaultSize maxSize"
  have st: "sv_Store ?sv = memReader" "sv_Health ?sv = Some (beside report)" "sv_Metrics ?sv = Some (beside metrics)"
    "sv_Approver ?sv = Some (Approve (e\<lparr>ge_Store := memAuto\<rparr>))" by (simp_all add: api_server_def)
  have "blind (with_secrets ref col) (listDevices ?sv rid rq)"
    unfolding listDevices_def st memReader_def
    by simp (rule blind_devices, auto intro!: blind_intros simp: Let_def filter_map comp_def split: prod.splits)
  moreover have "blind (with_secrets ref col) (approve ?sv rid rq i)" for i
    unfolding approve_def st by (auto intro!: blind_intros simp: memReader_def split: option.splits)
  moreover have "blind (with_secrets ref col) (getDevice ?sv rid i)" for i
    unfolding getDevice_def by (rule blind_findDevice; simp add: st memReader_def) (auto intro!: blind_intros split: prod.splits)
  moreover have "blind (with_secrets ref col) (getDeviceState ?sv rid i)" for i
    unfolding getDeviceState_def by (rule blind_findDevice; simp add: st memReader_def) (auto intro!: blind_intros)
  moreover have "blind (with_secrets ref col) (getDeviceMetrics ?sv rid rq i)" for i
    unfolding getDeviceMetrics_def st
    by (rule blind_findDevice; simp add: memReader_def Let_def cong: if_cong) (auto intro!: blind_intros)
  moreover have "blind (with_secrets ref col) (listEvents ?sv rid rq)" "blind (with_secrets ref col) (listAlerts ?sv rid rq)"
    "blind (with_secrets ref col) (listAutomation ?sv rid rq)" "blind (with_secrets ref col) (getAutomation ?sv rid i)" for i
    unfolding listEvents_def listAlerts_def listAutomation_def getAutomation_def
    by (auto intro!: blind_intros simp: st memReader_def split: prod.splits option.splits)
  ultimately show ?thesis
    by (auto simp: dispatch_def health_endpoint_def st intro!: blind_intros split: option.splits api_endpoint.splits)
qed

text \<open>
  Nothing sensitive leaks through the API (C34). The response to a request does not depend on the credential
  references and the collection settings of the stored devices: with any other ones in their place the
  response is the same.
\<close>

theorem responses_hide_credentials:
  "fst (Serve (api_server e tokens report metrics defaultSize maxSize) fresh rq (store_with (with_secrets ref col) s, x))
   = fst (Serve (api_server e tokens report metrics defaultSize maxSize) fresh rq (s, x))"
  using blind_dispatch [of ref col e tokens report metrics defaultSize maxSize]
  by (auto simp: Serve_def middleware_def blind_def Let_def split: prod.splits outcome.splits)



section \<open>Walking the device list\<close>

text \<open>
  A client that asks for the list of devices and follows \<open>next_cursor\<close> until there is none; \<open>None\<close> when
  a response is not a page or the requests do not suffice.
\<close>

definition at_cursor :: "string \<Rightarrow> http_request \<Rightarrow> http_request" where
  "at_cursor c rq = rq\<lparr>hq_Query := fmupd ''cursor'' [c] (hq_Query rq)\<rparr>"

fun follow :: "'s server \<Rightarrow> string \<Rightarrow> http_request \<Rightarrow> 's \<Rightarrow> nat \<Rightarrow> string \<Rightarrow> device_dto list option" where
  "follow sv fresh rq s 0 c = None"
| "follow sv fresh rq s (Suc n) c =
     (case rs_Body (fst (Serve sv fresh (at_cursor c rq) s)) of
        DevicePage pg \<Rightarrow>
          (case pd_NextCursor pg of
             None \<Rightarrow> Some (pd_Items pg)
           | Some c' \<Rightarrow> map_option ((@) (pd_Items pg)) (follow sv fresh rq s n c'))
      | _ \<Rightarrow> None)"

lemma sorted_ids: "sorted_wrt (\<lambda>a b. dd_ID a < dd_ID b) xs \<Longrightarrow> xs = ys @ zs \<Longrightarrow> ys \<noteq> [] \<Longrightarrow>
    (\<forall>y \<in> set ys. dd_ID y \<le> dd_ID (last ys)) \<and> (\<forall>z \<in> set zs. dd_ID (last ys) < dd_ID z)"
  by (induction ys rule: rev_induct) (auto simp: sorted_wrt_append)

lemma find_index_append:
  "(\<forall>y \<in> set ys. \<not> P y) \<Longrightarrow> find_index P (ys @ zs) = map_option ((+) (length ys)) (find_index P zs)"
  by (induction ys; cases "find_index P zs") (simp_all del: find_index_None)

lemma device_page_at:
  assumes sorted: "sorted_wrt (\<lambda>a b. dd_ID a < dd_ID b) (ys @ zs)" and l: "0 < l"
    and c: "if ys = [] then c = [] else c = dd_ID (last ys) \<and> c \<noteq> []"
  shows "device_page (ys @ zs) \<lparr>pg_Limit = l, pg_Cursor = c\<rparr> =
    (take (nat l) zs, if nat l < length zs then dd_ID (last (take (nat l) zs)) else [])"
proof -
  have start: "(if c = [] then 0 else case find_index (\<lambda>d. c < dd_ID d) (ys @ zs) of Some i \<Rightarrow> i | None \<Rightarrow> length (ys @ zs)) = length ys"
  proof (cases "ys = []")
    case False
    then have "\<forall>y \<in> set ys. \<not> c < dd_ID y" "\<forall>z \<in> set zs. c < dd_ID z" "c \<noteq> []"
      using sorted_ids [OF sorted refl] c by auto
    moreover from this have "find_index (\<lambda>d. c < dd_ID d) ys = None" by simp
    ultimately show ?thesis by (cases zs) (simp_all add: find_index_append del: find_index_None)
  qed (use c in simp)
  have "last (take (nat l) zs) = zs ! (nat l - 1)" if "nat l < length zs"
    by (subst last_conv_nth) (use that l in auto)
  with start l show ?thesis
    by (auto simp: device_page_def nth_append min_def Let_def)
qed

lemma Serve_devices:
  assumes "hq_Method rq = ''GET''" "hq_Path rq = [''api'', ''devices'']" "ro_ListDevices (sv_Store sv) s = (Done devices, s)"
    "pageParams sv rq = Inr p"
  shows "rs_Body (fst (Serve sv fresh rq s)) =
    (case device_page (map deviceDTO (filter (device_selected rq) devices)) p of (items, next) \<Rightarrow> DevicePage (page_of items next))"
  using assms
  by (simp add: Serve_def middleware_def dispatch_def route_def route_get_def listDevices_def or_fail_def bind_tx_def attempt_def Let_def
      lift_tx_def return_tx_def writeJSON_def split: prod.splits)

lemma at_cursor_simps [simp]:
  "hq_Method (at_cursor c rq) = hq_Method rq" "hq_Path (at_cursor c rq) = hq_Path rq"
  "query_of (at_cursor c rq) k = (if k = ''cursor'' then c else query_of rq k)"
  "device_selected (at_cursor c rq) = device_selected rq"
  by (auto simp: at_cursor_def first_of_def device_selected_def)

lemma pageParams_cursor:
  "pageParams sv rq = Inr p \<Longrightarrow> pageParams sv (at_cursor c rq) = Inr \<lparr>pg_Limit = pg_Limit p, pg_Cursor = c\<rparr> \<and> 0 < pg_Limit p"
  by (auto simp: pageParams_def Let_def split: if_splits option.splits)

lemma follow_devices:
  assumes rq: "hq_Method rq = ''GET''" "hq_Path rq = [''api'', ''devices'']" "pageParams sv rq = Inr p"
    and dev: "ro_ListDevices (sv_Store sv) s = (Done devices, s)"
    and xs: "xs = map deviceDTO (filter (device_selected rq) devices)" "sorted_wrt (\<lambda>a b. dd_ID a < dd_ID b) xs" "\<forall>x \<in> set xs. dd_ID x \<noteq> []"
    and split: "xs = ys @ zs" "if ys = [] then c = [] else c = dd_ID (last ys)" "length zs < n"
  shows "follow sv fresh rq s n c = Some zs"
  using split
proof (induction n arbitrary: ys zs c)
  case (Suc n)
  let ?l = "nat (pg_Limit p)"
  have l: "0 < pg_Limit p" and pp: "pageParams sv (at_cursor c rq) = Inr \<lparr>pg_Limit = pg_Limit p, pg_Cursor = c\<rparr>"
    using pageParams_cursor [OF rq(3)] by blast+
  have c: "if ys = [] then c = [] else c = dd_ID (last ys) \<and> c \<noteq> []"
    using Suc.prems xs(3) by (auto split: if_splits)
  have body: "rs_Body (fst (Serve sv fresh (at_cursor c rq) s)) =
    DevicePage (page_of (take ?l zs) (if ?l < length zs then dd_ID (last (take ?l zs)) else []))"
  proof -
    have "device_page xs \<lparr>pg_Limit = pg_Limit p, pg_Cursor = c\<rparr> =
        (take ?l zs, if ?l < length zs then dd_ID (last (take ?l zs)) else [])"
      using device_page_at [OF _ l c] xs(2) Suc.prems(1) by blast
    with Serve_devices [OF _ _ dev pp] rq show ?thesis by (simp flip: xs(1))
  qed
  show ?case
  proof (cases "?l < length zs")
    case True
    let ?c = "dd_ID (last (take ?l zs))"
    have ne: "take ?l zs \<noteq> []" using True l by auto
    have "last (take ?l zs) \<in> set zs" using last_in_set [OF ne] set_take_subset by (rule subsetD [rotated])
    then have "last (take ?l zs) \<in> set xs" using Suc.prems(1) by simp
    then have "?c \<noteq> []" using xs(3) by blast
    moreover have "follow sv fresh rq s n ?c = Some (drop ?l zs)"
      using Suc.IH [of "ys @ take ?l zs" "drop ?l zs" ?c] Suc.prems ne l True by simp
    ultimately show ?thesis using True body by (simp add: page_of_def)
  qed (use body in \<open>simp add: page_of_def\<close>)
qed simp


lemma distinct_map_sort_key: "distinct (map f xs) \<Longrightarrow> distinct (map f (sort_key f xs))"
  by (simp add: distinct_map)

lemma ListDevices_sorted:
  assumes "\<And>k d. fmlookup (ms_devices s) k = Some d \<Longrightarrow> d_ID d = k"
  shows "sorted_wrt (\<lambda>a b. d_ID a < d_ID b) (ListDevices s)"
proof -
  have "map d_ID (map snd (fm_items (ms_devices s))) = map fst (fm_items (ms_devices s))"
    using assms by (auto simp: set_fm_items)
  then have "distinct (map d_ID (map snd (fm_items (ms_devices s))))" by (simp only: distinct_fst_fm_items)
  then have "distinct (map d_ID (ListDevices s))" unfolding ListDevices_def by (rule distinct_map_sort_key)
  moreover have "sorted (map d_ID (ListDevices s))" by (simp add: ListDevices_def)
  ultimately have "sorted_wrt (<) (map d_ID (ListDevices s))" by (simp only: strict_sorted_iff)
  then show ?thesis by (simp add: sorted_wrt_map)
qed

text \<open>
  The device list is complete. A client that asks for the devices with any filters and any accepted
  page size, and follows the cursors, ends after at most one request per device and one more, and has
  then received exactly the matching devices, each once, in the order of their ids.
\<close>

theorem device_pages_complete:
  assumes "hq_Method rq = ''GET''" "hq_Path rq = [''api'', ''devices'']"
    and "pageParams (api_server e tokens report metrics defaultSize maxSize) rq = Inr p"
    and "\<And>k d. fmlookup (ms_devices s) k = Some d \<Longrightarrow> d_ID d = k \<and> k \<noteq> []"
  shows "follow (api_server e tokens report metrics defaultSize maxSize) fresh rq (s, x) (Suc (length (ListDevices s))) []
    = Some (map deviceDTO (filter (device_selected rq) (ListDevices s)))"
proof (rule follow_devices [OF assms(1-3), where ys = "[]"])
  show "ro_ListDevices (sv_Store (api_server e tokens report metrics defaultSize maxSize)) (s, x) = (Done (ListDevices s), (s, x))"
    by (simp add: api_server_def memReader_def asks_def)
  have "sorted_wrt (\<lambda>a b. d_ID a < d_ID b) (filter (device_selected rq) (ListDevices s))"
    using assms(4) by (intro sorted_wrt_filter ListDevices_sorted) simp
  then show "sorted_wrt (\<lambda>a b. dd_ID a < dd_ID b) (map deviceDTO (filter (device_selected rq) (ListDevices s)))"
    by (simp add: sorted_wrt_map deviceDTO_def)
  have "d_ID d \<noteq> []" if "d \<in> set (ListDevices s)" for d
    using that assms(4) by (auto simp: ListDevices_def set_fm_items)
  then show "\<forall>x \<in> set (map deviceDTO (filter (device_selected rq) (ListDevices s))). dd_ID x \<noteq> []"
    by (auto simp: deviceDTO_def)
qed (simp_all add: less_Suc_eq_le)



section \<open>Witnesses\<close>

definition ex_server :: "(mem_store \<times> (int, unit) plant) server" where
  "ex_server = api_server ex_engine (Some (fmap_of_list [(''t0ken'', ''ops'')])) (\<lambda>x. \<lparr>rp_Status = ''ready'', rp_Ready = True, rp_Checks = fmempty\<rparr>)
     (\<lambda>x. writeJSON 200 (TextBody [])) 50 500"

definition ex_approval :: http_request where
  "ex_approval = \<lparr>hq_Method = ''POST'', hq_Path = [''api'', ''automation'', ''q1'', ''approve''], hq_Query = fmempty,
     hq_Header = fmap_of_list [(''Authorization'', [''Bearer t0ken''])]\<rparr>"

lemma ex_approved: "q_Status (the (fmlookup (ms_autoReq (fst (snd (Serve ex_server ''r1'' ex_approval (ex_action_store, ex_plant))))) ''q1'')) = AutomationApproved"
  by code_simp

theorem api_only_approves_witness:
  "\<exists>req who. fmlookup (fmap_of_list [(''t0ken'', ''ops'')]) ''t0ken'' = Some who
     \<and> fmlookup (ms_autoReq ex_action_store) ''q1'' = Some req \<and> q_Status req = AutomationAwaitingApproval
     \<and> fst (snd (Serve ex_server ''r1'' ex_approval (ex_action_store, ex_plant)))
       = ex_action_store\<lparr>ms_autoReq := fmupd ''q1'' (req\<lparr>q_Status := AutomationApproved, q_ApprovedBy := who\<rparr>) (ms_autoReq ex_action_store)\<rparr>"
proof -
  obtain resp s' x' where r: "Serve ex_server ''r1'' ex_approval (ex_action_store, ex_plant) = (resp, (s', x'))" by (metis surj_pair)
  have "s' \<noteq> ex_action_store" using ex_approved r by (auto simp: ex_action_store_def ex_action_def)
  then have "(s', x') \<noteq> (ex_action_store, ex_plant)" by simp
  from api_only_approves [OF r [unfolded ex_server_def] this] show ?thesis
    unfolding r by (auto simp: ex_approval_def first_of_def)
qed

definition ex_devices :: mem_store where
  "ex_devices = UpsertDevices [ex_host, ex_host\<lparr>d_ID := ''h2''\<rparr>] NewMemStore"

definition ex_listing :: http_request where
  "ex_listing = \<lparr>hq_Method = ''GET'', hq_Path = [''api'', ''devices''], hq_Query = fmap_of_list [(''limit'', [''1''])], hq_Header = fmempty\<rparr>"

theorem device_pages_complete_witness:
  "follow ex_server ''r1'' ex_listing (ex_devices, ex_plant) (Suc (length (ListDevices ex_devices))) []
    = Some (map deviceDTO (filter (device_selected ex_listing) (ListDevices ex_devices)))"
  unfolding ex_server_def
proof (rule device_pages_complete)
  show "pageParams (api_server ex_engine (Some (fmap_of_list [(''t0ken'', ''ops'')])) (\<lambda>x. \<lparr>rp_Status = ''ready'', rp_Ready = True, rp_Checks = fmempty\<rparr>)
     (\<lambda>x. writeJSON 200 (TextBody [])) 50 500 :: (mem_store \<times> (int, unit) plant) server) ex_listing = Inr \<lparr>pg_Limit = 1, pg_Cursor = []\<rparr>"
    unfolding api_server_def by code_simp
next
  fix k d assume "fmlookup (ms_devices ex_devices) k = Some d"
  then show "d_ID d = k \<and> k \<noteq> []"
    by (auto simp: ex_devices_def UpsertDevices_def NewMemStore_def ex_host_def split: if_splits option.splits)
qed (simp_all add: ex_listing_def)

end
