(* ===== verification/Spec2Isabelle.thy ===== *)
theory Spec2Isabelle
  imports Roles Api
begin

text \<open>
  A verification library for \<^bold>\<open>infra-observer\<close>, a platform that polls network devices, derives their
  health, raises alerts and reacts to them (Go, under \<^verbatim>\<open>src/\<close>).

  \<^bold>\<open>The program.\<close> The collector polls devices over SNMP and publishes raw observations on NATS. Stage A
  of the processor decodes, validates and normalizes them and publishes the result; stage B enriches
  it from the inventory, runs the health state machine and the rules, and commits observations,
  states, alerts, events and an outbox of messages in one unit of work. A relay publishes the outbox.
  The automation engine turns alert events into requests, checks every gate and lets an adapter act on
  a device. An HTTP API reads the store and records approvals. Consumers retry with backoff and move
  what cannot be handled to a dead-letter stream, from which it can be replayed. A sweeper feeds
  synthetic samples for entities that have gone silent.

  \<^bold>\<open>Foundations.\<close>
  \<^item> \<open>Prelude\<close>: maps with ordered keys, time and durations in nanoseconds since Go's zero time, strings
    as byte lists, results.
  \<^item> \<open>Go_Time\<close>, \<open>Go_Hash\<close>, \<open>Go_Float\<close>, \<open>Go_Json\<close>: what the sources use of the standard library: civil dates
    and RFC 3339, SHA-256 and FNV-1a, IEEE doubles as exact rationals with rounding, JSON text with its
    escapes, numbers, struct decoding and base 64. \<open>Float_Error\<close> bounds the rounding error and
    \<open>Float_Text\<close> shows that a double is read back from the shortest digits written for it.
  \<^item> \<open>Domain\<close> (\<^verbatim>\<open>internal/domain\<close>): errors with categories, stable ids, observations, devices, states,
    events, alerts, automation requests and results.

  \<^bold>\<open>Components.\<close> Each theory opens with the files it models; records carry the fields of the structs,
  and functions keep the names of the code where the logic allows it.
  \<^item> \<open>Schema\<close>, \<open>Wire\<close> (\<^verbatim>\<open>internal/schema\<close>): limits, validation, encoding and strict decoding. The other
    theories pass messages as values; \<open>Wire\<close> has their texts.
  \<^item> \<open>Normalize\<close>, \<open>Inventory\<close> (with \<^verbatim>\<open>internal/enrich\<close>), \<open>Secrets\<close>, \<open>Config\<close>.
  \<^item> \<open>Alert_Lifecycle\<close>, \<open>State_Engine\<close> (\<^verbatim>\<open>internal/state\<close>), \<open>Rules\<close> (\<^verbatim>\<open>internal/rules\<close>): what a sample does to
    the record of an entity, and the events that open and resolve alerts. The locale \<open>alerting\<close> is the
    contract both share.
  \<^item> \<open>Persistence\<close>, \<open>Cursors\<close>, \<open>Mem_Store\<close> (\<^verbatim>\<open>internal/persistence\<close>): the unit of work as programs that
    finish, fail or panic, the transaction interface as a record of operations, and the in-memory store
    with its undo log, outbox, automation table and paged listings. The locales \<open>tx_invariant\<close> and
    \<open>dedup_insert\<close> are the contract a store discharges.
  \<^item> \<open>Pipeline\<close> (\<^verbatim>\<open>internal/pipeline\<close>): stages A and B, the stale sweep and the outbox relay.
  \<^item> \<open>Subjects\<close>, \<open>Messaging\<close>, \<open>Dead_Letters\<close>, \<open>Worker\<close> (\<^verbatim>\<open>internal/messaging\<close>): publishing, dead letters and
    their replay, the settling of one message, the retry delay, and the shards as a step relation.
  \<^item> \<open>Snmp\<close> (\<^verbatim>\<open>internal/collector/snmp\<close>), \<open>Collector\<close> (\<^verbatim>\<open>internal/collector\<close>): profiles, polling, the collection
    cycle, and the scheduler with its goroutines as a step relation.
  \<^item> \<open>Catalog\<close>, \<open>Policy\<close>, \<open>Adapters\<close>, \<open>Automation\<close> (\<^verbatim>\<open>internal/automation\<close>): actions, policies and maintenance
    windows, the device adapters, and the engine. The locale \<open>mem_engine\<close> is interpreted on the engine
    the automation role assembles.
  \<^item> \<open>Health\<close>, \<open>Api\<close> (\<^verbatim>\<open>internal/health\<close>, \<^verbatim>\<open>internal/api\<close>): checks, routing, handlers and authentication.
  \<^item> \<open>Roles\<close> (\<^verbatim>\<open>internal/app\<close>, \<^verbatim>\<open>cmd/infra-observer\<close>): the handlers of the processor, worker settings, the
    shard key and the relay on a broker.

  \<^bold>\<open>What is shown.\<close> The health machine implements a specification over the accepted samples; events are
  debounced and alternate, and in the store a key has a firing alert exactly when its record is down or
  recovering. Units of work are all or nothing and processing is idempotent. Whatever changes a device
  has passed every gate of the engine; dry runs change nothing, and the default configuration is a dry
  run. Of the workers racing for a request one wins, and results are recorded once. Messages are settled
  exactly once, in order per key, with a bounded delay; replays end and restore what was dead-lettered.
  Polls never overlap on a device. The API's only write is an approval by a known identity, and
  credentials never reach a response. Secret references stay inside their directory. Parsed
  configuration of every kind is valid and total for its users. Listings, texts and cursors round-trip.
  The properties at the end of this theory join components through the texts they exchange. Where the
  code does something a reader may not expect (an expiry that overrides an approval, a stale sample
  that thresholds ignore, a sweep that stops, labels that depend on map order), the theorem states
  what it does.

  \<^bold>\<open>Parameters.\<close> NATS is the record \<open>broker\<close> of its operations over an arbitrary world; the YAML decoder,
  SNMP sessions, HTTP clients, time zones, the clock, random numbers, goja scripts and the file system
  are arguments of the definitions that use them. Map iteration is by ordered keys, or by an arbitrary
  order where the result could depend on it.

  \<^bold>\<open>Bounds.\<close> Recursive definitions terminate by a measure: relay passes by the pending messages, retry
  loops by the attempts, profile includes by the profiles not yet visited. The stream replay takes fuel;
  that it ends is a property, with as many rounds as the stream has messages below the horizon. Walks
  over pages take fuel, and the page theorems give the number of pages that is enough. Seventeen digits
  are enough for a double. 64-bit counters, sequence numbers and the backoff are words or are wrapped
  explicitly; other integers of the code stay far below their width.

  \<^bold>\<open>Not modelled.\<close> The PostgreSQL store and the migrations, whose behaviour is that of SQL statements; the
  JavaScript runtime and its host interface (\<^verbatim>\<open>internal/scripting\<close>), which is built on goja and enters the
  pipeline and the engine as parameters; the device simulator, test harnesses and store test suites;
  telemetry, logging and access logs; connection management and process wiring of the commands. The
  heartbeat that extends the deadline of a running handler settles nothing and is left out. Times carry
  no location, and the monotonic clock reading of Go is not distinguished from the wall clock.
\<close>


section \<open>Across components\<close>

lemma NormalizeMessage_kept:
  assumes "NormalizeMessage json ord p t1 t2 t3 data = Inr nz" "\<not> nz_Dropped nz"
  shows "nz_Payload nz = Some (nz_Observation nz)" "json_observation (nz_Observation nz)" "Validate (pr_Limits p) t3 (nz_Observation nz) = None"
  using assms by (auto simp: NormalizeMessage_def Encode_def bind_res_def Let_def split: sum.splits prod.splits option.splits if_splits)


text \<open>
  (C38) An alert event that stage B records reaches the automation engine unchanged: the text the relay
  publishes for its outbox row is routed by the event's device, and handling a message with that text
  is handling the event.
\<close>

theorem recorded_event_reaches_engine:
  assumes "utf8_event ev" "json_event ev" "e_EventID ev \<noteq> []" "e_DeviceID ev \<noteq> []" "e_Type ev \<noteq> []"
    and "int (length (show_json (event_json ev))) \<le> l_MaxMessageBytes DefaultLimits"
    and "Data m = out_Payload (relay_out (relay_msg_of (event_message subject msgID ev)))"
  shows "DeviceKey m = e_DeviceID ev
    \<and> Handle event_decoder eng devices None (Data m) =
        bind_tx (HandleEvent eng ev) (\<lambda>(created, err). case err of Some er \<Rightarrow> fail_tx er | None \<Rightarrow> return_tx ())"
proof
  have written: "Data m = show_json (event_json ev)"
    by (simp add: assms(7) relay_out_def relay_msg_of_def event_message_def payload_text_def)
  show "DeviceKey m = e_DeviceID ev"
    by (rule DeviceKey_text [OF event_writable [OF assms(1,2)] key_of_event assms(4) written])
  show "Handle event_decoder eng devices None (Data m) =
      bind_tx (HandleEvent eng ev) (\<lambda>(created, err). case err of Some er \<Rightarrow> fail_tx er | None \<Rightarrow> return_tx ())"
    using event_text [OF assms(1,2,6)] assms(3-5)
    by (simp add: Handle_def written lift_tx_def bind_tx_def return_tx_def fun_eq_iff)
qed

text \<open>
  (C39) Automation is harmless until someone says otherwise. With a configuration that was loaded
  without the dry-run variable in the environment and from a file that does not switch dry-run off,
  processing any request leaves the devices, the recorded events, the webhooks and the mock
  configurations as they were, whatever the policies, approvals and adapters.
\<close>

theorem default_configuration_changes_nothing:
  assumes "load yaml path lookup = Inr cfg" "lookup ''INFRA_OBSERVER_AUTOMATION_DEFAULT_DRY_RUN'' = None"
    and "\<forall>name text c. path = Some (name, Inr text) \<longrightarrow> yaml text Default = Inr c \<longrightarrow> au_DefaultDryRun (cf_Automation c)"
    and "process (automation_engine ps zones devices (au_DefaultDryRun (cf_Automation cfg)) trunc ctl reader generic ext clock) req (s, x) = (r, (s', x'))"
  shows "fleet_effects fst x' = fleet_effects fst x"
proof (rule ccontr)
  assume "fleet_effects fst x' \<noteq> fleet_effects fst x"
  with assms(4) have "passed (automation_engine ps zones devices (au_DefaultDryRun (cf_Automation cfg)) trunc ctl reader generic ext clock) req s (clock_time clock x)"
    by (rule std.process_passed)
  then have "\<not> au_DefaultDryRun (cf_Automation cfg)" by (auto simp: passed_def automation_engine_def)
  with dry_by_default [OF assms(1-3)] show False by simp
qed



section \<open>Witnesses\<close>

definition ex_raw_message :: message where
  "ex_raw_message = \<lparr>m_msg = \<lparr>nm_Subject = ''telemetry.raw.snmp'', nm_Data = show_json (observation_json ex_reading), nm_Header = fmempty\<rparr>,
     m_Metadata = None\<rparr>"

lemma ex_normalized:
  "\<exists>nz. NormalizeMessage observation_decoder fm_items ex_processor (4 * second) (4 * second) (4 * second) (Data ex_raw_message) = Inr nz
     \<and> \<not> nz_Dropped nz \<and> utf8_observation (nz_Observation nz) \<and> o_DeviceID (nz_Observation nz) = ''r1''
     \<and> int (length (show_json (observation_json (nz_Observation nz)))) \<le> l_MaxMessageBytes (pr_Limits ex_processor)"
proof -
  have "case NormalizeMessage observation_decoder fm_items ex_processor (4 * second) (4 * second) (4 * second) (Data ex_raw_message) of
      Inl e \<Rightarrow> False
    | Inr nz \<Rightarrow> \<not> nz_Dropped nz \<and> utf8_observation (nz_Observation nz) \<and> o_DeviceID (nz_Observation nz) = ''r1''
        \<and> int (length (show_json (observation_json (nz_Observation nz)))) \<le> l_MaxMessageBytes (pr_Limits ex_processor)"
    by code_simp
  then show ?thesis by (auto split: sum.splits)
qed


definition ex_alert :: event where
  "ex_alert = \<lparr>e_EventID = ''e1'', e_CorrelationID = ''c1'', e_DeviceID = ''h1'', e_Type = ''host.down'', e_Severity = SeverityCritical,
     e_Message = ''down'', e_Labels = fmempty, e_OccurredAt = 5 * second, e_ObservationID = ''o1'', e_Source = ''reach'', e_AlertKey = ''k'',
     e_Resolves = False\<rparr>"

definition ex_alert_message :: message where
  "ex_alert_message = \<lparr>m_msg = \<lparr>nm_Subject = SubjectEventAlert,
     nm_Data = out_Payload (relay_out (relay_msg_of (event_message SubjectEventAlert ''e1.alert'' ex_alert))), nm_Header = fmempty\<rparr>,
     m_Metadata = None\<rparr>"

theorem recorded_event_reaches_engine_witness:
  "DeviceKey ex_alert_message = ''h1''
   \<and> Handle event_decoder ex_engine fmempty None (Data ex_alert_message) =
       bind_tx (HandleEvent ex_engine ex_alert) (\<lambda>(created, err). case err of Some er \<Rightarrow> fail_tx er | None \<Rightarrow> return_tx ())"
proof -
  have ok: "utf8_event ex_alert" "json_event ex_alert" "e_EventID ex_alert \<noteq> []" "e_DeviceID ex_alert \<noteq> []" "e_Type ex_alert \<noteq> []"
    "int (length (show_json (event_json ex_alert))) \<le> l_MaxMessageBytes DefaultLimits"
    by code_simp+
  have "Data ex_alert_message = out_Payload (relay_out (relay_msg_of (event_message SubjectEventAlert ''e1.alert'' ex_alert)))"
    by (simp add: ex_alert_message_def Data_def)
  from recorded_event_reaches_engine [OF ok this] show ?thesis by (simp add: ex_alert_def)
qed

theorem default_configuration_changes_nothing_witness:
  "\<exists>cfg. load (\<lambda>text c. Inr c) None ex_env = Inr cfg
     \<and> fleet_effects fst (snd (snd (process (automation_engine ex_policies (\<lambda>tz. None) (NewRegistry [ex_host]) (au_DefaultDryRun (cf_Automation cfg))
         (\<lambda>f. 0) ex_controller ex_offline ex_notifier None (\<lambda>n. (10 * hour, n))) ex_action (ex_action_store, ex_plant))))
       = fleet_effects fst ex_plant"
proof -
  obtain cfg where cfg: "load (\<lambda>text c. Inr c) None ex_env = Inr cfg" using ex_env_loads by blast
  let ?run = "process (automation_engine ex_policies (\<lambda>tz. None) (NewRegistry [ex_host]) (au_DefaultDryRun (cf_Automation cfg))
         (\<lambda>f. 0) ex_controller ex_offline ex_notifier None (\<lambda>n. (10 * hour, n))) ex_action (ex_action_store, ex_plant)"
  obtain r s' x' where run: "?run = (r, (s', x'))" by (metis surj_pair)
  have "ex_env ''INFRA_OBSERVER_AUTOMATION_DEFAULT_DRY_RUN'' = None" by code_simp
  from default_configuration_changes_nothing [OF cfg this _ run] cfg show ?thesis by (simp add: run)
qed

text \<open>A text grows by a factor of at most six when it is quoted, so an unknown id of known length is no obstacle.\<close>

lemma length_quote_body: "length (quote_body s) \<le> 6 * length s"
proof (induction s rule: quote_body.induct)
  case (1 s)
  have e: "length (escape_ascii c) \<le> 6" for c by (simp add: escape_ascii_def Let_def)
  have r: "length (escape_rune t) \<le> 6 * length t" if "t \<noteq> []" for t
    using that by (cases t) (auto simp: escape_rune_def)
  have l: "length (take (rune_size s) s) = rune_size s" using rune_size_le by simp
  show ?case
  proof (cases "s = [] \<or> byte (hd s) < 0x80 \<or> rune_size s = 0")
    case True
    with 1 e [of "hd s"] show ?thesis
      by (subst quote_body.simps) (cases s; auto simp del: rune_size.simps)
  next
    case False
    with 1 have "length (quote_body (drop (rune_size s) s)) \<le> 6 * (length s - rune_size s)" by simp
    moreover have "length (escape_rune (take (rune_size s) s)) \<le> 6 * rune_size s" using r [of "take (rune_size s) s"] l False by auto
    ultimately show ?thesis using False rune_size_le [of s] by (subst quote_body.simps) (simp del: rune_size.simps)
  qed
qed

lemma length_with_id:
  "length (show_json (observation_json ob)) \<le> 6 * length (o_ObservationID ob) + length (show_json (observation_json (ob\<lparr>o_ObservationID := []\<rparr>)))"
  using length_quote_body [of "o_ObservationID ob"] by (simp add: observation_json_def quote_json_def quote_body.simps [of "[]"])

definition ex_collector :: "ex_world scheduler" where
  "ex_collector = \<lparr>sh_Poll = (\<lambda>dev cycleID w. ((empty_result, Fails (Errorf CategoryTimeout ''no answer'')), w)), sh_Sink = NATSSink ex_broker (\<lambda>_. None),
     sh_Workers = 2, sh_DefaultInterval = 30 * second, sh_Now = (\<lambda>w. (5 * second, w)), sh_NewID = (\<lambda>w. (''c1'', w))\<rparr>"

lemma ex_report_short:
  "int (length (show_json (observation_json (hd (cycle_observations ''c1'' ex_polled (5 * second) (time_sub (5 * second) (5 * second)) empty_result
     (Some (Errorf CategoryTimeout ''no answer''))))))) \<le> l_MaxMessageBytes DefaultLimits"
proof -
  let ?ob = "hd (cycle_observations ''c1'' ex_polled (5 * second) (time_sub (5 * second) (5 * second)) empty_result
     (Some (Errorf CategoryTimeout ''no answer'')))"
  have "length (o_ObservationID ?ob) = 32" by (simp add: cycle_observations_def cycle_observation_def Let_def NewObservationID_def)
  moreover have "?ob\<lparr>o_ObservationID := []\<rparr> = \<lparr>o_ObservationID = [], o_CorrelationID = ''c1'', o_DeviceID = ''r1'', o_Source = ''snmp'',
      o_Metric = MetricPollSuccess, o_Value = VBool False, o_Labels = fmap_of_list [(''protocol'', ''snmp'')], o_ObservedAt = 5 * second, o_ReceivedAt = 0,
      o_Metadata = fmap_of_list [(''error_category'', category_text (CategoryOf (Errorf CategoryTimeout ''no answer''))),
        (''error'', take 200 (err_text (Errorf CategoryTimeout ''no answer'')))]\<rparr>"
    by (simp add: cycle_observations_def cycle_observation_def Let_def ex_polled_def)
  moreover have "int (length (show_json (observation_json \<lparr>o_ObservationID = [], o_CorrelationID = ''c1'', o_DeviceID = ''r1'', o_Source = ''snmp'',
      o_Metric = MetricPollSuccess, o_Value = VBool False, o_Labels = fmap_of_list [(''protocol'', ''snmp'')], o_ObservedAt = 5 * second, o_ReceivedAt = 0,
      o_Metadata = fmap_of_list [(''error_category'', category_text (CategoryOf (Errorf CategoryTimeout ''no answer''))),
        (''error'', take 200 (err_text (Errorf CategoryTimeout ''no answer'')))]\<rparr>))) \<le> 1000"
    by code_simp
  ultimately show ?thesis using length_with_id [of ?ob] by (simp add: DefaultLimits_def)
qed


end
